(* ===== verification/MysPrelude.thy ===== *)
theory MysPrelude
  imports Main "HOL-Library.Word" "HOL-Library.Char_ord"
begin

text \<open>
  Shared vocabulary of the development: C bytes and buffers, the C library
  functions the adapter calls on them (\<open>memcpy\<close> of integers, \<open>strlen\<close>, \<open>strncasecmp\<close>,
  \<open>snprintf\<close> with \<open>%u\<close>, \<open>%d\<close> and \<open>%0nd\<close>), and the generic lemmas the component theories
  share.  A C \<open>char\<close> is a HOL \<^typ>\<open>char\<close> (eight bits), a buffer is a list of them.  The
  target is little-endian with 8-byte \<open>long\<close>, as on the platforms the build supports.
\<close>

unbundle bit_operations_syntax

type_synonym bytes = "char list"

abbreviation (input) NUL :: char where "NUL \<equiv> CHR 0x00"

named_theorems byte_simps \<open>byte-level encoding and decoding of integers\<close>
named_theorems buf_simps \<open>reading and overwriting buffers\<close>

section \<open>Little-endian integers\<close>

text \<open>
  \<open>le_enc k n\<close> is what \<open>memcpy(buf, &n, k)\<close> stores: the \<open>k\<close> low-order bytes of \<open>n\<close>;
  \<open>le_dec bs\<close> is the value of a zeroed integer after \<open>memcpy(&n, buf, length bs)\<close>.
\<close>

fun le_enc :: "nat \<Rightarrow> nat \<Rightarrow> bytes" where
  "le_enc 0 n = []"
| "le_enc (Suc k) n = char_of n # le_enc k (n div 256)"

fun le_dec :: "bytes \<Rightarrow> nat" where
  "le_dec [] = 0"
| "le_dec (c # cs) = of_char c + 256 * le_dec cs"

text \<open>The two's complement representation of a signed C integer of \<open>8 * k\<close> bits.\<close>

definition le_enc_int :: "nat \<Rightarrow> int \<Rightarrow> bytes" where
  "le_enc_int k i = le_enc k (nat (i mod 256 ^ k))"

definition wrap_signed :: "nat \<Rightarrow> int \<Rightarrow> int" where
  "wrap_signed w i = (i + 2 ^ (w - 1)) mod 2 ^ w - 2 ^ (w - 1)"

lemma of_char_less_256 [simp]: "(of_char c :: nat) < 256"
  using of_char_of [of "of_char c :: nat"] by (metis char_of_char mod_less_divisor zero_less_numeral)

lemma length_le_enc [simp]: "length (le_enc k n) = k"
  by (induction k arbitrary: n) auto

lemma le_dec_le_enc [byte_simps]: "le_dec (le_enc k n) = n mod 256 ^ k"
proof (induction k arbitrary: n)
  case 0
  then show ?case by simp
next
  case (Suc k)
  have "n mod 256 ^ Suc k = n mod 256 + 256 * (n div 256 mod 256 ^ k)"
    by (simp add: mod_mult2_eq)
  with Suc show ?case by simp
qed

lemma le_dec_bound: "le_dec bs < 256 ^ length bs"
proof (induction bs)
  case Nil
  then show ?case by simp
next
  case (Cons c cs)
  have "of_char c + 256 * le_dec cs \<le> 255 + 256 * (256 ^ length cs - 1)"
  proof (intro add_mono mult_le_mono order_refl)
    show "of_char c \<le> (255 :: nat)"
      using of_char_less_256 [of c] by linarith
    show "le_dec cs \<le> 256 ^ length cs - 1"
      using Cons by simp
  qed
  also have "\<dots> < 256 * 256 ^ length cs"
    by (simp add: algebra_simps)
  finally show ?case by simp
qed

lemma le_enc_le_dec [byte_simps]: "le_enc (length bs) (le_dec bs) = bs"
proof (induction bs)
  case Nil
  then show ?case by simp
next
  case (Cons c cs)
  have "(of_char c + 256 * le_dec cs) div 256 = le_dec cs"
    using of_char_less_256 [of c] by simp
  moreover have "char_of (of_char c + 256 * le_dec cs) = c"
  proof -
    have "char_of (of_char c + 256 * le_dec cs) = (char_of ((of_char c + 256 * le_dec cs) mod 256) :: char)"
      by (simp only: char_of_mod_256)
    also have "\<dots> = char_of (of_char c :: nat)"
      by simp
    finally show ?thesis by simp
  qed
  ultimately show ?case using Cons by simp
qed

lemma le_dec_append: "le_dec (xs @ ys) = le_dec xs + 256 ^ length xs * le_dec ys"
  by (induction xs) (simp_all add: algebra_simps)

lemma le_dec_le_enc_small: "n < 256 ^ k \<Longrightarrow> le_dec (le_enc k n) = n"
  by (simp add: le_dec_le_enc)

lemma le_enc_inj: "m < 256 ^ k \<Longrightarrow> n < 256 ^ k \<Longrightarrow> le_enc k m = le_enc k n \<longleftrightarrow> m = n"
  by (metis le_dec_le_enc_small)

text \<open>Evaluation at the widths the protocol uses.\<close>

lemma le_enc_widths [byte_simps]:
  "le_enc 1 n = [char_of n]"
  "le_enc 2 n = [char_of n, char_of (n div 256)]"
  "le_enc 3 n = [char_of n, char_of (n div 256), char_of (n div 65536)]"
  "le_enc 4 n = [char_of n, char_of (n div 256), char_of (n div 65536), char_of (n div 16777216)]"
proof -
  have two: "(2::nat) = Suc (Suc 0)" and three: "(3::nat) = Suc (Suc (Suc 0))"
    and four: "(4::nat) = Suc (Suc (Suc (Suc 0)))"
    by simp_all
  have dd: "n div 256 div 256 = n div 65536" "n div 65536 div 256 = n div 16777216"
    by (simp_all add: div_mult2_eq [symmetric])
  show "le_enc 1 n = [char_of n]"
    by (simp only: One_nat_def le_enc.simps)
  show "le_enc 2 n = [char_of n, char_of (n div 256)]"
    by (simp only: two le_enc.simps)
  show "le_enc 3 n = [char_of n, char_of (n div 256), char_of (n div 65536)]"
    by (simp only: three le_enc.simps dd)
  show "le_enc 4 n = [char_of n, char_of (n div 256), char_of (n div 65536), char_of (n div 16777216)]"
    by (simp only: four le_enc.simps dd)
qed

lemma length_le_enc_int [simp]: "length (le_enc_int k i) = k"
  by (simp add: le_enc_int_def)

lemma wrap_signed_id:
  "0 < w \<Longrightarrow> - (2 ^ (w - 1)) \<le> i \<Longrightarrow> i < 2 ^ (w - 1) \<Longrightarrow> wrap_signed w i = i"
proof -
  assume "0 < w" and lo: "- (2 ^ (w - 1)) \<le> i" and hi: "i < 2 ^ (w - 1)"
  then have "(2::int) ^ w = 2 * 2 ^ (w - 1)"
    by (cases w) auto
  with lo hi have "(i + 2 ^ (w - 1)) mod 2 ^ w = i + 2 ^ (w - 1)"
    by (intro mod_pos_pos_trivial) auto
  then show ?thesis by (simp add: wrap_signed_def)
qed

section \<open>Buffers\<close>

text \<open>
  A write of \<open>bs\<close> at index \<open>i\<close> of an allocated buffer; it is defined only inside the
  allocation, so an out-of-bounds \<open>memcpy\<close> or store of the source is the value \<open>None\<close>.
\<close>

definition overwrite :: "bytes \<Rightarrow> nat \<Rightarrow> bytes \<Rightarrow> bytes" where
  "overwrite d i bs = take i d @ bs @ drop (i + length bs) d"

definition mem_write :: "bytes \<Rightarrow> nat \<Rightarrow> bytes \<Rightarrow> bytes option" where
  "mem_write d i bs = (if i + length bs \<le> length d then Some (overwrite d i bs) else None)"

definition mem_read :: "bytes \<Rightarrow> nat \<Rightarrow> char option" where
  "mem_read d i = (if i < length d then Some (d ! i) else None)"

lemma length_overwrite [simp]: "i + length bs \<le> length d \<Longrightarrow> length (overwrite d i bs) = length d"
  by (simp add: overwrite_def)

lemma take_overwrite [buf_simps]:
  "i + length bs \<le> length d \<Longrightarrow> take (i + length bs) (overwrite d i bs) = take i d @ bs"
  by (simp add: overwrite_def)

lemma drop_overwrite [buf_simps]:
  "i + length bs \<le> length d \<Longrightarrow> drop (i + length bs) (overwrite d i bs) = drop (i + length bs) d"
  by (simp add: overwrite_def)

lemma take_overwrite_prefix [buf_simps]:
  "j \<le> i \<Longrightarrow> i + length bs \<le> length d \<Longrightarrow> take j (overwrite d i bs) = take j d"
  by (simp add: overwrite_def min_def)

lemma overwrite_Nil [simp]: "i \<le> length d \<Longrightarrow> overwrite d i [] = d"
  by (simp add: overwrite_def)

lemma overwrite_overwrite_adjacent:
  "i + length xs + length ys \<le> length d \<Longrightarrow>
     overwrite (overwrite d i xs) (i + length xs) ys = overwrite d i (xs @ ys)"
  by (simp add: overwrite_def ac_simps)

lemma mem_write_Some_iff:
  "mem_write d i bs = Some d' \<longleftrightarrow> i + length bs \<le> length d \<and> d' = overwrite d i bs"
  by (auto simp: mem_write_def)

text \<open>The bslice of \<open>n\<close> bytes that starts at index \<open>i\<close>.\<close>

definition bslice :: "nat \<Rightarrow> nat \<Rightarrow> bytes \<Rightarrow> bytes" where
  "bslice i n d = take n (drop i d)"

lemma length_bslice [simp]: "i + n \<le> length d \<Longrightarrow> length (bslice i n d) = n"
  by (simp add: bslice_def)

lemma bslice_overwrite_same [buf_simps]:
  "i + length bs \<le> length d \<Longrightarrow> bslice i (length bs) (overwrite d i bs) = bs"
  by (simp add: bslice_def overwrite_def)

lemma bslice_split: "bslice i (m + n) d = bslice i m d @ bslice (i + m) n d"
  by (simp add: bslice_def take_add add.commute)

lemma bslice_overwrite_before [buf_simps]:
  "j + n \<le> i \<Longrightarrow> i + length bs \<le> length d \<Longrightarrow> bslice j n (overwrite d i bs) = bslice j n d"
  by (simp add: bslice_def overwrite_def take_drop min_def add.commute)

lemma bslice_overwrite_after [buf_simps]:
  "i + length bs \<le> j \<Longrightarrow> i + length bs \<le> length d \<Longrightarrow> bslice j n (overwrite d i bs) = bslice j n d"
  by (simp add: bslice_def overwrite_def)

lemma bslice_Cons: "i < length d \<Longrightarrow> bslice i (Suc n) d = d ! i # bslice (Suc i) n d"
  by (simp add: bslice_def Cons_nth_drop_Suc [symmetric])

lemma overwrite_nth_other [simp]:
  "j < i \<or> i + length bs \<le> j \<Longrightarrow> i + length bs \<le> length d \<Longrightarrow> overwrite d i bs ! j = d ! j"
  by (auto simp: overwrite_def nth_append)

lemma overwrite_nth_here [simp]: "i < length d \<Longrightarrow> overwrite d i [c] ! i = c"
  by (simp add: overwrite_def nth_append)

section \<open>C strings\<close>

text \<open>
  A C string value is the list of its characters without the terminator; \<open>cstr\<close> is the
  string a pointer into a buffer denotes, \<open>strlen\<close> its length.
\<close>

definition cstr :: "bytes \<Rightarrow> bytes" where
  "cstr bs = takeWhile (\<lambda>c. c \<noteq> NUL) bs"

definition strlen :: "bytes \<Rightarrow> nat" where
  "strlen bs = length (cstr bs)"

lemma cstr_no_NUL: "NUL \<notin> set (cstr bs)"
  by (auto simp: cstr_def dest: set_takeWhileD)

lemma cstr_append_NUL [simp]: "NUL \<notin> set s \<Longrightarrow> cstr (s @ NUL # r) = s"
  by (induction s) (auto simp: cstr_def)

lemma cstr_id [simp]: "NUL \<notin> set s \<Longrightarrow> cstr s = s"
  by (induction s) (auto simp: cstr_def)

lemma strlen_append_NUL [simp]: "NUL \<notin> set s \<Longrightarrow> strlen (s @ NUL # r) = length s"
  by (simp add: strlen_def)

text \<open>\<open>tolower\<close> and \<open>toupper\<close> in the C locale, and the equality tests of \<open>strncasecmp\<close>,
  \<open>strncmp\<close> and \<open>memcmp\<close> against 0.  Reading past the end of a list meets the terminator.\<close>

definition c_tolower :: "char \<Rightarrow> char" where
  "c_tolower c = (if CHR ''A'' \<le> c \<and> c \<le> CHR ''Z'' then char_of ((of_char c :: nat) + 32) else c)"

fun strncaseeq :: "bytes \<Rightarrow> bytes \<Rightarrow> nat \<Rightarrow> bool" where
  "strncaseeq s t 0 = True"
| "strncaseeq [] [] (Suc n) = True"
| "strncaseeq [] (b # bs) (Suc n) = (b = NUL)"
| "strncaseeq (a # as) [] (Suc n) = (a = NUL)"
| "strncaseeq (a # as) (b # bs) (Suc n) =
     (c_tolower a = c_tolower b \<and> (a = NUL \<or> strncaseeq as bs n))"

fun strneq :: "bytes \<Rightarrow> bytes \<Rightarrow> nat \<Rightarrow> bool" where
  "strneq s t 0 = True"
| "strneq [] [] (Suc n) = True"
| "strneq [] (b # bs) (Suc n) = (b = NUL)"
| "strneq (a # as) [] (Suc n) = (a = NUL)"
| "strneq (a # as) (b # bs) (Suc n) = (a = b \<and> (a = NUL \<or> strneq as bs n))"

definition is_digit :: "char \<Rightarrow> bool" where
  "is_digit c \<longleftrightarrow> CHR ''0'' \<le> c \<and> c \<le> CHR ''9''"

definition digit_val :: "char \<Rightarrow> nat" where
  "digit_val c = of_char c - 48"

definition digit_char :: "nat \<Rightarrow> char" where
  "digit_char d = char_of (48 + d)"

lemma strneq_refl: "strneq s s n"
  by (induction n arbitrary: s; case_tac s) auto

lemma strncaseeq_refl: "strncaseeq s s n"
  by (induction n arbitrary: s; case_tac s) auto

lemma strncaseeq_prefix: "n = length t \<Longrightarrow> strncaseeq (t @ r) t n"
  by (induction t arbitrary: n) auto

lemma strneq_take:
  "NUL \<notin> set s \<Longrightarrow> NUL \<notin> set t \<Longrightarrow> n = length t \<Longrightarrow> strneq s t n \<longleftrightarrow> take n s = t"
  by (induction s t n rule: strneq.induct) auto

lemma of_char_digit_char: "d < 10 \<Longrightarrow> (of_char (digit_char d) :: nat) = 48 + d"
  by (simp add: digit_char_def of_char_of)

lemma digit_val_digit_char [simp]: "d < 10 \<Longrightarrow> digit_val (digit_char d) = d"
  by (simp add: digit_val_def of_char_digit_char)

lemma is_digit_iff: "is_digit c \<longleftrightarrow> 48 \<le> (of_char c :: nat) \<and> (of_char c :: nat) \<le> 57"
  by (simp add: is_digit_def less_eq_char_def)

lemma is_digit_digit_char [simp]: "d < 10 \<Longrightarrow> is_digit (digit_char d)"
  by (simp add: is_digit_iff of_char_digit_char)

lemma digit_val_less: "is_digit c \<Longrightarrow> digit_val c < 10"
  unfolding is_digit_iff digit_val_def by linarith

section \<open>Printing and reading decimal numbers\<close>

text \<open>\<open>snprintf\<close> with \<open>%u\<close>, \<open>%d\<close> and \<open>%0kd\<close> of a non-negative value.\<close>

fun show_nat :: "nat \<Rightarrow> string" where
  "show_nat n = (if n < 10 then [digit_char n] else show_nat (n div 10) @ [digit_char (n mod 10)])"

declare show_nat.simps [simp del]

definition show_int :: "int \<Rightarrow> string" where
  "show_int i = (if i < 0 then CHR ''-'' # show_nat (nat (- i)) else show_nat (nat i))"

definition show_nat_pad :: "nat \<Rightarrow> nat \<Rightarrow> string" where
  "show_nat_pad k n = replicate (k - length (show_nat n)) (CHR ''0'') @ show_nat n"

text \<open>The value of a run of digits.\<close>

fun digits_val :: "nat \<Rightarrow> bytes \<Rightarrow> nat" where
  "digits_val acc [] = acc"
| "digits_val acc (c # cs) = (if is_digit c then digits_val (acc * 10 + digit_val c) cs else acc)"

lemma show_nat_digits: "c \<in> set (show_nat n) \<Longrightarrow> is_digit c"
proof (induction n rule: show_nat.induct)
  case (1 n)
  then show ?case
    by (cases "n < 10") (auto simp: show_nat.simps [of n])
qed

lemma show_nat_not_Nil [simp]: "show_nat n \<noteq> []"
  by (subst show_nat.simps) auto

lemma digits_val_append:
  "(\<And>c. c \<in> set xs \<Longrightarrow> is_digit c) \<Longrightarrow> digits_val acc (xs @ ys) = digits_val (digits_val acc xs) ys"
  by (induction xs arbitrary: acc) auto

lemma digits_val_show_nat [simp]: "digits_val 0 (show_nat n) = n"
proof (induction n rule: show_nat.induct)
  case (1 n)
  show ?case
  proof (cases "n < 10")
    case True
    then show ?thesis by (simp add: show_nat.simps [of n])
  next
    case False
    with 1 have "digits_val 0 (show_nat (n div 10)) = n div 10"
      by simp
    with False show ?thesis
      by (simp add: show_nat.simps [of n] digits_val_append show_nat_digits)
  qed
qed

lemma digits_val_zeros [simp]: "digits_val 0 (replicate k (CHR ''0'') @ xs) = digits_val 0 xs"
  by (induction k) (auto simp: is_digit_def digit_val_def)

lemma digits_val_show_nat_pad [simp]: "digits_val 0 (show_nat_pad k n) = n"
  by (simp add: show_nat_pad_def)

lemma show_nat_pad_digits: "c \<in> set (show_nat_pad k n) \<Longrightarrow> is_digit c"
  by (auto simp: show_nat_pad_def is_digit_def dest: show_nat_digits)

lemma show_nat_pad_not_Nil [simp]: "show_nat_pad k n \<noteq> []"
  by (simp add: show_nat_pad_def)

lemma digits_val_mono: "acc \<le> digits_val acc ds"
proof (induction ds arbitrary: acc)
  case (Cons c ds)
  have "acc \<le> acc * 10 + digit_val c"
    by simp
  also have "\<dots> \<le> digits_val (acc * 10 + digit_val c) ds"
    by (rule Cons)
  finally show ?case by simp
qed simp

lemma show_nat_length: "n < 10 ^ Suc k \<Longrightarrow> length (show_nat n) \<le> Suc k"
proof (induction k arbitrary: n)
  case 0
  then show ?case by (simp add: show_nat.simps [of n])
next
  case (Suc k)
  show ?case
  proof (cases "n < 10")
    case False
    have "n div 10 < 10 ^ Suc k"
      using Suc.prems by (simp add: less_mult_imp_div_less)
    with Suc.IH [of "n div 10"] False show ?thesis by (simp add: show_nat.simps [of n])
  qed (simp add: show_nat.simps [of n])
qed

end
