(* ===== verification/NetTransceiver.thy ===== *)
theory NetTransceiver
  imports MysPrelude "HOL-Library.Sublist"
begin

text \<open>
  The packet transceiver of \<open>src/backend/adapter/mysql/netTransceiver.c\<close> and the part of
  \<open>StringInfo\<close> (\<open>src/common/stringinfo.c\<close>) it reads into.  A MySQL packet is a header of
  four bytes (payload length in three, sequence number in one) and its payload; a payload of
  \<open>0xFFFFFF\<close> bytes or more is cut into several packets.

  The socket is the environment.  A read script lists what the successive \<open>secure_read\<close>
  calls meet, a write script what the successive \<open>secure_write\<close> calls meet; a finished read
  script is a closed connection, a finished write script a socket that takes everything.
  The ghost field \<open>sent\<close> is the sequence of bytes the socket has accepted so far.  Every
  store outside an allocated buffer is the fault \<open>OutOfBounds\<close>, \<open>elog(ERROR)\<close> and
  \<open>proc_exit\<close> are faults too, and a loop that would never end is the fault \<open>Hang\<close>.
\<close>

section \<open>Data\<close>

definition WBUFF_INITIAL_SIZE :: nat where "WBUFF_INITIAL_SIZE = 1048576"
definition SINGLE_PACKET_MAX_PAYLOAD_LENGTH :: nat where "SINGLE_PACKET_MAX_PAYLOAD_LENGTH = 16777215"
definition EACH_PACKET_HEARDER_LENGTH :: nat where "EACH_PACKET_HEARDER_LENGTH = 4"
definition MaxAllocSize :: nat where "MaxAllocSize = 1073741823"

datatype rd_ev = Data bytes | RIntr | REof | RErr
datatype wr_ev = Accept nat | WIntr | WZero | WErr

datatype fault =
    OutOfBounds
  | Hang
  | ProcExit
  | BadSequence int nat
  | PacketTooLarge nat
  | ClientDisconnectRead
  | ClientDisconnectWrite
  | OutOfMemory
  | InvalidEnlarge
  | PgError bytes

record net =
  netPacketSeqID :: int
  WBuffSize :: nat
  WBuff :: bytes
  writePointer :: nat
  sendStart :: nat
  ClientConnectionLost :: bool
  rd_script :: "rd_ev list"
  wr_script :: "wr_ev list"
  sent :: bytes

record StringInfo =
  si_data :: bytes
  si_len :: nat
  si_maxlen :: nat
  si_cursor :: nat
  si_offset :: nat

type_synonym 'a io = "(fault + 'a) \<times> net"

section \<open>StringInfo\<close>

definition resetStringInfo :: "StringInfo \<Rightarrow> StringInfo" where
  "resetStringInfo str = str \<lparr> si_data := (si_data str)[0 := NUL], si_len := 0, si_cursor := 0 \<rparr>"

definition initStringInfo :: StringInfo where
  "initStringInfo = resetStringInfo
     \<lparr> si_data = replicate 1024 NUL, si_len = 0, si_maxlen = 1024, si_cursor = 0, si_offset = 0 \<rparr>"

text \<open>The doubling loop; from length 0 it would never end (\<open>None\<close>).\<close>

function double_until :: "nat \<Rightarrow> nat \<Rightarrow> nat option" where
  "double_until needed newlen =
     (if needed \<le> newlen then Some newlen
      else if newlen = 0 then None
      else double_until needed (2 * newlen))"
  by pat_completeness auto
termination by (relation "measure (\<lambda>(needed, newlen). needed - newlen)") auto

declare double_until.simps [simp del]

definition enlargeStringInfo :: "StringInfo \<Rightarrow> int \<Rightarrow> fault + StringInfo" where
  "enlargeStringInfo str needed =
     (if needed < 0 then Inl InvalidEnlarge
      else if needed \<ge> int MaxAllocSize - int (si_len str) then Inl OutOfMemory
      else
        let needed' = nat needed + si_len str + 1 in
        if needed' \<le> si_maxlen str then Inr str
        else case double_until needed' (2 * si_maxlen str) of
               None \<Rightarrow> Inl Hang
             | Some newlen0 \<Rightarrow>
                 let newlen = (if newlen0 > MaxAllocSize then MaxAllocSize else newlen0) in
                 Inr (str \<lparr> si_data := si_data str @ replicate (newlen - length (si_data str)) NUL,
                            si_maxlen := newlen \<rparr>))"

section \<open>Reading\<close>

datatype rd_ret = Got bytes | Got_0 | Got_EINTR | Got_error

fun secure_read :: "nat \<Rightarrow> rd_ev list \<Rightarrow> rd_ret \<times> rd_ev list" where
  "secure_read len [] = (Got_0, [])"
| "secure_read len (Data bs # es) =
     (if bs = [] then secure_read len es
      else (Got (take len bs), if length bs \<le> len then es else Data (drop len bs) # es))"
| "secure_read len (RIntr # es) = (Got_EINTR, es)"
| "secure_read len (REof # es) = (Got_0, REof # es)"
| "secure_read len (RErr # es) = (Got_error, RErr # es)"

fun rd_size :: "rd_ev list \<Rightarrow> nat" where
  "rd_size [] = 0"
| "rd_size (Data bs # es) = Suc (length bs + rd_size es)"
| "rd_size (_ # es) = Suc (rd_size es)"

lemma secure_read_size:
  "secure_read len es = (Got bs, es') \<Longrightarrow> rd_size es' + length bs \<le> rd_size es"
  "secure_read len es = (Got_EINTR, es') \<Longrightarrow> rd_size es' < rd_size es"
  "secure_read len es = (Got bs, es') \<Longrightarrow> 0 < len \<Longrightarrow> 0 < length bs \<and> length bs \<le> len"
  by (induction len es rule: secure_read.induct) (auto split: if_splits)

text \<open>The loop of \<open>readBytes\<close>: the bytes stored at the destination, whether the result is
  0 (all were read) rather than \<open>EOF\<close>, and the rest of the script.\<close>

function readBytes :: "nat \<Rightarrow> rd_ev list \<Rightarrow> bytes \<times> bool \<times> rd_ev list" where
  "readBytes len es =
     (if len = 0 then ([], True, es)
      else case secure_read len es of
             (Got bs, es') \<Rightarrow>
               (case readBytes (len - length bs) es' of (rest, ok, es'') \<Rightarrow> (bs @ rest, ok, es''))
           | (Got_0, es') \<Rightarrow> ([], False, es')
           | (Got_EINTR, es') \<Rightarrow> readBytes len es'
           | (Got_error, es') \<Rightarrow> ([], False, es'))"
  by pat_completeness auto
termination
proof (relation "measure (\<lambda>(len, es). len + rd_size es)", goal_cases)
  case (2 len es ret es' bs)
  then have "secure_read len es = (Got bs, es')" "0 < len"
    by auto
  from secure_read_size(1) [OF this(1)] secure_read_size(3) [OF this]
  have "len - length bs + rd_size es' < len + rd_size es"
    by linarith
  then show ?case by simp
next
  case (3 len es ret es')
  then have "secure_read len es = (Got_EINTR, es')"
    by auto
  from secure_read_size(2) [OF this] show ?case
    by simp
qed simp

declare readBytes.simps [simp del]

text \<open>\<open>readAndProcessPacketHeader\<close>: \<open>None\<close> stands for \<open>EOF\<close>.\<close>

definition readAndProcessPacketHeader :: "net \<Rightarrow> nat option io" where
  "readAndProcessPacketHeader s =
     (case readBytes EACH_PACKET_HEARDER_LENGTH (rd_script s) of
        (buff, ok, es) \<Rightarrow>
          let s1 = s \<lparr> rd_script := es \<rparr> in
          if ok then
            (let payloadLen = le_dec (take 3 buff);
                 packetSeqIdFromFront = (of_char (buff ! 3) :: nat) in
             if int packetSeqIdFromFront = netPacketSeqID s
             then (Inr (Some payloadLen), s1 \<lparr> netPacketSeqID := netPacketSeqID s + 1 \<rparr>)
             else (Inl (BadSequence (netPacketSeqID s) packetSeqIdFromFront), s1))
          else (Inr None, s1))"

text \<open>\<open>readPacketPayload\<close>: the new buffer is returned beside the C result, since bytes that
  did arrive stay in it when the read fails.\<close>

definition readPacketPayload :: "StringInfo \<Rightarrow> nat \<Rightarrow> net \<Rightarrow> (bool \<times> StringInfo) io" where
  "readPacketPayload inBuf payloadLen s =
     (case (if int payloadLen > int (si_maxlen inBuf) - int (si_offset inBuf) - int (si_len inBuf)
            then enlargeStringInfo inBuf (int payloadLen + int (si_offset inBuf))
            else Inr inBuf) of
        Inl e \<Rightarrow> (Inl e, s)
      | Inr inBuf1 \<Rightarrow>
          (case readBytes payloadLen (rd_script s) of
             (bs, ok, es) \<Rightarrow>
               let s1 = s \<lparr> rd_script := es \<rparr> in
               (case mem_write (si_data inBuf1) (si_offset inBuf1 + si_len inBuf1) bs of
                  None \<Rightarrow> (Inl OutOfBounds, s1)
                | Some d \<Rightarrow>
                    let inBuf2 = inBuf1 \<lparr> si_data := d \<rparr> in
                    if ok then (Inr (True, inBuf2 \<lparr> si_len := si_len inBuf1 + payloadLen \<rparr>), s1)
                    else (Inr (False, inBuf2), s1))))"

text \<open>The bytes the script still delivers before the connection ends, and what \<open>readBytes\<close>
  does in terms of them, whatever the chunks and the interrupted calls.\<close>

fun stream :: "rd_ev list \<Rightarrow> bytes" where
  "stream [] = []"
| "stream (Data bs # es) = bs @ stream es"
| "stream (RIntr # es) = stream es"
| "stream (REof # es) = []"
| "stream (RErr # es) = []"

lemma secure_read_stream:
  "secure_read len es = (Got bs, es') \<Longrightarrow> stream es = bs @ stream es'"
  "secure_read len es = (Got_EINTR, es') \<Longrightarrow> stream es' = stream es"
  "secure_read len es = (Got_0, es') \<Longrightarrow> stream es = [] \<and> stream es' = []"
  "secure_read len es = (Got_error, es') \<Longrightarrow> stream es = [] \<and> stream es' = []"
  by (induction len es rule: secure_read.induct) (auto split: if_splits)

lemma readBytes_0 [simp]: "readBytes 0 es = ([], True, es)"
  by (simp add: readBytes.simps)

lemma readBytes_Got:
  "0 < len \<Longrightarrow> secure_read len es = (Got bs, es1) \<Longrightarrow>
     readBytes len es = (case readBytes (len - length bs) es1 of (rest, ok, es2) \<Rightarrow> (bs @ rest, ok, es2))"
  by (simp add: readBytes.simps [of len es])

lemma readBytes_EINTR:
  "0 < len \<Longrightarrow> secure_read len es = (Got_EINTR, es1) \<Longrightarrow> readBytes len es = readBytes len es1"
  by (simp add: readBytes.simps [of len es])

lemma readBytes_stop:
  "0 < len \<Longrightarrow> secure_read len es = (ret, es1) \<Longrightarrow> ret = Got_0 \<or> ret = Got_error \<Longrightarrow>
     readBytes len es = ([], False, es1) \<and> stream es = [] \<and> stream es1 = []"
  using secure_read_stream(3,4) [of len es es1] by (auto simp: readBytes.simps [of len es])

lemma secure_read_stop_size:
  "secure_read len es = (ret, es1) \<Longrightarrow> ret = Got_0 \<or> ret = Got_error \<Longrightarrow> rd_size es1 \<le> rd_size es"
  by (induction len es rule: secure_read.induct) (auto split: if_splits)

definition reads_as :: "nat \<Rightarrow> rd_ev list \<Rightarrow> bool" where
  "reads_as len es \<longleftrightarrow>
     (case readBytes len es of (bs, ok, es') \<Rightarrow>
        bs = take len (stream es) \<and> ok = (len \<le> length (stream es))
        \<and> stream es' = drop len (stream es) \<and> rd_size es' + length bs \<le> rd_size es)"

lemma readBytes_reads: "reads_as len es"
proof (induction len es rule: readBytes.induct)
  case (1 len es)
  show ?case
  proof (cases "len = 0")
    case True
    then show ?thesis by (simp add: reads_as_def)
  next
    case False
    obtain ret es1 where rd: "secure_read len es = (ret, es1)"
      by (cases "secure_read len es") auto
    show ?thesis
    proof (cases ret)
      case (Got bs)
      have "reads_as (len - length bs) es1"
        using 1(1) [OF False rd [symmetric] Got] by simp
      moreover have "stream es = bs @ stream es1" "rd_size es1 + length bs \<le> rd_size es" "length bs \<le> len"
        using secure_read_stream(1) [of len es bs es1] secure_read_size(1,3) [of len es bs es1] rd Got False
        by auto
      ultimately show ?thesis
        using rd Got False by (auto simp: reads_as_def readBytes_Got)
    next
      case Got_EINTR
      have "reads_as len es1"
        using 1(2) [OF False rd [symmetric] Got_EINTR] by simp
      then show ?thesis
        using rd Got_EINTR False secure_read_stream(2) [of len es es1] secure_read_size(2) [of len es es1]
        by (auto simp: reads_as_def readBytes_EINTR)
    qed (use rd False readBytes_stop [of len es ret es1] secure_read_stop_size [of len es ret es1] in
          \<open>auto simp: reads_as_def\<close>)
  qed
qed

lemma readBytes_ok:
  assumes "readBytes len es = (bs, ok, es')"
  shows "bs = take len (stream es)" "ok \<longleftrightarrow> len \<le> length (stream es)"
    "stream es' = drop len (stream es)" "rd_size es' + length bs \<le> rd_size es"
  using readBytes_reads [of len es] assms by (auto simp: reads_as_def)

lemma readBytes_True:
  assumes "readBytes len es = (bs, True, es')"
  shows "length bs = len \<and> stream es = bs @ stream es' \<and> rd_size es' + len \<le> rd_size es"
  using readBytes_ok [OF assms] by auto

lemma readAndProcessPacketHeader_size:
  "readAndProcessPacketHeader s = (Inr (Some n), s') \<Longrightarrow> rd_size (rd_script s') < rd_size (rd_script s)"
  by (cases "readBytes EACH_PACKET_HEARDER_LENGTH (rd_script s)")
     (auto simp: readAndProcessPacketHeader_def EACH_PACKET_HEARDER_LENGTH_def Let_def split: if_splits
       dest: readBytes_True)

lemma readPacketPayload_size:
  "readPacketPayload inBuf n s = (r, s') \<Longrightarrow> rd_size (rd_script s') \<le> rd_size (rd_script s)"
  by (cases "readBytes n (rd_script s)")
     (auto simp: readPacketPayload_def Let_def split: if_splits sum.splits option.splits
       dest: readBytes_ok(4))

text \<open>\<open>readAndProcessPacket\<close>: its \<open>do\<close>-\<open>while\<close> loop over the continuation packets, then the
  whole function.  The result of the first \<open>readPacketPayload\<close> call is not looked at.\<close>

function readContinuation :: "nat \<Rightarrow> StringInfo \<Rightarrow> net \<Rightarrow> (bool \<times> StringInfo) io" where
  "readContinuation max_allowed inBuf s =
     (case readAndProcessPacketHeader s of
        (Inl e, s1) \<Rightarrow> (Inl e, s1)
      | (Inr None, s1) \<Rightarrow> (Inr (False, inBuf), s1)
      | (Inr (Some payloadLen), s1) \<Rightarrow>
          if si_len inBuf + payloadLen > max_allowed
          then (Inl (PacketTooLarge (si_len inBuf + payloadLen)), s1)
          else (case readPacketPayload inBuf payloadLen s1 of
                  (Inl e, s2) \<Rightarrow> (Inl e, s2)
                | (Inr (ok, inBuf1), s2) \<Rightarrow>
                    if \<not> ok then (Inr (False, inBuf1), s2)
                    else if payloadLen = SINGLE_PACKET_MAX_PAYLOAD_LENGTH
                         then readContinuation max_allowed inBuf1 s2
                         else (Inr (True, inBuf1), s2)))"
  by pat_completeness auto
termination
proof (relation "measure (\<lambda>(_, _, s). rd_size (rd_script s))", goal_cases)
  case (2 max_allowed inBuf s x s1 y n z s2 w ok inBuf1)
  then have "readAndProcessPacketHeader s = (Inr (Some n), s1)"
      and "readPacketPayload inBuf n s1 = (z, s2)"
    by auto
  from readAndProcessPacketHeader_size [OF this(1)] readPacketPayload_size [OF this(2)]
  show ?case by simp
qed simp

declare readContinuation.simps [simp del]

definition readAndProcessPacket :: "nat \<Rightarrow> StringInfo \<Rightarrow> net \<Rightarrow> (bool \<times> StringInfo) io" where
  "readAndProcessPacket max_allowed inBuf s =
     (case readAndProcessPacketHeader s of
        (Inl e, s1) \<Rightarrow> (Inl e, s1)
      | (Inr None, s1) \<Rightarrow> (Inr (False, inBuf), s1)
      | (Inr (Some payloadLen), s1) \<Rightarrow>
          if payloadLen > max_allowed then (Inl (PacketTooLarge payloadLen), s1)
          else (case readPacketPayload inBuf payloadLen s1 of
                  (Inl e, s2) \<Rightarrow> (Inl e, s2)
                | (Inr (_, inBuf1), s2) \<Rightarrow>
                    (case (if payloadLen < SINGLE_PACKET_MAX_PAYLOAD_LENGTH
                           then (Inr (True, inBuf1), s2)
                           else readContinuation max_allowed inBuf1 s2) of
                       (Inl e, s3) \<Rightarrow> (Inl e, s3)
                     | (Inr (ok, inBuf2), s3) \<Rightarrow>
                         if \<not> ok then (Inr (False, inBuf2), s3)
                         else (case mem_write (si_data inBuf2) (si_len inBuf2 + si_offset inBuf2) [NUL] of
                                 None \<Rightarrow> (Inl OutOfBounds, s3)
                               | Some d \<Rightarrow> (Inr (True, inBuf2 \<lparr> si_data := d \<rparr>), s3)))))"

definition readPayloadForLogon :: "nat \<Rightarrow> StringInfo \<Rightarrow> net \<Rightarrow> StringInfo io" where
  "readPayloadForLogon max_allowed inBuf s =
     (case readAndProcessPacket max_allowed (resetStringInfo inBuf) s of
        (Inl e, s1) \<Rightarrow> (Inl e, s1)
      | (Inr (ok, inBuf1), s1) \<Rightarrow> if ok then (Inr inBuf1, s1) else (Inl ClientDisconnectRead, s1))"

definition readPayload :: "nat \<Rightarrow> StringInfo \<Rightarrow> net \<Rightarrow> StringInfo io" where
  "readPayload max_allowed inBuf s =
     (case readAndProcessPacket max_allowed (resetStringInfo inBuf) (s \<lparr> netPacketSeqID := 0 \<rparr>) of
        (Inl e, s1) \<Rightarrow> (Inl e, s1)
      | (Inr (ok, inBuf1), s1) \<Rightarrow> if ok then (Inr inBuf1, s1) else (Inl ClientDisconnectRead, s1))"

section \<open>Writing\<close>

datatype wr_ret = Put nat | Put_0 | Put_EINTR | Put_error

fun secure_write :: "nat \<Rightarrow> wr_ev list \<Rightarrow> wr_ret \<times> wr_ev list" where
  "secure_write len [] = (Put len, [])"
| "secure_write len (Accept n # es) = (Put (min len (Suc n)), es)"
| "secure_write len (WIntr # es) = (Put_EINTR, es)"
| "secure_write len (WZero # es) = (Put_0, es)"
| "secure_write len (WErr # es) = (Put_error, es)"

text \<open>\<open>flushWBuff\<close>: \<open>True\<close> stands for 0 and \<open>False\<close> for \<open>EOF\<close>.\<close>

function flushWBuff :: "net \<Rightarrow> bool io" where
  "flushWBuff s =
     (if sendStart s < writePointer s then
        (case secure_write (writePointer s - sendStart s) (wr_script s) of
           (Put ret, es) \<Rightarrow>
             if length (WBuff s) < sendStart s + ret then (Inl OutOfBounds, s)
             else flushWBuff (s \<lparr> sendStart := sendStart s + ret, wr_script := es,
                                  sent := sent s @ bslice (sendStart s) ret (WBuff s) \<rparr>)
         | (Put_0, es) \<Rightarrow>
             (Inr False, s \<lparr> sendStart := 0, writePointer := 0, ClientConnectionLost := True,
                             wr_script := es \<rparr>)
         | (Put_EINTR, es) \<Rightarrow> flushWBuff (s \<lparr> wr_script := es \<rparr>)
         | (Put_error, es) \<Rightarrow> (Inl ProcExit, s \<lparr> wr_script := es \<rparr>))
      else (Inr True, s \<lparr> sendStart := 0, writePointer := 0 \<rparr>))"
  by pat_completeness auto
termination
proof (relation "measure (\<lambda>s. (writePointer s - sendStart s) + length (wr_script s))", goal_cases)
  case (2 s p es ret)
  then show ?case
    by (cases "wr_script s"; cases "hd (wr_script s)") auto
next
  case (3 s p es)
  then show ?case
    by (cases "wr_script s"; cases "hd (wr_script s)") auto
qed simp

declare flushWBuff.simps [simp del]

function writeBytes :: "bytes \<Rightarrow> net \<Rightarrow> bool io" where
  "writeBytes buff s =
     (if buff = [] then (Inr True, s)
      else
        (case (if writePointer s \<ge> WBuffSize s then flushWBuff s else (Inr True, s)) of
           (Inl e, s1) \<Rightarrow> (Inl e, s1)
         | (Inr ok, s1) \<Rightarrow>
             if \<not> ok then (Inr False, s1)
             else
               let amount = min (WBuffSize s1 - writePointer s1) (length buff) in
               if amount = 0 then (Inl Hang, s1)
               else (case mem_write (WBuff s1) (writePointer s1) (take amount buff) of
                       None \<Rightarrow> (Inl OutOfBounds, s1)
                     | Some d \<Rightarrow> writeBytes (drop amount buff)
                                  (s1 \<lparr> WBuff := d, writePointer := writePointer s1 + amount \<rparr>))))"
  by pat_completeness auto
termination
  by (relation "measure (\<lambda>(buff, _). length buff)") auto

declare writeBytes.simps [simp del]

definition writePacketHeaderNoFlush :: "nat \<Rightarrow> net \<Rightarrow> bool io" where
  "writePacketHeaderNoFlush payloadLen s =
     (let buff = le_enc 3 payloadLen @ le_enc_int 1 (netPacketSeqID s);
          s1 = s \<lparr> netPacketSeqID := (if netPacketSeqID s < 255 then netPacketSeqID s + 1 else 0) \<rparr> in
      case writeBytes buff s1 of
        (Inl e, s2) \<Rightarrow> (Inl e, s2)
      | (Inr ok, s2) \<Rightarrow> if ok then (Inr True, s2) else (Inl ClientDisconnectWrite, s2))"

definition writePacketPayloadNoFlush :: "bytes \<Rightarrow> net \<Rightarrow> bool io" where
  "writePacketPayloadNoFlush payload s =
     (case writeBytes payload s of
        (Inl e, s1) \<Rightarrow> (Inl e, s1)
      | (Inr ok, s1) \<Rightarrow> if ok then (Inr True, s1) else (Inl ClientDisconnectWrite, s1))"

text \<open>\<open>writePacketPayloadFlush\<close> answers \<open>EOF\<close>, which is \<open>true\<close> as a \<open>bool\<close>, when the
  flush fails.\<close>

definition writePacketPayloadFlush :: "bytes \<Rightarrow> net \<Rightarrow> bool io" where
  "writePacketPayloadFlush payload s =
     (case writeBytes payload s of
        (Inl e, s1) \<Rightarrow> (Inl e, s1)
      | (Inr ok, s1) \<Rightarrow>
          if ok then (case flushWBuff s1 of (Inl e, s2) \<Rightarrow> (Inl e, s2) | (Inr _, s2) \<Rightarrow> (Inr True, s2))
          else (Inl ClientDisconnectWrite, s1))"

function writePacketHeaderPayloadNoFlush :: "bytes \<Rightarrow> net \<Rightarrow> bool io" where
  "writePacketHeaderPayloadNoFlush payload s =
     (if SINGLE_PACKET_MAX_PAYLOAD_LENGTH \<le> length payload then
        (case writePacketHeaderNoFlush SINGLE_PACKET_MAX_PAYLOAD_LENGTH s of
           (Inl e, s1) \<Rightarrow> (Inl e, s1)
         | (Inr ok, s1) \<Rightarrow>
             if ok then
               (case writePacketPayloadNoFlush (take SINGLE_PACKET_MAX_PAYLOAD_LENGTH payload) s1 of
                  (Inl e, s2) \<Rightarrow> (Inl e, s2)
                | (Inr ok2, s2) \<Rightarrow>
                    if ok2 then writePacketHeaderPayloadNoFlush
                                  (drop SINGLE_PACKET_MAX_PAYLOAD_LENGTH payload) s2
                    else (Inr False, s2))
             else (Inr False, s1))
      else
        (case writePacketHeaderNoFlush (length payload) s of
           (Inl e, s1) \<Rightarrow> (Inl e, s1)
         | (Inr ok, s1) \<Rightarrow>
             if ok then writePacketPayloadNoFlush payload s1 else (Inr False, s1)))"
  by pat_completeness auto
termination
  by (relation "measure (\<lambda>(payload, _). length payload)") (auto simp: SINGLE_PACKET_MAX_PAYLOAD_LENGTH_def)

declare writePacketHeaderPayloadNoFlush.simps [simp del]

definition writePacketHeaderPayloadFlush :: "bytes \<Rightarrow> net \<Rightarrow> bool io" where
  "writePacketHeaderPayloadFlush payload s =
     (case writePacketHeaderPayloadNoFlush payload s of
        (Inl e, s1) \<Rightarrow> (Inl e, s1)
      | (Inr ok, s1) \<Rightarrow>
          if ok then (case flushWBuff s1 of
                        (Inl e, s2) \<Rightarrow> (Inl e, s2)
                      | (Inr fl, s2) \<Rightarrow> if fl then (Inr True, s2) else (Inl ClientDisconnectWrite, s2))
          else (Inl ClientDisconnectWrite, s1))"

text \<open>The in-place writers: \<open>Some i\<close> is the pointer \<open>WBuff + i\<close> stored through \<open>buf\<close>,
  \<open>None\<close> leaves \<open>*buf\<close> as it was.  \<open>putAt\<close> is the caller's store through that pointer.\<close>

definition getWriteBuf :: "nat \<Rightarrow> net \<Rightarrow> nat option io" where
  "getWriteBuf skip s =
     (if 102400 \<le> int (WBuffSize s) - int (writePointer s) then (Inr (Some (writePointer s + skip)), s)
      else (case flushWBuff s of
              (Inl e, s1) \<Rightarrow> (Inl e, s1)
            | (Inr ok, s1) \<Rightarrow> if ok then (Inr (Some (writePointer s1 + skip)), s1) else (Inr None, s1)))"

definition getWriteBufForHeaderPayload :: "net \<Rightarrow> nat option io" where
  "getWriteBufForHeaderPayload = getWriteBuf 4"

definition getWriteBufForPayload :: "net \<Rightarrow> nat option io" where
  "getWriteBufForPayload = getWriteBuf 0"

definition putAt :: "nat \<Rightarrow> bytes \<Rightarrow> net \<Rightarrow> bool io" where
  "putAt i bs s = (case mem_write (WBuff s) i bs of
                     None \<Rightarrow> (Inl OutOfBounds, s)
                   | Some d \<Rightarrow> (Inr True, s \<lparr> WBuff := d \<rparr>))"

definition finishWriteToBufNoFlush :: "nat \<Rightarrow> net \<Rightarrow> net" where
  "finishWriteToBufNoFlush writedLen s = s \<lparr> writePointer := writePointer s + writedLen \<rparr>"

definition finishWriteToBufFlush :: "nat \<Rightarrow> net \<Rightarrow> bool io" where
  "finishWriteToBufFlush writedLen s =
     (case flushWBuff (s \<lparr> writePointer := writePointer s + writedLen \<rparr>) of
        (Inl e, s1) \<Rightarrow> (Inl e, s1)
      | (Inr ok, s1) \<Rightarrow> if ok then (Inr True, s1) else (Inl ProcExit, s1))"

text \<open>The way the adapter sends a short packet: the payload is assembled in the write buffer,
  four bytes behind the write pointer, then the header is put in front of it.\<close>

definition sendInPlace :: "bool \<Rightarrow> bytes \<Rightarrow> net \<Rightarrow> bool io" where
  "sendInPlace flush payload s =
     (case getWriteBufForHeaderPayload s of
        (Inl e, s1) \<Rightarrow> (Inl e, s1)
      | (Inr None, s1) \<Rightarrow> (Inl OutOfBounds, s1)
      | (Inr (Some i), s1) \<Rightarrow>
          (case putAt i payload s1 of
             (Inl e, s2) \<Rightarrow> (Inl e, s2)
           | (Inr _, s2) \<Rightarrow>
               (case writePacketHeaderNoFlush (length payload) s2 of
                  (Inl e, s3) \<Rightarrow> (Inl e, s3)
                | (Inr _, s3) \<Rightarrow>
                    if flush then finishWriteToBufFlush (length payload) s3
                    else (Inr True, finishWriteToBufNoFlush (length payload) s3))))"

definition initNetTransceiver :: "rd_ev list \<Rightarrow> wr_ev list \<Rightarrow> net" where
  "initNetTransceiver rds wrs =
     \<lparr> netPacketSeqID = 0, WBuffSize = WBUFF_INITIAL_SIZE, WBuff = replicate WBUFF_INITIAL_SIZE NUL,
       writePointer = 0, sendStart = 0, ClientConnectionLost = False,
       rd_script = rds, wr_script = wrs, sent = [] \<rparr>"

section \<open>The wire\<close>

text \<open>
  What the peer will see: the bytes already accepted by the socket followed by the pending
  part of the buffer.  \<open>tx_step s bs r s'\<close> is the contract of every writer: the wire grows
  by \<open>bs\<close> when the writer succeeds, never shrinks below what was sent and never shows
  anything else when it fails, and it succeeds on a socket that neither closes nor fails.
\<close>

definition pending :: "net \<Rightarrow> bytes" where
  "pending s = bslice (sendStart s) (writePointer s - sendStart s) (WBuff s)"

definition wire :: "net \<Rightarrow> bytes" where
  "wire s = sent s @ pending s"

definition net_wf :: "net \<Rightarrow> bool" where
  "net_wf s \<longleftrightarrow> length (WBuff s) = WBuffSize s \<and> 0 < WBuffSize s
     \<and> sendStart s \<le> writePointer s \<and> writePointer s \<le> WBuffSize s"

definition wr_ok :: "net \<Rightarrow> bool" where
  "wr_ok s \<longleftrightarrow> list_all (\<lambda>e. e \<noteq> WZero \<and> e \<noteq> WErr) (wr_script s)"

definition tx_step :: "net \<Rightarrow> bytes \<Rightarrow> fault + bool \<Rightarrow> net \<Rightarrow> bool" where
  "tx_step s bs r s' \<longleftrightarrow> net_wf s' \<and> rd_script s' = rd_script s \<and> WBuffSize s' = WBuffSize s
     \<and> prefix (sent s) (sent s') \<and> prefix (sent s') (wire s @ bs)
     \<and> (r = Inr True \<longrightarrow> wire s' = wire s @ bs)
     \<and> (wr_ok s \<longrightarrow> r = Inr True \<and> wr_ok s')
     \<and> r \<noteq> Inl OutOfBounds \<and> r \<noteq> Inl Hang"

lemma tx_step_refl: "net_wf s \<Longrightarrow> tx_step s [] (Inr True) s"
  by (simp add: tx_step_def wire_def)

lemma tx_step_trans:
  assumes "tx_step s xs (Inr True) s1" "tx_step s1 ys r s2"
  shows "tx_step s (xs @ ys) r s2"
proof -
  from assms have "prefix (sent s) (sent s1)" "prefix (sent s1) (sent s2)" "wire s1 = wire s @ xs"
    by (auto simp: tx_step_def)
  with assms show ?thesis
    by (auto simp: tx_step_def intro: prefix_order.trans)
qed

lemma tx_step_fail:
  assumes "tx_step s xs r s1" "r \<noteq> Inr True" "r' \<noteq> Inr True" "r' \<noteq> Inl OutOfBounds" "r' \<noteq> Inl Hang"
  shows "tx_step s (xs @ ys) r' s1"
proof -
  from assms have "prefix (sent s1) (wire s @ xs)"
    by (simp add: tx_step_def)
  then have "prefix (sent s1) ((wire s @ xs) @ ys)"
    by (rule prefix_prefix)
  with assms show ?thesis by (auto simp: tx_step_def)
qed

lemma secure_write_cases:
  assumes "secure_write len es = (ret, es')" "0 < len"
  shows "(\<exists>n. ret = Put n \<and> 0 < n \<and> n \<le> len) \<or> ret = Put_EINTR \<or> ret = Put_0 \<or> ret = Put_error"
  using assms by (cases "(len, es)" rule: secure_write.cases) auto

lemma secure_write_script:
  "secure_write len es = (ret, es') \<Longrightarrow> list_all (\<lambda>e. e \<noteq> WZero \<and> e \<noteq> WErr) es \<Longrightarrow>
     list_all (\<lambda>e. e \<noteq> WZero \<and> e \<noteq> WErr) es' \<and> ret \<noteq> Put_0 \<and> ret \<noteq> Put_error"
  by (cases "(len, es)" rule: secure_write.cases) auto

lemma flushWBuff_done:
  "\<not> sendStart s < writePointer s \<Longrightarrow> flushWBuff s = (Inr True, s \<lparr> sendStart := 0, writePointer := 0 \<rparr>)"
  by (simp add: flushWBuff.simps [of s])

lemma wire_advance:
  "net_wf s \<Longrightarrow> n \<le> writePointer s - sendStart s \<Longrightarrow>
     wire (s \<lparr> sendStart := sendStart s + n, wr_script := es,
              sent := sent s @ bslice (sendStart s) n (WBuff s) \<rparr>) = wire s"
  by (simp add: wire_def pending_def bslice_split [symmetric] flip: diff_diff_left)

lemma pending_prefix:
  "n \<le> writePointer s - sendStart s \<Longrightarrow> prefix (bslice (sendStart s) n (WBuff s)) (pending s)"
  by (metis add_diff_inverse_nat bslice_split not_le pending_def prefixI)

lemma tx_step_flush: "net_wf s \<Longrightarrow> flushWBuff s = (r, s') \<Longrightarrow>
   tx_step s [] r s' \<and> writePointer s' - sendStart s' \<le> writePointer s
   \<and> netPacketSeqID s' = netPacketSeqID s
   \<and> ((\<exists>b. r = Inr b) \<longrightarrow> sendStart s' = 0 \<and> writePointer s' = 0)
   \<and> (r = Inr False \<longrightarrow> ClientConnectionLost s')"
proof (induction s arbitrary: r s' rule: flushWBuff.induct)
  case (1 s)
  show ?case
  proof (cases "sendStart s < writePointer s")
    case False
    with "1.prems" show ?thesis
      by (auto simp: flushWBuff_done tx_step_def net_wf_def wire_def pending_def bslice_def wr_ok_def)
  next
    case True
    obtain ret es where sw: "secure_write (writePointer s - sendStart s) (wr_script s) = (ret, es)"
      by (cases "secure_write (writePointer s - sendStart s) (wr_script s)") auto
    note ok = secure_write_script [OF sw]
    consider n where "ret = Put n" "0 < n" "n \<le> writePointer s - sendStart s"
      | "ret = Put_EINTR" | "ret = Put_0" | "ret = Put_error"
      using secure_write_cases [OF sw] True by auto
    then show ?thesis
    proof cases
      case (1 n)
      let ?s1 = "s \<lparr> sendStart := sendStart s + n, wr_script := es,
                    sent := sent s @ bslice (sendStart s) n (WBuff s) \<rparr>"
      have wf: "net_wf ?s1" and inb: "\<not> length (WBuff s) < sendStart s + n"
        using "1.prems"(1) 1 by (auto simp: net_wf_def)
      have fl: "flushWBuff ?s1 = (r, s')"
        using "1.prems"(2) True sw 1 inb by (simp add: flushWBuff.simps [of s])
      have "tx_step s [] (Inr True) ?s1"
        using wf ok wire_advance [OF "1.prems"(1) 1(3)] 1
        by (auto simp: tx_step_def wr_ok_def) (auto simp: wire_def pending_prefix)
      moreover note "1.IH"(1) [OF True sw [symmetric] 1(1) inb wf fl]
      ultimately show ?thesis
        using tx_step_trans [of s "[]" ?s1 "[]" r s'] by auto
    next
      case 2
      let ?s1 = "s \<lparr> wr_script := es \<rparr>"
      have wf: "net_wf ?s1" and fl: "flushWBuff ?s1 = (r, s')"
        using "1.prems" True sw 2 by (auto simp: flushWBuff.simps [of s] net_wf_def)
      have "tx_step s [] (Inr True) ?s1"
        using wf ok by (auto simp: tx_step_def wire_def pending_def wr_ok_def)
      with "1.IH"(2) [OF True sw [symmetric] 2 wf fl] show ?thesis
        using tx_step_trans [of s "[]" ?s1 "[]" r s'] by auto
    qed (use "1.prems" True sw ok in
          \<open>auto simp: flushWBuff.simps [of s] tx_step_def net_wf_def wire_def pending_def wr_ok_def\<close>)
  qed
qed

lemma writeBytes_Nil [simp]: "writeBytes [] s = (Inr True, s)"
  by (simp add: writeBytes.simps)

lemma wire_append:
  assumes "net_wf s" "writePointer s + length bs \<le> WBuffSize s"
  shows "wire (s \<lparr> WBuff := overwrite (WBuff s) (writePointer s) bs,
                  writePointer := writePointer s + length bs \<rparr>) = wire s @ bs"
proof -
  have "bslice (sendStart s) (writePointer s - sendStart s + length bs)
          (overwrite (WBuff s) (writePointer s) bs)
        = bslice (sendStart s) (writePointer s - sendStart s) (overwrite (WBuff s) (writePointer s) bs) @ bs"
    using assms by (subst bslice_split) (simp add: net_wf_def buf_simps)
  moreover have "bslice (sendStart s) (writePointer s - sendStart s) (overwrite (WBuff s) (writePointer s) bs)
      = bslice (sendStart s) (writePointer s - sendStart s) (WBuff s)"
    using assms by (simp add: net_wf_def buf_simps)
  moreover have "writePointer s + length bs - sendStart s = writePointer s - sendStart s + length bs"
    using assms by (simp add: net_wf_def)
  ultimately show ?thesis by (simp add: wire_def pending_def)
qed

lemma tx_step_store:
  assumes "net_wf s" "writePointer s + length bs \<le> WBuffSize s"
  shows "tx_step s bs (Inr True) (s \<lparr> WBuff := overwrite (WBuff s) (writePointer s) bs,
                  writePointer := writePointer s + length bs \<rparr>)"
  using assms wire_append [OF assms]
  by (auto simp: tx_step_def net_wf_def wr_ok_def) (simp add: wire_def)

lemma writeBytes_step:
  assumes "buff \<noteq> []" "net_wf s"
    and "(if writePointer s \<ge> WBuffSize s then flushWBuff s else (Inr True, s)) = (Inr True, s1)"
  defines "amount \<equiv> min (WBuffSize s1 - writePointer s1) (length buff)"
  shows "0 < amount" "tx_step s [] (Inr True) s1" "netPacketSeqID s1 = netPacketSeqID s"
    "writeBytes buff s = writeBytes (drop amount buff)
       (s1 \<lparr> WBuff := overwrite (WBuff s1) (writePointer s1) (take amount buff),
            writePointer := writePointer s1 + length (take amount buff) \<rparr>)"
    "writePointer s1 + length (take amount buff) \<le> WBuffSize s1"
proof -
  have st: "tx_step s [] (Inr True) s1 \<and> netPacketSeqID s1 = netPacketSeqID s \<and> writePointer s1 < WBuffSize s1"
    using assms(2,3) tx_step_flush [OF assms(2), of "Inr True" s1] tx_step_refl [OF assms(2)]
    by (auto simp: tx_step_def net_wf_def split: if_splits)
  then show "tx_step s [] (Inr True) s1" "netPacketSeqID s1 = netPacketSeqID s" "0 < amount"
    using assms(1) by (auto simp: amount_def)
  show le: "writePointer s1 + length (take amount buff) \<le> WBuffSize s1"
    using st by (auto simp: amount_def min_def)
  then have "mem_write (WBuff s1) (writePointer s1) (take amount buff)
               = Some (overwrite (WBuff s1) (writePointer s1) (take amount buff))"
    using st by (auto simp: mem_write_def tx_step_def net_wf_def)
  moreover have "length (take amount buff) = amount"
    by (simp add: amount_def)
  ultimately show "writeBytes buff s = writeBytes (drop amount buff)
       (s1 \<lparr> WBuff := overwrite (WBuff s1) (writePointer s1) (take amount buff),
            writePointer := writePointer s1 + length (take amount buff) \<rparr>)"
    using assms(1,3) \<open>0 < amount\<close>
    by (subst writeBytes.simps) (simp add: Let_def flip: amount_def)
qed

lemma tx_step_writeBytes:
  "net_wf s \<Longrightarrow> writeBytes bs s = (r, s') \<Longrightarrow> tx_step s bs r s' \<and> netPacketSeqID s' = netPacketSeqID s"
proof (induction "length bs" arbitrary: bs s rule: less_induct)
  case less
  show ?case
  proof (cases "bs = []")
    case True
    with less.prems show ?thesis by (auto simp: tx_step_refl)
  next
    case False
    obtain r1 s1 where fl: "(if writePointer s \<ge> WBuffSize s then flushWBuff s else (Inr True, s)) = (r1, s1)"
      by (cases "if writePointer s \<ge> WBuffSize s then flushWBuff s else (Inr True, s)") auto
    show ?thesis
    proof (cases "r1 = Inr True")
      case True
      note st = writeBytes_step [OF False less.prems(1) fl [unfolded True]]
      let ?a = "min (WBuffSize s1 - writePointer s1) (length bs)"
      let ?s2 = "s1 \<lparr> WBuff := overwrite (WBuff s1) (writePointer s1) (take ?a bs),
            writePointer := writePointer s1 + length (take ?a bs) \<rparr>"
      have s2: "tx_step s1 (take ?a bs) (Inr True) ?s2"
        using st(2,5) by (intro tx_step_store) (auto simp: tx_step_def)
      have "tx_step ?s2 (drop ?a bs) r s' \<and> netPacketSeqID s' = netPacketSeqID ?s2"
        using s2 less.prems(2) st(1,4) False by (intro less.hyps) (auto simp: tx_step_def)
      then show ?thesis
        using tx_step_trans [OF st(2) tx_step_trans [OF s2]] st(3) by fastforce
    next
      case False': False
      have "flushWBuff s = (r1, s1)"
        using fl False' by (auto split: if_splits)
      with tx_step_flush [OF less.prems(1) this] have "tx_step s [] r1 s1" "netPacketSeqID s1 = netPacketSeqID s"
        by auto
      moreover have "r = r1" "s' = s1"
        using less.prems(2) False fl False' by (auto simp: writeBytes.simps [of bs s] split: sum.splits)
      ultimately show ?thesis
        using tx_step_fail [of s "[]" r1 s1 r1 bs] False' by (auto simp: tx_step_def)
    qed
  qed
qed

section \<open>Framing\<close>

text \<open>The reference for what a payload looks like on the wire.\<close>

definition next_seq :: "int \<Rightarrow> int" where
  "next_seq q = (if q < 255 then q + 1 else 0)"

definition header :: "nat \<Rightarrow> int \<Rightarrow> bytes" where
  "header n q = le_enc 3 n @ le_enc_int 1 q"

function frames :: "int \<Rightarrow> bytes \<Rightarrow> bytes" where
  "frames q p =
     (if SINGLE_PACKET_MAX_PAYLOAD_LENGTH \<le> length p
      then header SINGLE_PACKET_MAX_PAYLOAD_LENGTH q @ take SINGLE_PACKET_MAX_PAYLOAD_LENGTH p
           @ frames (next_seq q) (drop SINGLE_PACKET_MAX_PAYLOAD_LENGTH p)
      else header (length p) q @ p)"
  by pat_completeness auto
termination
  by (relation "measure (\<lambda>(_, p). length p)") (auto simp: SINGLE_PACKET_MAX_PAYLOAD_LENGTH_def)

function seq_after :: "int \<Rightarrow> nat \<Rightarrow> int" where
  "seq_after q n = (if SINGLE_PACKET_MAX_PAYLOAD_LENGTH \<le> n
     then seq_after (next_seq q) (n - SINGLE_PACKET_MAX_PAYLOAD_LENGTH) else next_seq q)"
  by pat_completeness auto
termination
  by (relation "measure (\<lambda>(_, n). n)") (auto simp: SINGLE_PACKET_MAX_PAYLOAD_LENGTH_def)

declare frames.simps [simp del] seq_after.simps [simp del]

lemma length_header [simp]: "length (header n q) = 4"
  by (simp add: header_def)

lemma writePacketHeaderNoFlush_alt:
  "writePacketHeaderNoFlush n s =
     (case writeBytes (header n (netPacketSeqID s)) (s \<lparr> netPacketSeqID := next_seq (netPacketSeqID s) \<rparr>) of
        (Inl e, s2) \<Rightarrow> (Inl e, s2)
      | (Inr ok, s2) \<Rightarrow> if ok then (Inr True, s2) else (Inl ClientDisconnectWrite, s2))"
  unfolding writePacketHeaderNoFlush_def header_def next_seq_def Let_def ..

lemma tx_step_header:
  assumes "net_wf s" "writePacketHeaderNoFlush n s = (r, s')"
  shows "tx_step s (header n (netPacketSeqID s)) r s' \<and> netPacketSeqID s' = next_seq (netPacketSeqID s)
         \<and> r \<noteq> Inr False"
proof -
  let ?s1 = "s \<lparr> netPacketSeqID := next_seq (netPacketSeqID s) \<rparr>"
  obtain r1 s2 where w: "writeBytes (header n (netPacketSeqID s)) ?s1 = (r1, s2)"
    by (cases "writeBytes (header n (netPacketSeqID s)) ?s1") auto
  have "tx_step ?s1 (header n (netPacketSeqID s)) r1 s2 \<and> netPacketSeqID s2 = netPacketSeqID ?s1"
    using assms(1) w by (intro tx_step_writeBytes) (auto simp: net_wf_def)
  then have "tx_step s (header n (netPacketSeqID s)) r1 s2" "netPacketSeqID s2 = next_seq (netPacketSeqID s)"
    by (auto simp: tx_step_def wire_def pending_def wr_ok_def)
  then show ?thesis
    using assms(2) w tx_step_fail [of s "header n (netPacketSeqID s)" r1 s2 "Inl ClientDisconnectWrite" "[]"]
    by (auto simp: writePacketHeaderNoFlush_alt split: sum.splits if_splits)
qed

lemma tx_step_payload:
  assumes "net_wf s" "writePacketPayloadNoFlush p s = (r, s')"
  shows "tx_step s p r s' \<and> netPacketSeqID s' = netPacketSeqID s \<and> r \<noteq> Inr False"
proof -
  obtain r1 s1 where w: "writeBytes p s = (r1, s1)"
    by (cases "writeBytes p s") auto
  then have "tx_step s p r1 s1 \<and> netPacketSeqID s1 = netPacketSeqID s"
    using assms(1) by (intro tx_step_writeBytes)
  then show ?thesis
    using assms(2) w tx_step_fail [of s p r1 s1 "Inl ClientDisconnectWrite" "[]"]
    by (auto simp: writePacketPayloadNoFlush_def split: sum.splits if_splits)
qed

text \<open>A header followed by its payload.\<close>

lemma tx_step_header_payload:
  assumes "net_wf s" "writePacketHeaderNoFlush n s = (r, s1)"
  shows "r = Inr True \<Longrightarrow> writePacketPayloadNoFlush p s1 = (r2, s2) \<Longrightarrow>
           tx_step s (header n (netPacketSeqID s) @ p) r2 s2 \<and> netPacketSeqID s2 = next_seq (netPacketSeqID s)
           \<and> r2 \<noteq> Inr False"
    and "r \<noteq> Inr True \<Longrightarrow> tx_step s (header n (netPacketSeqID s) @ p) r s1"
proof -
  note h = tx_step_header [OF assms]
  show "r = Inr True \<Longrightarrow> writePacketPayloadNoFlush p s1 = (r2, s2) \<Longrightarrow>
           tx_step s (header n (netPacketSeqID s) @ p) r2 s2 \<and> netPacketSeqID s2 = next_seq (netPacketSeqID s)
           \<and> r2 \<noteq> Inr False"
    using h tx_step_payload [of s1 p r2 s2] tx_step_trans [of s _ s1 p r2 s2] by (auto simp: tx_step_def)
  show "r \<noteq> Inr True \<Longrightarrow> tx_step s (header n (netPacketSeqID s) @ p) r s1"
    using h tx_step_fail [of s _ r s1 r p] by (auto simp: tx_step_def)
qed

lemma tx_step_packet:
  "net_wf s \<Longrightarrow> writePacketHeaderPayloadNoFlush p s = (r, s') \<Longrightarrow>
     tx_step s (frames (netPacketSeqID s) p) r s'
     \<and> (r = Inr True \<longrightarrow> netPacketSeqID s' = seq_after (netPacketSeqID s) (length p)) \<and> r \<noteq> Inr False"
proof (induction "length p" arbitrary: p s rule: less_induct)
  case less
  let ?M = SINGLE_PACKET_MAX_PAYLOAD_LENGTH
  define q where "q = netPacketSeqID s"
  show ?case
  proof (cases "?M \<le> length p")
    case False
    obtain r1 s1 where h: "writePacketHeaderNoFlush (length p) s = (r1, s1)"
      by (cases "writePacketHeaderNoFlush (length p) s") auto
    note hp = tx_step_header_payload [OF less.prems(1) h, folded q_def]
    show ?thesis
      using hp(1) [of p r s'] hp(2) [of p] less.prems(2) h False tx_step_header [OF less.prems(1) h]
      by (auto simp: writePacketHeaderPayloadNoFlush.simps [of p s] frames.simps [of _ p] q_def
            seq_after.simps [of _ "length p"] split: sum.splits if_splits)
  next
    case True
    obtain r1 s1 where h: "writePacketHeaderNoFlush ?M s = (r1, s1)"
      by (cases "writePacketHeaderNoFlush ?M s") auto
    obtain r2 s2 where w: "writePacketPayloadNoFlush (take ?M p) s1 = (r2, s2)"
      by (cases "writePacketPayloadNoFlush (take ?M p) s1") auto
    note hp = tx_step_header_payload [OF less.prems(1) h, folded q_def]
    let ?hd = "header ?M q @ take ?M p" and ?rest = "frames (next_seq q) (drop ?M p)"
    have fr: "frames q p = ?hd @ ?rest" "seq_after q (length p) = seq_after (next_seq q) (length p - ?M)"
      using True by (simp_all add: frames.simps [of q p] seq_after.simps [of q "length p"])
    consider "r1 \<noteq> Inr True" | "r1 = Inr True" "r2 \<noteq> Inr True" | "r1 = Inr True" "r2 = Inr True"
      by blast
    then show ?thesis
    proof cases
      case 1
      then have "r = r1" "s' = s1" "r1 \<noteq> Inr False"
        using less.prems(2) True h tx_step_header [OF less.prems(1) h]
        by (auto simp: writePacketHeaderPayloadNoFlush.simps [of p s] split: sum.splits if_splits)
      with 1 hp(2) [of "take ?M p"] show ?thesis
        using tx_step_fail [of s ?hd r1 s1 r1 ?rest] by (auto simp: q_def [symmetric] fr tx_step_def)
    next
      case 2
      note t = hp(1) [OF 2(1) w]
      with 2 have "r = r2" "s' = s2"
        using less.prems(2) True h w
        by (auto simp: writePacketHeaderPayloadNoFlush.simps [of p s] split: sum.splits if_splits)
      with 2 t show ?thesis
        using tx_step_fail [of s ?hd r2 s2 r2 ?rest] by (auto simp: q_def [symmetric] fr tx_step_def)
    next
      case 3
      note t = hp(1) [OF 3(1) w]
      have "writePacketHeaderPayloadNoFlush (drop ?M p) s2 = (r, s')"
        using less.prems(2) True h w 3 by (simp add: writePacketHeaderPayloadNoFlush.simps [of p s])
      with t 3 less.hyps [of "drop ?M p" s2] True have
        "tx_step s2 ?rest r s' \<and> (r = Inr True \<longrightarrow> netPacketSeqID s' = seq_after (next_seq q) (length p - ?M))
         \<and> r \<noteq> Inr False"
        by (auto simp: tx_step_def SINGLE_PACKET_MAX_PAYLOAD_LENGTH_def)
      then show ?thesis
        using tx_step_trans [of s ?hd s2 ?rest r s'] t 3 by (auto simp: q_def [symmetric] fr)
    qed
  qed
qed

lemma tx_step_packet_flush:
  assumes "net_wf s" "writePacketHeaderPayloadFlush p s = (r, s')"
  shows "tx_step s (frames (netPacketSeqID s) p) r s'
     \<and> (r = Inr True \<longrightarrow> netPacketSeqID s' = seq_after (netPacketSeqID s) (length p) \<and> sent s' = wire s')
     \<and> r \<noteq> Inr False"
proof -
  let ?f = "frames (netPacketSeqID s) p"
  obtain r1 s1 where w: "writePacketHeaderPayloadNoFlush p s = (r1, s1)"
    by (cases "writePacketHeaderPayloadNoFlush p s") auto
  note t = tx_step_packet [OF assms(1) w]
  show ?thesis
  proof (cases "r1 = Inr True")
    case False
    with assms(2) w t have "r = r1" "s' = s1"
      by (auto simp: writePacketHeaderPayloadFlush_def split: sum.splits if_splits)
    with t False show ?thesis by auto
  next
    case True
    obtain r2 s2 where f: "flushWBuff s1 = (r2, s2)"
      by (cases "flushWBuff s1") auto
    have t2: "tx_step s1 [] r2 s2" "netPacketSeqID s2 = netPacketSeqID s1"
        "(\<exists>b. r2 = Inr b) \<longrightarrow> sendStart s2 = 0 \<and> writePointer s2 = 0"
      using tx_step_flush [of s1 r2 s2] t f by (auto simp: tx_step_def)
    have t3: "tx_step s ?f r2 s2"
      using tx_step_trans [of s ?f s1 "[]" r2 s2] t True t2 by auto
    then have t4: "tx_step s ?f (Inl ClientDisconnectWrite) s2" if "r2 = Inr False"
      using tx_step_fail [of s ?f r2 s2 "Inl ClientDisconnectWrite" "[]"] that by auto
    have "sent s2 = wire s2" if "r2 = Inr True"
      using t2 that by (auto simp: wire_def pending_def bslice_def)
    then show ?thesis
      using assms(2) w True f t t2 t3 t4
      by (auto simp: writePacketHeaderPayloadFlush_def split: sum.splits if_splits)
  qed
qed

section \<open>Packet sinks\<close>

text \<open>
  What the adapter relies on when it answers a command with several packets: each one is
  appended to the wire, framed with consecutive sequence numbers.  Both packet writers of
  the transceiver provide it.
\<close>

fun send_all :: "(bytes \<Rightarrow> 's \<Rightarrow> ('f + bool) \<times> 's) \<Rightarrow> bytes list \<Rightarrow> 's \<Rightarrow> ('f + bool) \<times> 's" where
  "send_all send [] s = (Inr True, s)"
| "send_all send (p # ps) s =
     (case send p s of
        (Inl e, s1) \<Rightarrow> (Inl e, s1)
      | (Inr ok, s1) \<Rightarrow> if ok then send_all send ps s1 else (Inr False, s1))"

fun frames_all :: "int \<Rightarrow> bytes list \<Rightarrow> bytes" where
  "frames_all q [] = []"
| "frames_all q (p # ps) = frames q p @ frames_all (seq_after q (length p)) ps"

fun seq_all :: "int \<Rightarrow> bytes list \<Rightarrow> int" where
  "seq_all q [] = q"
| "seq_all q (p # ps) = seq_all (seq_after q (length p)) ps"

lemma frames_all_append: "frames_all q (ps @ qs) = frames_all q ps @ frames_all (seq_all q ps) qs"
  by (induction ps arbitrary: q) auto

lemma seq_all_append: "seq_all q (ps @ qs) = seq_all (seq_all q ps) qs"
  by (induction ps arbitrary: q) auto

locale packet_sink =
  fixes send :: "bytes \<Rightarrow> 's \<Rightarrow> ('f + bool) \<times> 's"
    and ready :: "'s \<Rightarrow> bool"
    and fits :: "bytes \<Rightarrow> bool"
    and out :: "'s \<Rightarrow> bytes"
    and seq :: "'s \<Rightarrow> int"
  assumes send_ok: "ready s \<Longrightarrow> fits p \<Longrightarrow>
     \<exists>s'. send p s = (Inr True, s') \<and> ready s' \<and> out s' = out s @ frames (seq s) p
          \<and> seq s' = seq_after (seq s) (length p)"
begin

lemma send_all_delivers:
  "ready s \<Longrightarrow> list_all fits ps \<Longrightarrow>
     \<exists>s'. send_all send ps s = (Inr True, s') \<and> ready s' \<and> out s' = out s @ frames_all (seq s) ps
          \<and> seq s' = seq_all (seq s) ps"
proof (induction ps arbitrary: s)
  case (Cons p ps)
  then obtain s1 where s1: "send p s = (Inr True, s1)" "ready s1" "out s1 = out s @ frames (seq s) p"
      "seq s1 = seq_after (seq s) (length p)"
    using send_ok [of s p] by auto
  with Cons.IH [of s1] Cons.prems show ?case by auto
qed simp

lemma send_all_append:
  "ready s \<Longrightarrow> list_all fits ps \<Longrightarrow> list_all fits qs \<Longrightarrow>
     send_all send (ps @ qs) s = send_all send qs (snd (send_all send ps s))"
proof (induction ps arbitrary: s)
  case (Cons p ps)
  with send_ok [of s p] show ?case by auto
qed simp

end

definition tx_ready :: "net \<Rightarrow> bool" where
  "tx_ready s \<longleftrightarrow> net_wf s \<and> wr_ok s \<and> 102400 \<le> WBuffSize s"

definition any_payload :: "bytes \<Rightarrow> bool" where "any_payload p = True"
definition short_payload :: "bytes \<Rightarrow> bool" where "short_payload p \<longleftrightarrow> length p \<le> 102396"

lemma packet_ok:
  "tx_ready s \<Longrightarrow> \<exists>s'. writePacketHeaderPayloadNoFlush p s = (Inr True, s') \<and> tx_ready s'
     \<and> wire s' = wire s @ frames (netPacketSeqID s) p \<and> netPacketSeqID s' = seq_after (netPacketSeqID s) (length p)"
  using tx_step_packet [of s p] by (cases "writePacketHeaderPayloadNoFlush p s") (auto simp: tx_step_def tx_ready_def)

lemma packet_flush_ok:
  "tx_ready s \<Longrightarrow> \<exists>s'. writePacketHeaderPayloadFlush p s = (Inr True, s') \<and> tx_ready s'
     \<and> wire s' = wire s @ frames (netPacketSeqID s) p \<and> netPacketSeqID s' = seq_after (netPacketSeqID s) (length p)"
  using tx_step_packet_flush [of s p] by (cases "writePacketHeaderPayloadFlush p s") (auto simp: tx_step_def tx_ready_def)

interpretation noflush: packet_sink writePacketHeaderPayloadNoFlush tx_ready any_payload wire netPacketSeqID
  by unfold_locales (rule packet_ok)

interpretation flush: packet_sink writePacketHeaderPayloadFlush tx_ready any_payload wire netPacketSeqID
  by unfold_locales (rule packet_flush_ok)

text \<open>Assembling in place: storing behind the write pointer does not touch the wire, the header
  fits in front, and moving the write pointer publishes both.\<close>

lemma flush_ok:
  assumes "net_wf s" "wr_ok s"
  shows "\<exists>s'. flushWBuff s = (Inr True, s') \<and> net_wf s' \<and> wr_ok s' \<and> sent s' = wire s \<and> wire s' = wire s
           \<and> writePointer s' = 0 \<and> sendStart s' = 0 \<and> WBuffSize s' = WBuffSize s \<and> rd_script s' = rd_script s
           \<and> netPacketSeqID s' = netPacketSeqID s"
proof -
  obtain r s' where f: "flushWBuff s = (r, s')" by (cases "flushWBuff s")
  from tx_step_flush [OF assms(1) f] assms(2) have
    t: "tx_step s [] (Inr True) s'" "r = Inr True" "sendStart s' = 0" "writePointer s' = 0"
       "netPacketSeqID s' = netPacketSeqID s"
    by (auto simp: tx_step_def)
  moreover from t have "sent s' = wire s'" by (simp add: wire_def pending_def bslice_def)
  ultimately show ?thesis using f assms(2) by (auto simp: tx_step_def)
qed

lemma getWriteBuf_ok:
  assumes "tx_ready s"
  shows "\<exists>s'. getWriteBuf k s = (Inr (Some (writePointer s' + k)), s') \<and> tx_ready s' \<and> wire s' = wire s
           \<and> netPacketSeqID s' = netPacketSeqID s \<and> writePointer s' + 102400 \<le> WBuffSize s'"
proof (cases "102400 \<le> int (WBuffSize s) - int (writePointer s)")
  case True
  with assms show ?thesis by (auto simp: getWriteBuf_def)
next
  case False
  obtain s' where "flushWBuff s = (Inr True, s')" "net_wf s'" "wr_ok s'" "wire s' = wire s" "writePointer s' = 0"
      "WBuffSize s' = WBuffSize s" "netPacketSeqID s' = netPacketSeqID s"
    using flush_ok [of s] assms by (auto simp: tx_ready_def)
  with False assms show ?thesis by (auto simp: getWriteBuf_def tx_ready_def)
qed

lemma writeBytes_fits:
  assumes "net_wf s" "writePointer s + length bs < WBuffSize s"
  shows "writeBytes bs s = (Inr True, s \<lparr> WBuff := overwrite (WBuff s) (writePointer s) bs,
                                        writePointer := writePointer s + length bs \<rparr>)"
proof (cases "bs = []")
  case True
  with assms show ?thesis by (simp add: net_wf_def)
next
  case False
  with writeBytes_step [OF False assms(1), of s] assms show ?thesis by (simp add: min_def)
qed

lemma sendInPlace_ok:
  assumes "tx_ready s" "short_payload p"
  shows "\<exists>s'. sendInPlace fl p s = (Inr True, s') \<and> tx_ready s' \<and> wire s' = wire s @ frames (netPacketSeqID s) p
          \<and> netPacketSeqID s' = seq_after (netPacketSeqID s) (length p) \<and> (fl \<longrightarrow> sent s' = wire s')"
proof -
  obtain s1 where g: "getWriteBufForHeaderPayload s = (Inr (Some (writePointer s1 + 4)), s1)" "tx_ready s1"
      "wire s1 = wire s" "netPacketSeqID s1 = netPacketSeqID s" "writePointer s1 + 102400 \<le> WBuffSize s1"
    using getWriteBuf_ok [OF assms(1), of 4] by (auto simp: getWriteBufForHeaderPayload_def)
  let ?w = "writePointer s1" and ?h = "header (length p) (netPacketSeqID s)"
  have sz: "length (WBuff s1) = WBuffSize s1" "?w + 4 + length p \<le> WBuffSize s1" "?w + 4 < WBuffSize s1"
      "length p < SINGLE_PACKET_MAX_PAYLOAD_LENGTH"
    using g(2,5) assms(2) by (auto simp: tx_ready_def net_wf_def short_payload_def SINGLE_PACKET_MAX_PAYLOAD_LENGTH_def)
  define d where "d = overwrite (WBuff s1) (?w + 4) p"
  have ld: "length d = WBuffSize s1" using sz by (simp add: d_def)
  have dd: "overwrite d ?w ?h = overwrite (WBuff s1) ?w (?h @ p)"
    using sz by (simp add: d_def overwrite_def min_def add.assoc)
  let ?s2 = "s1 \<lparr> WBuff := d \<rparr>"
  let ?s3 = "?s2 \<lparr> netPacketSeqID := next_seq (netPacketSeqID s), WBuff := overwrite d ?w ?h, writePointer := ?w + 4 \<rparr>"
  have p: "putAt (?w + 4) p s1 = (Inr True, ?s2)"
    using sz by (simp add: putAt_def mem_write_def d_def)
  have h: "writePacketHeaderNoFlush (length p) ?s2 = (Inr True, ?s3)"
    using writeBytes_fits [of "?s2 \<lparr> netPacketSeqID := next_seq (netPacketSeqID s) \<rparr>" ?h] sz ld g(2,4)
    by (simp add: writePacketHeaderNoFlush_alt tx_ready_def net_wf_def)
  let ?s4 = "?s3 \<lparr> writePointer := ?w + 4 + length p \<rparr>"
  have s4: "tx_step s1 (?h @ p) (Inr True) ?s4"
    using tx_step_store [of s1 "?h @ p"] g(2) sz
    by (auto simp: dd tx_ready_def tx_step_def net_wf_def wr_ok_def wire_def pending_def add.assoc)
  have fr: "frames (netPacketSeqID s) p = ?h @ p" "seq_after (netPacketSeqID s) (length p) = next_seq (netPacketSeqID s)"
    using sz by (simp_all add: frames.simps [of _ p] seq_after.simps [of _ "length p"])
  have r4: "tx_ready ?s4" "wire ?s4 = wire s @ ?h @ p"
    using s4 g by (auto simp: tx_step_def tx_ready_def)
  have fin: "\<exists>s'. finishWriteToBufFlush (length p) ?s3 = (Inr True, s') \<and> tx_ready s' \<and> wire s' = wire ?s4
      \<and> sent s' = wire s' \<and> netPacketSeqID s' = next_seq (netPacketSeqID s)"
    using flush_ok [of ?s4] r4 by (auto simp: finishWriteToBufFlush_def tx_ready_def)
  show ?thesis
    using g(1) p h r4 fin by (auto simp: sendInPlace_def fr finishWriteToBufNoFlush_def)
qed

interpretation inplace: packet_sink "sendInPlace fl" tx_ready short_payload wire netPacketSeqID
  using sendInPlace_ok [of _ _ fl] by unfold_locales blast

section \<open>Reading what was framed\<close>

definition si_wf :: "StringInfo \<Rightarrow> bool" where
  "si_wf b \<longleftrightarrow> length (si_data b) = si_maxlen b \<and> 0 < si_maxlen b \<and> si_maxlen b \<le> MaxAllocSize
     \<and> si_offset b + si_len b \<le> si_maxlen b"

definition content :: "StringInfo \<Rightarrow> bytes" where
  "content b = bslice (si_offset b) (si_len b) (si_data b)"

text \<open>\<open>grown m m'\<close>: a buffer of \<open>m\<close> bytes can have \<open>m'\<close> after some enlargements.\<close>

definition grown :: "nat \<Rightarrow> nat \<Rightarrow> bool" where
  "grown m m' \<longleftrightarrow> m' = MaxAllocSize \<or> (\<exists>k. m' = m * 2 ^ k)"

lemma grown_refl: "grown m m"
  by (auto simp: grown_def intro: exI [of _ 0])

lemma grown_trans: "grown a b \<Longrightarrow> grown b c \<Longrightarrow> b \<noteq> MaxAllocSize \<or> b = c \<Longrightarrow> grown a c"
  by (auto simp: grown_def power_add [symmetric] mult.assoc)

lemma double_until_Some:
  "0 < newlen \<Longrightarrow> \<exists>m k. double_until needed newlen = Some m \<and> needed \<le> m \<and> newlen \<le> m \<and> m = newlen * 2 ^ k"
proof (induction needed newlen rule: double_until.induct)
  case (1 needed newlen)
  show ?case
  proof (cases "needed \<le> newlen")
    case True
    then show ?thesis
      by (auto simp: double_until.simps [of needed newlen] intro: exI [of _ 0])
  next
    case False
    with 1 obtain m k where "double_until needed (2 * newlen) = Some m" "needed \<le> m" "2 * newlen \<le> m"
        "m = 2 * newlen * 2 ^ k"
      by auto
    with False 1(2) show ?thesis
      by (auto simp: double_until.simps [of needed newlen] intro: exI [of _ "Suc k"])
  qed
qed

text \<open>\<open>received b p b'\<close>: the buffer \<open>b'\<close> is \<open>b\<close> with the payload bytes \<open>p\<close> added.\<close>

definition received :: "StringInfo \<Rightarrow> bytes \<Rightarrow> StringInfo \<Rightarrow> bool" where
  "received b p b' \<longleftrightarrow> si_wf b' \<and> content b' = content b @ p
     \<and> si_len b' = si_len b + length p \<and> si_offset b' = si_offset b
     \<and> grown (si_maxlen b) (si_maxlen b') \<and> (si_maxlen b = MaxAllocSize \<longrightarrow> si_maxlen b' = MaxAllocSize)"

lemma received_trans: "received a p b \<Longrightarrow> received b q c \<Longrightarrow> received a (p @ q) c"
  by (auto simp: received_def intro: grown_trans)

lemma enlargeStringInfo_ok:
  assumes "si_wf b" "n + si_len b < MaxAllocSize"
  shows "\<exists>b'. enlargeStringInfo b (int n) = Inr b' \<and> si_wf b' \<and> content b' = content b
           \<and> n + si_len b < si_maxlen b' \<and> si_len b' = si_len b \<and> si_offset b' = si_offset b
           \<and> grown (si_maxlen b) (si_maxlen b') \<and> (si_maxlen b = MaxAllocSize \<longrightarrow> si_maxlen b' = MaxAllocSize)"
proof (cases "n + si_len b + 1 \<le> si_maxlen b")
  case True
  with assms show ?thesis
    by (auto simp: enlargeStringInfo_def grown_refl)
next
  case False
  define m' where "m' = n + si_len b + 1"
  obtain m k where m: "double_until m' (2 * si_maxlen b) = Some m" "m' \<le> m" "2 * si_maxlen b \<le> m"
      "m = si_maxlen b * 2 ^ Suc k"
    using double_until_Some [of "2 * si_maxlen b" m'] assms by (auto simp: si_wf_def)
  let ?l = "if m > MaxAllocSize then MaxAllocSize else m"
  let ?b = "b \<lparr> si_data := si_data b @ replicate (?l - length (si_data b)) NUL, si_maxlen := ?l \<rparr>"
  have l: "m' \<le> ?l" "si_maxlen b \<le> ?l" "?l \<le> MaxAllocSize" "grown (si_maxlen b) ?l"
    using assms m by (auto simp: m'_def si_wf_def grown_def) (metis power_Suc)
  have "enlargeStringInfo b (int n) = Inr ?b"
    using False assms m(1) by (auto simp: enlargeStringInfo_def m'_def Let_def)
  moreover have "content ?b = content b"
    using assms by (auto simp: content_def bslice_def si_wf_def)
  moreover have "si_wf ?b" "n + si_len b < ?l"
    using assms l by (auto simp: si_wf_def m'_def)
  ultimately show ?thesis
    using l by (intro exI [of _ ?b]) (auto simp: m'_def)
qed

lemma readPacketPayload_ok:
  assumes "si_wf b" "stream (rd_script s) = p @ rest" "length p + si_offset b + si_len b < MaxAllocSize"
  shows "\<exists>b' es. readPacketPayload b (length p) s = (Inr (True, b'), s \<lparr> rd_script := es \<rparr>)
           \<and> stream es = rest \<and> received b p b'"
proof -
  let ?big = "int (length p) > int (si_maxlen b) - int (si_offset b) - int (si_len b)"
  obtain b1 where b1: "(if ?big then enlargeStringInfo b (int (length p) + int (si_offset b)) else Inr b) = Inr b1"
      "si_wf b1" "content b1 = content b" "si_offset b + si_len b + length p \<le> si_maxlen b1"
      "si_len b1 = si_len b" "si_offset b1 = si_offset b" "grown (si_maxlen b) (si_maxlen b1)"
      "si_maxlen b = MaxAllocSize \<longrightarrow> si_maxlen b1 = MaxAllocSize"
  proof (cases ?big)
    case True
    with enlargeStringInfo_ok [of b "length p + si_offset b"] assms that show ?thesis by force
  next
    case False
    with that [of b] assms show ?thesis by (auto simp: grown_refl)
  qed
  obtain bs ok es where rd: "readBytes (length p) (rd_script s) = (bs, ok, es)"
    by (cases "readBytes (length p) (rd_script s)") auto
  have e: "bs = p" "ok" "stream es = rest"
    using readBytes_ok [OF rd] assms(2) by auto
  let ?d = "overwrite (si_data b1) (si_offset b1 + si_len b1) p"
  let ?b = "b1 \<lparr> si_data := ?d, si_len := si_len b1 + length p \<rparr>"
  have fits: "si_offset b1 + si_len b1 + length p \<le> length (si_data b1)"
    using b1 by (simp add: si_wf_def)
  then have "readPacketPayload b (length p) s = (Inr (True, ?b), s \<lparr> rd_script := es \<rparr>)"
    using rd e by (simp add: readPacketPayload_def b1(1) mem_write_def)
  moreover have "content ?b = content b @ p"
  proof -
    have "content ?b = bslice (si_offset b1) (si_len b1) ?d @ p"
      using fits by (simp add: content_def bslice_split buf_simps)
    also have "bslice (si_offset b1) (si_len b1) ?d = content b1"
      using fits by (simp add: content_def buf_simps)
    finally show ?thesis using b1 by simp
  qed
  moreover have "si_wf ?b"
    using b1 fits by (simp add: si_wf_def)
  ultimately show ?thesis
    using b1 e by (intro exI [of _ ?b] exI [of _ es]) (auto simp: received_def)
qed

lemma header_decode:
  assumes "n < 256 ^ 3" "0 \<le> q" "q \<le> 255"
  shows "le_dec (take 3 (header n q)) = n" "int (of_char (header n q ! 3)) = q"
  using assms by (auto simp: header_def le_dec_le_enc_small nth_append le_enc_int_def of_char_of)

lemma readAndProcessPacketHeader_ok:
  assumes "stream (rd_script s) = header n q @ rest" "netPacketSeqID s = q" "0 \<le> q" "q \<le> 255" "n < 256 ^ 3"
  shows "\<exists>es. readAndProcessPacketHeader s = (Inr (Some n), s \<lparr> rd_script := es, netPacketSeqID := q + 1 \<rparr>)
              \<and> stream es = rest"
proof -
  obtain bs ok es where rd: "readBytes 4 (rd_script s) = (bs, ok, es)"
    by (cases "readBytes 4 (rd_script s)") auto
  have "bs = header n q" "ok" "stream es = rest"
    using readBytes_ok [OF rd] assms(1) by auto
  then show ?thesis
    using rd assms header_decode [of n q]
    by (auto simp: readAndProcessPacketHeader_def EACH_PACKET_HEARDER_LENGTH_def Let_def)
qed

lemma readContinuation_ok:
  assumes "si_wf b" "stream (rd_script s) = frames q p @ rest" "netPacketSeqID s = q" "0 \<le> q"
    "q + int (length p div SINGLE_PACKET_MAX_PAYLOAD_LENGTH) \<le> 255"
    "si_len b + length p \<le> max_allowed" "length p + si_offset b + si_len b < MaxAllocSize"
  shows "\<exists>b' s'. readContinuation max_allowed b s = (Inr (True, b'), s')
           \<and> stream (rd_script s') = rest \<and> received b p b'
           \<and> sent s' = sent s"
  using assms
proof (induction "length p" arbitrary: p b s q rule: less_induct)
  case less
  let ?M = SINGLE_PACKET_MAX_PAYLOAD_LENGTH
  define n where "n = min ?M (length p)"
  define tl where "tl = (if ?M \<le> length p then frames (next_seq q) (drop ?M p) else [])"
  have fr: "frames q p = header n q @ take n p @ tl"
    by (simp add: n_def tl_def min_def frames.simps [of q p])
  have n: "n < 256 ^ 3" "n \<le> length p" "length (take n p) = n"
    by (auto simp: n_def SINGLE_PACKET_MAX_PAYLOAD_LENGTH_def)
  obtain es where h: "readAndProcessPacketHeader s = (Inr (Some n), s \<lparr> rd_script := es, netPacketSeqID := q + 1 \<rparr>)"
      "stream es = take n p @ tl @ rest"
    using readAndProcessPacketHeader_ok [of s n q "take n p @ tl @ rest"] less.prems fr n by auto
  let ?s1 = "s \<lparr> rd_script := es, netPacketSeqID := q + 1 \<rparr>"
  obtain b1 es1 where r: "readPacketPayload b n ?s1 = (Inr (True, b1), ?s1 \<lparr> rd_script := es1 \<rparr>)"
      "stream es1 = tl @ rest" "received b (take n p) b1"
    using readPacketPayload_ok [of b ?s1 "take n p" "tl @ rest"] less.prems h n by auto
  let ?s2 = "?s1 \<lparr> rd_script := es1 \<rparr>"
  have step: "readContinuation max_allowed b s =
      (if n = ?M then readContinuation max_allowed b1 ?s2 else (Inr (True, b1), ?s2))"
    using h r less.prems n by (auto simp: received_def readContinuation.simps [of max_allowed b s])
  show ?case
  proof (cases "?M \<le> length p")
    case False
    with step r show ?thesis by (auto simp: n_def tl_def)
  next
    case True
    have div: "length p div ?M = Suc ((length p - ?M) div ?M)"
      using True by (simp add: le_div_geq SINGLE_PACKET_MAX_PAYLOAD_LENGTH_def)
    have nM: "n = ?M" "next_seq q = q + 1"
      using True less.prems div by (auto simp: n_def next_seq_def)
    have "\<exists>b' s'. readContinuation max_allowed b1 ?s2 = (Inr (True, b'), s')
           \<and> stream (rd_script s') = rest \<and> received b1 (drop ?M p) b' \<and> sent s' = sent ?s2"
      using True r less.prems nM div by (intro less.hyps [where q = "q + 1"])
        (auto simp: tl_def received_def SINGLE_PACKET_MAX_PAYLOAD_LENGTH_def)
    then show ?thesis
      using received_trans [OF r(3)] step nM True by fastforce
  qed
qed

text \<open>The first packet is read like a continuation packet of an empty buffer, except that a
  short payload goes unnoticed.\<close>

lemma readAndProcessPacketHeader_bound:
  assumes "readAndProcessPacketHeader s = (Inr (Some n), s1)"
  shows "n \<le> SINGLE_PACKET_MAX_PAYLOAD_LENGTH"
proof -
  obtain bs ok es where rd: "readBytes EACH_PACKET_HEARDER_LENGTH (rd_script s) = (bs, ok, es)"
    by (cases "readBytes EACH_PACKET_HEARDER_LENGTH (rd_script s)") auto
  then have n: "ok" "n = le_dec (take 3 bs)"
    using assms by (auto simp: readAndProcessPacketHeader_def Let_def split: if_splits)
  with rd have "length (take 3 bs) = 3"
    using readBytes_True [of EACH_PACKET_HEARDER_LENGTH "rd_script s" bs es]
    by (simp add: EACH_PACKET_HEARDER_LENGTH_def)
  with le_dec_bound [of "take 3 bs"] n show ?thesis
    by (simp add: SINGLE_PACKET_MAX_PAYLOAD_LENGTH_def)
qed

lemma readContinuation_TrueE:
  assumes "readContinuation max_allowed b s = (Inr (True, b'), s')"
  obtains n s1 b1 s2 where "readAndProcessPacketHeader s = (Inr (Some n), s1)"
    "si_len b + n \<le> max_allowed" "readPacketPayload b n s1 = (Inr (True, b1), s2)"
    "if n = SINGLE_PACKET_MAX_PAYLOAD_LENGTH then readContinuation max_allowed b1 s2 = (Inr (True, b'), s')
     else b1 = b' \<and> s2 = s'"
proof -
  obtain r1 s1 where h: "readAndProcessPacketHeader s = (r1, s1)"
    by (cases "readAndProcessPacketHeader s") auto
  then obtain n where n: "r1 = Inr (Some n)" "si_len b + n \<le> max_allowed"
    using assms by (auto simp: readContinuation.simps [of max_allowed b s]
        split: sum.splits option.splits if_splits)
  obtain r2 s2 where p: "readPacketPayload b n s1 = (r2, s2)"
    by (cases "readPacketPayload b n s1") auto
  obtain b1 where "r2 = Inr (True, b1)"
    "if n = SINGLE_PACKET_MAX_PAYLOAD_LENGTH then readContinuation max_allowed b1 s2 = (Inr (True, b'), s')
     else b1 = b' \<and> s2 = s'"
    using assms h n p by (auto simp: readContinuation.simps [of max_allowed b s]
        split: sum.splits if_splits)
  with that h n p show ?thesis by blast
qed

lemma readAndProcessPacket_continuation:
  assumes "si_len b = 0" "readContinuation max_allowed b s = (Inr (True, b'), s')"
  shows "readAndProcessPacket max_allowed b s =
    (case mem_write (si_data b') (si_len b' + si_offset b') [NUL] of
       None \<Rightarrow> (Inl OutOfBounds, s')
     | Some d \<Rightarrow> (Inr (True, b' \<lparr> si_data := d \<rparr>), s'))"
proof -
  obtain n s1 b1 s2 where r: "readAndProcessPacketHeader s = (Inr (Some n), s1)"
    "si_len b + n \<le> max_allowed" "readPacketPayload b n s1 = (Inr (True, b1), s2)"
    "if n = SINGLE_PACKET_MAX_PAYLOAD_LENGTH then readContinuation max_allowed b1 s2 = (Inr (True, b'), s')
     else b1 = b' \<and> s2 = s'"
    by (rule readContinuation_TrueE [OF assms(2)])
  have "n < SINGLE_PACKET_MAX_PAYLOAD_LENGTH \<longleftrightarrow> n \<noteq> SINGLE_PACKET_MAX_PAYLOAD_LENGTH"
    using readAndProcessPacketHeader_bound [OF r(1)] by auto
  with r assms(1) show ?thesis
    by (cases "n = SINGLE_PACKET_MAX_PAYLOAD_LENGTH") (simp_all add: readAndProcessPacket_def)
qed

lemma si_wf_reset: "si_wf b \<Longrightarrow> si_wf (resetStringInfo b)"
  by (auto simp: si_wf_def resetStringInfo_def)

lemma resetStringInfo_fields [simp]:
  "si_len (resetStringInfo b) = 0" "si_offset (resetStringInfo b) = si_offset b"
  "si_maxlen (resetStringInfo b) = si_maxlen b" "content (resetStringInfo b) = []"
  by (simp_all add: resetStringInfo_def content_def bslice_def)

text \<open>Reading one framed command: the buffer that is left before the terminator is stored.\<close>

lemma readPayload_framed:
  assumes "si_wf b" "stream (rd_script s) = frames 0 p @ rest"
    "length p \<le> max_allowed" "length p + si_offset b < MaxAllocSize"
  shows "\<exists>b' s'. received (resetStringInfo b) p b' \<and> stream (rd_script s') = rest
     \<and> readPayload max_allowed b s =
        (case mem_write (si_data b') (si_len b' + si_offset b') [NUL] of
           None \<Rightarrow> (Inl OutOfBounds, s')
         | Some d \<Rightarrow> (Inr (b' \<lparr> si_data := d \<rparr>), s'))"
proof -
  let ?s = "s \<lparr> netPacketSeqID := 0 \<rparr>"
  have few: "int (length p div SINGLE_PACKET_MAX_PAYLOAD_LENGTH) \<le> 255"
    using assms(4) by (simp add: MaxAllocSize_def SINGLE_PACKET_MAX_PAYLOAD_LENGTH_def)
  obtain b' s' where r: "readContinuation max_allowed (resetStringInfo b) ?s = (Inr (True, b'), s')"
      "stream (rd_script s') = rest" "received (resetStringInfo b) p b'"
    using readContinuation_ok [of "resetStringInfo b" ?s 0 p rest max_allowed] assms few
    by (auto simp: si_wf_reset)
  then show ?thesis
    using readAndProcessPacket_continuation [OF _ r(1)]
    by (intro exI [of _ b'] exI [of _ s']) (auto simp: readPayload_def split: option.splits)
qed

lemma net_wf_init: "net_wf (initNetTransceiver rds wrs)"
  by (simp add: net_wf_def initNetTransceiver_def WBUFF_INITIAL_SIZE_def)

lemma wire_init [simp]: "wire (initNetTransceiver rds wrs) = []"
  by (simp add: wire_def pending_def bslice_def initNetTransceiver_def)

lemma init_fields [simp]:
  "netPacketSeqID (initNetTransceiver rds wrs) = 0" "rd_script (initNetTransceiver rds wrs) = rds"
  "wr_script (initNetTransceiver rds wrs) = wrs"
  by (simp_all add: initNetTransceiver_def)

lemma readPacketPayload_len:
  "readPacketPayload b n s = (Inr (ok, b'), s') \<Longrightarrow> si_len b' = (if ok then si_len b + n else si_len b)"
  by (auto simp: readPacketPayload_def enlargeStringInfo_def Let_def
      split: if_splits sum.splits prod.splits option.splits)

lemma readContinuation_len:
  "si_len b \<le> max_allowed \<Longrightarrow> readContinuation max_allowed b s = (Inr (True, b'), s') \<Longrightarrow> si_len b' \<le> max_allowed"
proof (induction "rd_size (rd_script s)" arbitrary: b s rule: less_induct)
  case less
  obtain n s1 b1 s2 where r: "readAndProcessPacketHeader s = (Inr (Some n), s1)"
    "si_len b + n \<le> max_allowed" "readPacketPayload b n s1 = (Inr (True, b1), s2)"
    "if n = SINGLE_PACKET_MAX_PAYLOAD_LENGTH then readContinuation max_allowed b1 s2 = (Inr (True, b'), s')
     else b1 = b' \<and> s2 = s'"
    by (rule readContinuation_TrueE [OF less.prems(2)])
  have "rd_size (rd_script s2) < rd_size (rd_script s)"
    using readAndProcessPacketHeader_size [OF r(1)] readPacketPayload_size [OF r(3)] by simp
  with r less.hyps [of s2 b1] readPacketPayload_len [OF r(3)] show ?case
    by (auto split: if_splits)
qed

lemma tx_ready_init: "tx_ready (initNetTransceiver rds wrs) \<longleftrightarrow> wr_ok (initNetTransceiver rds wrs)"
  by (simp add: tx_ready_def net_wf_init) (simp add: initNetTransceiver_def WBUFF_INITIAL_SIZE_def)

section \<open>Properties\<close>

text \<open>C1.  Reading a command is the inverse of framing it: whatever the chunks in which the
  bytes arrive and however many reads are interrupted, \<open>readPayload\<close> on a stream that starts
  with the framing of \<open>p\<close> leaves exactly \<open>p\<close>, terminated by a zero byte, in the buffer and
  the rest of the stream unread, provided \<open>p\<close> respects \<open>max_allowed_packet\<close>, the buffer can
  be allocated and the payload does not end exactly at the end of a (doubled) buffer.\<close>

theorem readPayload_roundtrip:
  assumes "si_wf b" "stream (rd_script s) = frames 0 p @ rest"
    and "length p \<le> max_allowed" "length p + si_offset b < MaxAllocSize"
    and "\<And>k. length p + si_offset b \<noteq> si_maxlen b * 2 ^ k"
  shows "\<exists>b' s'. readPayload max_allowed b s = (Inr b', s') \<and> si_wf b' \<and> content b' = p
           \<and> si_data b' ! (si_offset b' + si_len b') = NUL \<and> si_offset b' = si_offset b
           \<and> stream (rd_script s') = rest"
proof -
  obtain b' s' where r: "received (resetStringInfo b) p b'" "stream (rd_script s') = rest"
     "readPayload max_allowed b s =
        (case mem_write (si_data b') (si_len b' + si_offset b') [NUL] of
           None \<Rightarrow> (Inl OutOfBounds, s') | Some d \<Rightarrow> (Inr (b' \<lparr> si_data := d \<rparr>), s'))"
    using readPayload_framed [OF assms(1-4)] by blast
  let ?i = "si_len b' + si_offset b'"
  have wf: "si_wf b'" and i: "?i < length (si_data b')"
  proof -
    have "length p + si_offset b \<noteq> si_maxlen b'"
      using r(1) assms(4,5) unfolding received_def grown_def by fastforce
    with r(1) show "si_wf b'" "?i < length (si_data b')"
      by (simp_all add: received_def si_wf_def)
  qed
  let ?b = "b' \<lparr> si_data := overwrite (si_data b') ?i [NUL] \<rparr>"
  have "readPayload max_allowed b s = (Inr ?b, s')"
    using r(3) i by (simp add: mem_write_def)
  moreover have "content ?b = content b'"
    using i by (simp add: content_def buf_simps)
  moreover have "si_wf ?b" "si_data ?b ! (si_offset ?b + si_len ?b) = NUL"
    using wf i by (simp_all add: si_wf_def add.commute)
  ultimately show ?thesis
    using r by (intro exI [of _ ?b] exI [of _ s']) (simp add: received_def)
qed

theorem readPayload_roundtrip_witness:
  "\<exists>b' s'. readPayload 67108864 (initStringInfo \<lparr> si_offset := 128 \<rparr>)
      (initNetTransceiver [Data [CHR 0x02, NUL], RIntr, Data [NUL, NUL, CHR 0x03], Data ''x1''] [])
      = (Inr b', s') \<and> si_wf b' \<and> content b' = [CHR 0x03, CHR ''x'']
      \<and> si_data b' ! (si_offset b' + si_len b') = NUL \<and> si_offset b' = 128
      \<and> stream (rd_script s') = ''1''"
proof -
  have k: "2 + 128 \<noteq> 1024 * (2::nat) ^ k" for k
    using one_le_power [of "2::nat" k] by linarith
  show ?thesis
    using readPayload_roundtrip [of "initStringInfo \<lparr> si_offset := 128 \<rparr>"
        "initNetTransceiver [Data [CHR 0x02, NUL], RIntr, Data [NUL, NUL, CHR 0x03], Data ''x1''] []"
        "[CHR 0x03, CHR ''x'']" "''1''" 67108864] k
    by (simp add: si_wf_def initStringInfo_def resetStringInfo_def initNetTransceiver_def frames.simps
        header_def byte_simps le_enc_int_def MaxAllocSize_def SINGLE_PACKET_MAX_PAYLOAD_LENGTH_def char_of_def
        bit_Suc_0_iff flip: numeral_2_eq_2)
qed

text \<open>C18.  A command whose payload ends exactly at the end of the buffer makes
  \<open>readAndProcessPacket\<close> store the terminating zero byte one position past it: no
  enlargement takes place because the free space is compared with the payload alone.\<close>

theorem readPayload_exact_fit_overflow:
  assumes "si_wf b" "stream (rd_script s) = frames 0 p @ rest"
    and "length p \<le> max_allowed" "length p < SINGLE_PACKET_MAX_PAYLOAD_LENGTH"
    and "length p + si_offset b = si_maxlen b" "si_maxlen b < MaxAllocSize"
  shows "\<exists>s'. readPayload max_allowed b s = (Inl OutOfBounds, s')"
proof -
  let ?s = "s \<lparr> netPacketSeqID := 0 \<rparr>" and ?b = "resetStringInfo b"
  obtain es where h: "readAndProcessPacketHeader ?s = (Inr (Some (length p)), ?s \<lparr> rd_script := es, netPacketSeqID := 1 \<rparr>)"
      "stream es = p @ rest"
    using readAndProcessPacketHeader_ok [of ?s "length p" 0 "p @ rest"] assms
    by (auto simp: frames.simps [of 0 p] SINGLE_PACKET_MAX_PAYLOAD_LENGTH_def)
  let ?s1 = "?s \<lparr> rd_script := es, netPacketSeqID := 1 \<rparr>"
  obtain es1 where rd: "readBytes (length p) es = (p, True, es1)"
    using readBytes_ok [of "length p" es] h(2) by (cases "readBytes (length p) es") auto
  have len: "length (si_data ?b) = si_maxlen b"
    using assms(1) by (simp add: si_wf_def resetStringInfo_def)
  then have "\<exists>b'. readPacketPayload ?b (length p) ?s1 = (Inr (True, b'), ?s1 \<lparr> rd_script := es1 \<rparr>)
               \<and> si_len b' = length p \<and> si_offset b' = si_offset b \<and> length (si_data b') = si_maxlen b"
    using assms(5) rd by (simp add: readPacketPayload_def mem_write_def add.commute)
  then show ?thesis
    using h assms(3-5) by (auto simp: readPayload_def readAndProcessPacket_def mem_write_def)
qed

theorem readPayload_exact_fit_overflow_witness:
  "\<exists>s'. readPayload 67108864 (initStringInfo \<lparr> si_offset := 128 \<rparr>)
      (initNetTransceiver [Data (frames 0 (replicate 896 (CHR ''x'')))] []) = (Inl OutOfBounds, s')"
  using readPayload_exact_fit_overflow [of "initStringInfo \<lparr> si_offset := 128 \<rparr>"
      "initNetTransceiver [Data (frames 0 (replicate 896 (CHR ''x'')))] []"
      "replicate 896 (CHR ''x'')" "[]" 67108864]
  by (simp add: si_wf_def initStringInfo_def resetStringInfo_def initNetTransceiver_def
      MaxAllocSize_def SINGLE_PACKET_MAX_PAYLOAD_LENGTH_def)

text \<open>C4.  Any sequence of packets handed to the buffering writer reaches the wire completely,
  in order and framed with consecutive sequence numbers, on every socket that neither closes
  nor fails, whatever the sizes of the partial writes and the interruptions.\<close>

theorem packets_reach_wire:
  assumes "tx_ready s"
  shows "\<exists>s'. send_all writePacketHeaderPayloadNoFlush ps s = (Inr True, s') \<and> tx_ready s'
           \<and> wire s' = wire s @ frames_all (netPacketSeqID s) ps"
  using noflush.send_all_delivers [OF assms, of ps] by (auto simp: any_payload_def list_all_iff)

theorem packets_reach_wire_witness:
  "\<exists>s'. send_all writePacketHeaderPayloadNoFlush [''ab'', ''c''] (initNetTransceiver [] [Accept 0, WIntr])
          = (Inr True, s') \<and> tx_ready s' \<and> wire s' = frames_all 0 [''ab'', ''c'']"
  using packets_reach_wire [of "initNetTransceiver [] [Accept 0, WIntr]" "[''ab'', ''c'']"] tx_ready_init
  by (simp add: wr_ok_def del: send_all.simps)

text \<open>C19.  Whatever the socket does, the flushing writer stays inside its buffer, ends, keeps
  the buffer well formed, and what the peer has received so far extends what it had and is a
  prefix of the wire with the framed payload; it reports success only when the whole wire
  has been accepted by the socket.\<close>

theorem writePacket_safe:
  assumes "net_wf s" "writePacketHeaderPayloadFlush p s = (r, s')"
  shows "r \<noteq> Inl OutOfBounds \<and> r \<noteq> Inl Hang \<and> net_wf s' \<and> prefix (sent s) (sent s')
     \<and> prefix (sent s') (wire s @ frames (netPacketSeqID s) p)
     \<and> (r = Inr True \<longrightarrow> sent s' = wire s @ frames (netPacketSeqID s) p)"
  using tx_step_packet_flush [OF assms] by (auto simp: tx_step_def)

theorem writePacket_safe_witness:
  "\<exists>r s'. writePacketHeaderPayloadFlush ''abc'' (initNetTransceiver [] [Accept 2, WZero]) = (r, s')
      \<and> r \<noteq> Inl OutOfBounds \<and> net_wf s' \<and> prefix (sent s') (frames 0 ''abc'')"
proof -
  let ?s = "initNetTransceiver [] [Accept 2, WZero]"
  obtain r s' where w: "writePacketHeaderPayloadFlush ''abc'' ?s = (r, s')"
    by (cases "writePacketHeaderPayloadFlush ''abc'' ?s") auto
  with writePacket_safe [OF net_wf_init w] show ?thesis by auto
qed

text \<open>C20.  A payload accepted by \<open>readPayload\<close> is never longer than \<open>max_allowed_packet\<close>,
  whatever arrives on the socket.\<close>

theorem readPayload_bounded:
  "case readPayload max_allowed b s of (Inr b', s') \<Rightarrow> si_len b' \<le> max_allowed | (Inl e, s') \<Rightarrow> True"
proof -
  have "si_len b' \<le> max_allowed" if assms: "readPayload max_allowed b s = (Inr b', s')" for b' s'
  proof -
    let ?s = "s \<lparr> netPacketSeqID := 0 \<rparr>" and ?b = "resetStringInfo b"
    obtain b2 where r: "readAndProcessPacket max_allowed ?b ?s = (Inr (True, b2), s')" "si_len b2 = si_len b'"
      using assms by (auto simp: readPayload_def split: prod.splits sum.splits if_splits)
    then obtain n s1 ok b1 s2 where h: "readAndProcessPacketHeader ?s = (Inr (Some n), s1)" "n \<le> max_allowed"
        "readPacketPayload ?b n s1 = (Inr (ok, b1), s2)"
      unfolding readAndProcessPacket_def
      by (simp split: prod.splits sum.splits option.splits if_splits)
    have "si_len b1 \<le> max_allowed"
      using readPacketPayload_len [OF h(3)] h(2) by simp
    then show ?thesis
      using r h readContinuation_len [of b1 max_allowed s2]
      by (auto simp: readAndProcessPacket_def split: prod.splits sum.splits option.splits if_splits)
  qed
  then show ?thesis by (auto split: prod.splits sum.splits)
qed

text \<open>The length of the first packet of a command is not enforced: when the connection
  ends inside its payload, \<open>readPayload\<close> still reports success, with an empty command in
  the buffer, because the result of \<open>readPacketPayload\<close> is dropped.\<close>

theorem readPayload_truncated_accepted:
  assumes "stream (rd_script s) = header n 0 @ part" "length part < n"
    and "n < SINGLE_PACKET_MAX_PAYLOAD_LENGTH" "n \<le> max_allowed" "si_wf b" "n + si_offset b < si_maxlen b"
  shows "\<exists>b' s'. readPayload max_allowed b s = (Inr b', s') \<and> si_len b' = 0
           \<and> si_data b' ! si_offset b' = NUL"
proof -
  let ?s = "s \<lparr> netPacketSeqID := 0 \<rparr>" and ?b = "resetStringInfo b"
  obtain es where h: "readAndProcessPacketHeader ?s = (Inr (Some n), ?s \<lparr> rd_script := es, netPacketSeqID := 1 \<rparr>)"
      "stream es = part"
    using readAndProcessPacketHeader_ok [of ?s n 0 part] assms
    by (auto simp: SINGLE_PACKET_MAX_PAYLOAD_LENGTH_def)
  let ?s1 = "?s \<lparr> rd_script := es, netPacketSeqID := 1 \<rparr>"
  obtain es1 where rd: "readBytes n es = (part, False, es1)"
    using readBytes_ok [of n es] h(2) assms(2) by (cases "readBytes n es") auto
  have len: "length (si_data ?b) = si_maxlen b"
    using assms(5) by (simp add: si_wf_def resetStringInfo_def)
  then have "\<exists>b'. readPacketPayload ?b n ?s1 = (Inr (False, b'), ?s1 \<lparr> rd_script := es1 \<rparr>)
               \<and> si_len b' = 0 \<and> si_offset b' = si_offset b \<and> length (si_data b') = si_maxlen b"
    using assms rd by (simp add: readPacketPayload_def mem_write_def)
  then show ?thesis
    using h assms(3,4,6) by (auto simp: readPayload_def readAndProcessPacket_def mem_write_def)
qed

theorem readPayload_truncated_accepted_witness:
  "\<exists>b' s'. readPayload 1024 initStringInfo (initNetTransceiver [Data (header 9 0 @ ''se''), REof] [])
       = (Inr b', s') \<and> si_len b' = 0 \<and> si_data b' ! si_offset b' = NUL"
  using readPayload_truncated_accepted [of "initNetTransceiver [Data (header 9 0 @ ''se''), REof] []" 9 "''se''"
      1024 initStringInfo]
  by (simp add: si_wf_def initStringInfo_def resetStringInfo_def MaxAllocSize_def
      SINGLE_PACKET_MAX_PAYLOAD_LENGTH_def)

end
