(* ===== verification/LenEnc.thy ===== *)
theory LenEnc
  imports MysPrelude
begin

text \<open>
  The value codecs of \<open>src/backend/adapter/mysql/adapter.c\<close>: length-encoded integers and
  strings, the binary dates and times of prepared-statement parameters, and their
  counterparts for result columns.  A routine that fills a buffer is the function that
  returns the bytes it stores; its C result is their number.  A routine that decodes a
  buffer answers \<open>None\<close> where the source reads past the end of it.
\<close>

section \<open>Length-encoded integers and strings\<close>

definition assembleLenencUnsignedLong :: "nat \<Rightarrow> bytes" where
  "assembleLenencUnsignedLong val =
     (if val < 251 then le_enc 1 val
      else if val < 0xffff then le_enc 1 0xFC @ le_enc 2 val
      else if val < 0xffffff then le_enc 1 0xFD @ le_enc 3 val
      else le_enc 1 0xFE @ le_enc 8 val)"

definition assembleLenencString :: "bytes option \<Rightarrow> bytes" where
  "assembleLenencString str =
     (case str of
        Some s \<Rightarrow> (let strLen = length s in
                   if 0 < strLen then assembleLenencUnsignedLong strLen @ s else [NUL])
      | None \<Rightarrow> assembleLenencUnsignedLong 0)"

definition assembleLenencString2 :: "bytes \<Rightarrow> int \<Rightarrow> bytes" where
  "assembleLenencString2 str strLen =
     (if 0 < strLen then assembleLenencUnsignedLong (nat strLen) @ take (nat strLen) str else [NUL])"

text \<open>\<open>processLenencString\<close>: the length of the string and the number of bytes its encoding
  takes.\<close>

definition lenenc_at :: "bytes \<Rightarrow> nat \<Rightarrow> (nat \<times> nat) option" where
  "lenenc_at buf k = (if Suc k \<le> length buf then Some (le_dec (bslice 1 k buf), Suc k) else None)"

definition processLenencString :: "bytes \<Rightarrow> (nat \<times> nat) option" where
  "processLenencString buf =
     (case mem_read buf 0 of
        None \<Rightarrow> None
      | Some c \<Rightarrow>
          let prefix = (of_char c :: nat) in
          if prefix < 251 then Some (prefix, 1)
          else if prefix = 252 then lenenc_at buf 2
          else if prefix = 253 then lenenc_at buf 3
          else lenenc_at buf 8)"

definition calcLenencIntLen :: "int \<Rightarrow> nat" where
  "calcLenencIntLen len =
     (if len < 251 then 1 else if len < 0xffff then 3 else if len < 0xffffff then 4 else 9)"

section \<open>Decimal fields\<close>

text \<open>\<open>haloAToI\<close>; the build uses \<open>-fwrapv\<close>, so the accumulator wraps at 32 bits.\<close>

fun haloAToI_digits :: "int \<Rightarrow> bytes \<Rightarrow> nat \<Rightarrow> int" where
  "haloAToI_digits result str 0 = result"
| "haloAToI_digits result [] (Suc n) = result"
| "haloAToI_digits result (c # str) (Suc n) =
     (if is_digit c then haloAToI_digits (wrap_signed 32 (result * 10 + int (digit_val c))) str n
      else result)"

definition haloAToI :: "bytes \<Rightarrow> int \<Rightarrow> int" where
  "haloAToI str strLen =
     (if str \<noteq> [] \<and> hd str = CHR ''-'' then wrap_signed 32 (- haloAToI_digits 0 (tl str) (nat (strLen - 1)))
      else if str \<noteq> [] \<and> hd str = CHR ''+'' then haloAToI_digits 0 (tl str) (nat (strLen - 1))
      else haloAToI_digits 0 str (nat strLen))"

text \<open>The loop shared by \<open>convertTimestamp\<close> and \<open>convertTime\<close>: the numbers between the
  separators of the C string \<open>value\<close>, whose terminator is the last separator.\<close>

function scan_items :: "(char \<Rightarrow> bool) \<Rightarrow> bytes \<Rightarrow> nat \<Rightarrow> nat \<Rightarrow> int list" where
  "scan_items is_sep val i j =
     (if length val < i then []
      else if i = length val \<or> is_sep (val ! i)
           then haloAToI (drop j val) (int i - int j) # scan_items is_sep val (Suc i) (Suc i)
      else scan_items is_sep val (Suc i) j)"
  by pat_completeness auto
termination by (relation "measure (\<lambda>(_, val, i, _). Suc (length val) - i)") auto

declare scan_items.simps [simp del]

definition timestamp_sep :: "char \<Rightarrow> bool" where
  "timestamp_sep c \<longleftrightarrow> c = CHR ''-'' \<or> c = CHR '' '' \<or> c = CHR '':'' \<or> c = CHR ''.''"

definition time_sep :: "char \<Rightarrow> bool" where
  "time_sep c \<longleftrightarrow> c = CHR '':'' \<or> c = CHR ''.''"

definition sum32 :: "int list \<Rightarrow> int" where
  "sum32 xs = fold (\<lambda>x acc. wrap_signed 32 (acc + x)) xs 0"

text \<open>\<open>convertTimestamp\<close>: the bytes that replace the text; \<open>None\<close> when the text has more
  fields than \<open>items\<close> has elements.\<close>

definition convertTimestamp :: "bytes \<Rightarrow> bytes option" where
  "convertTimestamp val =
     (let found = scan_items timestamp_sep val 0 0 in
      if length found > 7 then None
      else
        let items = found @ replicate (7 - length found) 0;
            date = le_enc_int 2 (items ! 0) @ le_enc_int 1 (items ! 1) @ le_enc_int 1 (items ! 2);
            clock = le_enc_int 1 (items ! 3) @ le_enc_int 1 (items ! 4) @ le_enc_int 1 (items ! 5) in
        Some (if items ! 6 = 0 then
                if 0 < sum32 [items ! 3, items ! 4, items ! 5] then le_enc 1 7 @ date @ clock
                else if 0 < sum32 [items ! 0, items ! 1, items ! 2] then le_enc 1 4 @ date
                else le_enc 1 0
              else le_enc 1 11 @ date @ clock @ le_enc_int 4 (items ! 6)))"

text \<open>\<open>convertTime\<close>: the fields are stored from \<open>items[1]\<close> on, \<open>items[0]\<close> stays 0, and so
  does \<open>isNegative\<close>.\<close>

definition convertTime :: "bytes \<Rightarrow> bytes option" where
  "convertTime val =
     (let found = scan_items time_sep val 0 0 in
      if length found > 4 then None
      else
        let items = 0 # found @ replicate (4 - length found) 0;
            isNegative = 0;
            body = le_enc_int 1 isNegative @ le_enc_int 4 (items ! 0) @ le_enc_int 1 (items ! 1)
                   @ le_enc_int 1 (items ! 2) @ le_enc_int 1 (items ! 3) in
        Some (if items ! 4 = 0 then
                if 0 < sum32 [items ! 0, items ! 1, items ! 2, items ! 3] then le_enc 1 8 @ body
                else le_enc 1 0
              else le_enc 1 12 @ body @ le_enc_int 4 (items ! 4)))"

section \<open>Binary dates and times of parameters\<close>

text \<open>The text stored in \<open>outBuf\<close> and the number of bytes consumed.\<close>

definition byte_at :: "bytes \<Rightarrow> nat \<Rightarrow> nat" where
  "byte_at buf i = of_char (buf ! i)"

definition show_date :: "nat \<Rightarrow> nat \<Rightarrow> nat \<Rightarrow> string" where
  "show_date y m d = show_nat y @ ''-'' @ show_nat m @ ''-'' @ show_nat d"

definition show_clock :: "nat \<Rightarrow> nat \<Rightarrow> nat \<Rightarrow> string" where
  "show_clock h m s = show_nat h @ '':'' @ show_nat m @ '':'' @ show_nat s"

definition processDateType :: "bytes \<Rightarrow> (string \<times> nat) option" where
  "processDateType buf =
     (if length buf < 5 then None
      else Some (show_date (le_dec (bslice 1 2 buf)) (byte_at buf 3) (byte_at buf 4), byte_at buf 0 + 1))"

definition processTimeType :: "bytes \<Rightarrow> (string \<times> nat) option" where
  "processTimeType buf =
     (if length buf < 9 then None
      else
        let time_len = byte_at buf 0;
            negative = byte_at buf 1;
            day = le_dec (bslice 2 4 buf);
            hour = (byte_at buf 6 + day * 24) mod 2 ^ 32;
            minute = byte_at buf 7;
            second = byte_at buf 8 in
        if time_len > 8 \<and> length buf < 13 then None
        else
          let second_part = (if time_len > 8 then le_dec (bslice 9 4 buf) else 0) in
          Some ((if negative \<noteq> 0 then ''-'' else []) @ show_clock hour minute second
                @ (if time_len > 8 then ''.'' @ show_nat_pad 6 second_part else []),
                time_len + 1))"

definition processDatetimeTimestampType :: "bytes \<Rightarrow> (string \<times> nat) option" where
  "processDatetimeTimestampType buf =
     (if length buf < 3 then None
      else
        let len = byte_at buf 0;
            year = le_dec (bslice 1 2 buf) in
        if len \<ge> 4 \<and> length buf < 5 \<or> len \<ge> 7 \<and> length buf < 8 \<or> len \<ge> 11 \<and> length buf < 12 then None
        else
          Some ((if len \<ge> 4 then show_date year (byte_at buf 3) (byte_at buf 4) else [])
                @ (if len \<ge> 7 then '' '' @ show_clock (byte_at buf 5) (byte_at buf 6) (byte_at buf 7) else [])
                @ (if len \<ge> 11 then ''.'' @ show_nat_pad 6 (le_dec (bslice 8 4 buf)) else []),
                len + 1))"

section \<open>Lemmas\<close>

lemma le_enc_1: "le_enc 1 n = [char_of n]"
  by (simp add: byte_simps)

lemma processLenencString_prefix:
  "processLenencString (c # bs) =
     (let prefix = (of_char c :: nat) in
      if prefix < 251 then Some (prefix, 1)
      else if prefix = 252 then lenenc_at (c # bs) 2
      else if prefix = 253 then lenenc_at (c # bs) 3
      else lenenc_at (c # bs) 8)"
  by (simp add: processLenencString_def mem_read_def)

lemma lenenc_at_enc: "length bs = k \<Longrightarrow> lenenc_at (c # bs @ rest) k = Some (le_dec bs, Suc k)"
  by (simp add: lenenc_at_def bslice_def)

lemma process_assemble_Lenenc:
  assumes "val < 2 ^ 64"
  shows "processLenencString (assembleLenencUnsignedLong val @ rest)
     = Some (val, length (assembleLenencUnsignedLong val))"
proof -
  have "val < 256 ^ 8"
    using assms by simp
  then show ?thesis
    by (simp add: assembleLenencUnsignedLong_def le_enc_1 processLenencString_prefix lenenc_at_enc
        le_dec_le_enc_small of_char_of)
qed

lemma calcLenencIntLen_length:
  "0 \<le> len \<Longrightarrow> calcLenencIntLen len = length (assembleLenencUnsignedLong (nat len))"
  by (simp add: calcLenencIntLen_def assembleLenencUnsignedLong_def nat_less_iff)

lemma haloAToI_digits_val:
  "0 \<le> acc \<Longrightarrow> list_all is_digit ds \<Longrightarrow> digits_val (nat acc) ds < 2 ^ 31 \<Longrightarrow>
     haloAToI_digits acc (ds @ rest) (length ds) = int (digits_val (nat acc) ds)"
proof (induction ds arbitrary: acc)
  case (Cons c ds)
  let ?acc = "acc * 10 + int (digit_val c)"
  have nn: "nat acc * 10 + digit_val c = nat ?acc"
    using Cons.prems by (simp add: nat_add_distrib nat_mult_distrib)
  have "nat ?acc < 2 ^ 31"
    using Cons.prems digits_val_mono [of "nat ?acc" ds] by (simp add: nn)
  then have "wrap_signed 32 ?acc = ?acc"
    using Cons.prems by (intro wrap_signed_id) auto
  with Cons nn show ?case by simp
qed simp

lemma haloAToI_val:
  assumes "ds \<noteq> []" "list_all is_digit ds" "digits_val 0 ds < 2 ^ 31"
  shows "haloAToI (ds @ rest) (int (length ds)) = int (digits_val 0 ds)"
proof -
  obtain c cs where "ds = c # cs"
    using assms(1) by (cases ds) auto
  with assms(2) have "hd (ds @ rest) \<noteq> CHR ''-''" "hd (ds @ rest) \<noteq> CHR ''+''"
    by (auto simp: is_digit_def)
  then show ?thesis
    using assms haloAToI_digits_val [of 0 ds rest] by (simp add: haloAToI_def)
qed

text \<open>Scanning a text made of numbers and separators.\<close>

definition number :: "(char \<Rightarrow> bool) \<Rightarrow> bytes \<Rightarrow> bool" where
  "number is_sep ds \<longleftrightarrow> ds \<noteq> [] \<and> list_all is_digit ds \<and> list_all (\<lambda>c. \<not> is_sep c) ds \<and> digits_val 0 ds < 2 ^ 31"

lemma scan_items_skip:
  "list_all (\<lambda>c. \<not> is_sep c) ds \<Longrightarrow> val = pre @ ds @ rest \<Longrightarrow> k \<le> length ds \<Longrightarrow>
     scan_items is_sep val (length pre + k) j = scan_items is_sep val (length pre + length ds) j"
proof (induction "length ds - k" arbitrary: k)
  case (Suc n)
  then have "\<not> is_sep (ds ! k)" "k < length ds"
    by (auto simp: list_all_length)
  then have "scan_items is_sep val (length pre + k) j = scan_items is_sep val (length pre + Suc k) j"
    using Suc.prems by (subst scan_items.simps) (auto simp: nth_append)
  with Suc.hyps(1) [of "Suc k"] Suc.hyps(2) Suc.prems show ?case by simp
qed simp

lemma scan_items_number:
  assumes "number is_sep ds" "val = pre @ ds @ rest" "rest = [] \<or> is_sep (hd rest)"
  shows "scan_items is_sep val (length pre) (length pre)
    = int (digits_val 0 ds) # scan_items is_sep val (Suc (length pre + length ds)) (Suc (length pre + length ds))"
proof -
  have "scan_items is_sep val (length pre) (length pre)
      = scan_items is_sep val (length pre + length ds) (length pre)"
    using scan_items_skip [of is_sep ds val pre rest 0 "length pre"] assms by (simp add: number_def)
  also have "\<dots> = haloAToI (drop (length pre) val) (int (length ds))
      # scan_items is_sep val (Suc (length pre + length ds)) (Suc (length pre + length ds))"
    using assms by (subst scan_items.simps) (cases rest; auto simp: nth_append)
  also have "haloAToI (drop (length pre) val) (int (length ds)) = int (digits_val 0 ds)"
    using assms haloAToI_val [of ds rest] by (simp add: number_def)
  finally show ?thesis .
qed

lemma scan_items_fields:
  "list_all (\<lambda>(ds, c). number is_sep ds \<and> is_sep c) fs \<Longrightarrow> number is_sep l \<Longrightarrow>
   scan_items is_sep (pre @ concat (map (\<lambda>(ds, c). ds @ [c]) fs) @ l) (length pre) (length pre)
     = map (\<lambda>(ds, c). int (digits_val 0 ds)) fs @ [int (digits_val 0 l)]"
proof (induction fs arbitrary: pre)
  case Nil
  then show ?case
    using scan_items_number [of is_sep l "pre @ l" pre "[]"] by (simp add: scan_items.simps)
next
  case (Cons f fs)
  obtain ds c where f: "f = (ds, c)" by (cases f)
  let ?rest = "c # concat (map (\<lambda>(ds, c). ds @ [c]) fs) @ l"
  have "scan_items is_sep (pre @ ds @ ?rest) (length pre) (length pre) = int (digits_val 0 ds)
     # scan_items is_sep (pre @ ds @ ?rest) (Suc (length pre + length ds)) (Suc (length pre + length ds))"
    using Cons.prems f by (intro scan_items_number [where rest = ?rest]) auto
  moreover have "scan_items is_sep (pre @ ds @ ?rest) (Suc (length pre + length ds)) (Suc (length pre + length ds))
     = map (\<lambda>(ds, c). int (digits_val 0 ds)) fs @ [int (digits_val 0 l)]"
    using Cons.IH [of "pre @ ds @ [c]"] Cons.prems by simp
  ultimately show ?case using f by simp
qed

lemma sep_not_digit: "is_digit c \<Longrightarrow> \<not> timestamp_sep c" "is_digit c \<Longrightarrow> \<not> time_sep c"
  by (auto simp: timestamp_sep_def time_sep_def is_digit_def)

lemma number_show: "n < 2 ^ 31 \<Longrightarrow> number timestamp_sep (show_nat_pad k n)" "n < 2 ^ 31 \<Longrightarrow> number time_sep (show_nat_pad k n)"
  by (auto simp: number_def list_all_iff dest: show_nat_pad_digits sep_not_digit)

text \<open>The texts the server prints for a timestamp and a time with six fractional digits.\<close>

definition timestamp_text :: "nat \<Rightarrow> nat \<Rightarrow> nat \<Rightarrow> nat \<Rightarrow> nat \<Rightarrow> nat \<Rightarrow> nat \<Rightarrow> string" where
  "timestamp_text y mo d h mi s us =
     concat (map (\<lambda>(ds, c). ds @ [c])
       [(show_nat_pad 4 y, CHR ''-''), (show_nat_pad 2 mo, CHR ''-''), (show_nat_pad 2 d, CHR '' ''),
        (show_nat_pad 2 h, CHR '':''), (show_nat_pad 2 mi, CHR '':''), (show_nat_pad 2 s, CHR ''.'')])
     @ show_nat_pad 6 us"

definition time_text :: "nat \<Rightarrow> nat \<Rightarrow> nat \<Rightarrow> nat \<Rightarrow> string" where
  "time_text h mi s us =
     concat (map (\<lambda>(ds, c). ds @ [c])
       [(show_nat_pad 2 h, CHR '':''), (show_nat_pad 2 mi, CHR '':''), (show_nat_pad 2 s, CHR ''.'')])
     @ show_nat_pad 6 us"

lemma scan_timestamp_text:
  assumes "list_all (\<lambda>n. n < 2 ^ 31) [y, mo, d, h, mi, s, us]"
  shows "scan_items timestamp_sep (timestamp_text y mo d h mi s us) 0 0 = map int [y, mo, d, h, mi, s, us]"
proof -
  have "list_all (\<lambda>(ds, c). number timestamp_sep ds \<and> timestamp_sep c)
       [(show_nat_pad 4 y, CHR ''-''), (show_nat_pad 2 mo, CHR ''-''), (show_nat_pad 2 d, CHR '' ''),
        (show_nat_pad 2 h, CHR '':''), (show_nat_pad 2 mi, CHR '':''), (show_nat_pad 2 s, CHR ''.'')]"
    using assms by (simp add: number_show timestamp_sep_def)
  from scan_items_fields [OF this, of "show_nat_pad 6 us" "[]"] assms show ?thesis
    by (simp add: timestamp_text_def number_show)
qed

lemma scan_time_text:
  assumes "list_all (\<lambda>n. n < 2 ^ 31) [h, mi, s, us]"
  shows "scan_items time_sep (time_text h mi s us) 0 0 = map int [h, mi, s, us]"
proof -
  have "list_all (\<lambda>(ds, c). number time_sep ds \<and> time_sep c)
       [(show_nat_pad 2 h, CHR '':''), (show_nat_pad 2 mi, CHR '':''), (show_nat_pad 2 s, CHR ''.'')]"
    using assms by (simp add: number_show time_sep_def)
  from scan_items_fields [OF this, of "show_nat_pad 6 us" "[]"] assms show ?thesis
    by (simp add: time_text_def number_show)
qed

text \<open>The bytes of the encoders, written as one list.\<close>

lemma le_enc_int_nat: "le_enc_int k (int n) = le_enc k n"
proof -
  have "nat (int n mod 256 ^ k) = n mod 256 ^ k"
    by (metis nat_int of_nat_mod of_nat_numeral of_nat_power)
  moreover have "le_enc k (n mod 256 ^ k) = le_enc k n"
    by (metis length_le_enc le_dec_le_enc le_enc_le_dec)
  ultimately show ?thesis by (simp add: le_enc_int_def)
qed

lemma sum32_small:
  "a < 2 ^ 16 \<Longrightarrow> b < 256 \<Longrightarrow> c < 256 \<Longrightarrow> sum32 [int a, int b, int c] = int (a + b + c)"
  by (simp add: sum32_def wrap_signed_id)

lemma le_dec_pair: "n < 65536 \<Longrightarrow> le_dec [char_of n, char_of (n div 256)] = n"
  using le_dec_le_enc_small [of n 2] by (simp only: byte_simps) simp

lemma le_dec_quad:
  "n < 2 ^ 32 \<Longrightarrow> le_dec [char_of n, char_of (n div 256), char_of (n div 65536), char_of (n div 16777216)] = n"
  using le_dec_le_enc_small [of n 4] by (simp only: byte_simps) simp

lemma bslice_eval [simp]:
  "bslice 0 n xs = take n xs" "bslice (Suc i) n (x # xs) = bslice i n xs"
  "bslice (numeral k) n (x # xs) = bslice (pred_numeral k) n xs"
  by (simp_all add: bslice_def drop_Cons')

lemma pos_sum3: "0 < int a + int b + int c \<longleftrightarrow> 0 < a + b + c"
  by linarith

lemma le_dec_zeros: "le_dec [char_of (0::nat), char_of (0::nat), char_of (0::nat), char_of (0::nat)] = 0"
  using le_dec_quad [of 0] by simp

lemmas item_simps = le_enc_int_nat byte_simps le_dec_pair le_dec_quad le_dec_zeros pos_sum3

section \<open>Properties\<close>

text \<open>C21.  Length-encoded integers round trip: decoding what was encoded, followed by anything,
  yields the number and the length of its encoding, for every unsigned 64-bit value.\<close>

theorem lenenc_roundtrip:
  assumes "val < 2 ^ 64"
  shows "processLenencString (assembleLenencUnsignedLong val @ rest)
     = Some (val, length (assembleLenencUnsignedLong val))"
  by (rule process_assemble_Lenenc [OF assms])

theorem lenenc_roundtrip_witness:
  "processLenencString (assembleLenencUnsignedLong 70000 @ ''rest'') = Some (70000, 4)"
  using lenenc_roundtrip [of 70000 "''rest''"] by (simp add: assembleLenencUnsignedLong_def)



text \<open>Binary times: \<open>convertTime\<close> keeps minutes, seconds and microseconds, but only the
  low-order byte of the hours reaches the client, because the days field is never filled;
  below 256 hours the value round trips.\<close>

theorem time_hours_modulo_256:
  assumes "h < 2 ^ 30" "mi < 256" "s < 256" "us < 2 ^ 31" "0 < h + mi + s + us"
  shows "\<exists>bs. convertTime (time_text h mi s us) = Some bs
     \<and> processTimeType bs =
         Some (show_clock (h mod 256) mi s @ (if us \<noteq> 0 then ''.'' @ show_nat_pad 6 us else []), length bs)"
proof -
  have sc: "scan_items time_sep (time_text h mi s us) 0 0 = map int [h, mi, s, us]"
    using assms by (intro scan_time_text) simp
  have b: "x < 256 \<Longrightarrow> (of_char (char_of x :: char) :: nat) = x" for x
    by (simp add: of_char_of)
  have sum: "sum32 [0, int h, int mi, int s] = int (h + mi + s)"
    using assms by (simp add: sum32_def wrap_signed_id)
  have z: "le_enc_int k 0 = le_enc k 0" for k
    by (simp add: le_enc_int_def)
  show ?thesis
    using assms
    by (auto simp: convertTime_def sc Let_def item_simps sum z processTimeType_def
        byte_at_def b of_char_of simp del: le_dec.simps)
qed

theorem time_hours_modulo_256_witness:
  "\<exists>bs. convertTime (time_text 838 59 59 0) = Some bs
     \<and> processTimeType bs = Some (show_clock 70 59 59, length bs)"
  using time_hours_modulo_256 [of 838 59 59 0] by simp

end
