(* ===== verification/ErrorConvertor.thy ===== *)
theory ErrorConvertor
  imports MysPrelude
begin

text \<open>
  \<open>src/backend/adapter/mysql/errorConvertor.c\<close>: the hash table that translates the error
  codes of the server (packed five-character SQL states, and some MySQL numbers) to MySQL
  error numbers.  The table is a finite map; \<open>HASH_ENTER\<close> on a key that is present leaves
  its entry as it is.
\<close>

type_synonym error_table = "int \<rightharpoonup> int"

definition initErrorCode :: "int \<Rightarrow> int \<Rightarrow> error_table \<Rightarrow> error_table" where
  "initErrorCode haloErrorCode mySQLErrorCode t =
     (case t haloErrorCode of
        Some _ \<Rightarrow> t
      | None \<Rightarrow> t (haloErrorCode \<mapsto> mySQLErrorCode))"

definition error_code_pairs :: "(int \<times> int) list" where
  "error_code_pairs =
     [(1064, 1265), (1292, 1366), (1364, 1048), (1411, 1049), (2600, 1292), (16777248, 1264),
      (16777346, 1406), (16801924, 1478), (16908420, 1146), (33575106, 1048), (33685634, 1064),
      (50331778, 1264), (50352322, 1452), (50360452, 1054), (67391682, 1264), (83906754, 1062),
      (117571716, 1050)]"

definition initErrorCodeHashTable :: error_table where
  "initErrorCodeHashTable = fold (\<lambda>(h, m). initErrorCode h m) error_code_pairs Map.empty"

text \<open>\<open>None\<close> is the table before \<open>initErrorCodeHashTable\<close> has run.\<close>

definition convertErrorCode :: "error_table option \<Rightarrow> int \<Rightarrow> int" where
  "convertErrorCode tbl haloErrorCode =
     (case tbl of
        Some t \<Rightarrow> (case t haloErrorCode of Some m \<Rightarrow> m | None \<Rightarrow> haloErrorCode)
      | None \<Rightarrow> haloErrorCode)"

text \<open>\<open>MAKE_SQLSTATE\<close> of \<open>src/include/utils/elog.h\<close> on a five-character state.\<close>

definition PGSIXBIT :: "char \<Rightarrow> int" where
  "PGSIXBIT ch = (int (of_char ch) - 48) AND 0x3F"

definition MAKE_SQLSTATE :: "string \<Rightarrow> int" where
  "MAKE_SQLSTATE s = PGSIXBIT (s ! 0) + PGSIXBIT (s ! 1) * 2 ^ 6 + PGSIXBIT (s ! 2) * 2 ^ 12
     + PGSIXBIT (s ! 3) * 2 ^ 18 + PGSIXBIT (s ! 4) * 2 ^ 24"

lemma fold_initErrorCode:
  "fold (\<lambda>(h, m). initErrorCode h m) ps t = map_of ps ++ t"
proof (induction ps arbitrary: t)
  case (Cons p ps)
  obtain h m where "p = (h, m)" by (cases p)
  then show ?case
    using Cons by (auto simp: initErrorCode_def map_add_def fun_eq_iff split: option.splits)
qed simp

lemma initErrorCodeHashTable_lookup: "initErrorCodeHashTable = map_of error_code_pairs"
  by (simp add: initErrorCodeHashTable_def fold_initErrorCode)

lemma convertErrorCode_lookup:
  "convertErrorCode (Some initErrorCodeHashTable) c = (case map_of error_code_pairs c of Some m \<Rightarrow> m | None \<Rightarrow> c)"
  by (simp add: convertErrorCode_def initErrorCodeHashTable_lookup)

section \<open>Properties\<close>

text \<open>The SQL states of constraint violations, undefined and duplicate objects and value
  errors reach a MySQL client as the numbers MySQL documents for them, every code outside the
  table is passed on unchanged, and no code is registered twice, so each registration counts.
  Two states do not get the number the disabled lines of the source name: a syntax error
  (42601) becomes 1478 and an invalid text representation (22P02) becomes 1064.\<close>

theorem sqlstates_converted:
  "map (\<lambda>s. convertErrorCode (Some initErrorCodeHashTable) (MAKE_SQLSTATE s))
       [''23505'', ''23503'', ''23502'', ''42P01'', ''42P07'', ''42703'', ''22001'', ''22003'', ''42601'', ''22P02'']
     = [1062, 1452, 1048, 1146, 1050, 1054, 1406, 1264, 1478, 1064]
   \<and> convertErrorCode (Some initErrorCodeHashTable) c = (case map_of error_code_pairs c of Some m \<Rightarrow> m | None \<Rightarrow> c)
   \<and> distinct (map fst error_code_pairs)"
proof (intro conjI)
  show "map (\<lambda>s. convertErrorCode (Some initErrorCodeHashTable) (MAKE_SQLSTATE s))
       [''23505'', ''23503'', ''23502'', ''42P01'', ''42P07'', ''42703'', ''22001'', ''22003'', ''42601'', ''22P02'']
     = [1062, 1452, 1048, 1146, 1050, 1054, 1406, 1264, 1478, 1064]"
    by (simp add: convertErrorCode_lookup MAKE_SQLSTATE_def PGSIXBIT_def error_code_pairs_def)
qed (simp_all add: convertErrorCode_lookup error_code_pairs_def)

end
