(* ===== verification/Encode.thy ===== *)
theory Encode
  imports MysPrelude
begin

text \<open>
  The binary-to-text encodings of \<open>src/backend/utils/adt/encode.c\<close>: hexadecimal, base64 and
  escape, the table of encodings and the SQL functions \<open>encode\<close> and \<open>decode\<close>.  The MySQL layer
  uses them for \<open>bytea\<close> values, e.g. in the user variables.  A conversion returns the bytes it
  writes; an \<open>ereport\<close> is a value of \<open>codec_error\<close>.
\<close>

datatype codec_error =
    InvalidHexDigit char
  | OddDigits
  | UnexpectedPad
  | InvalidSymbol char
  | InvalidEnd
  | InvalidEscape
  | UnknownEncoding
  | ResultTooLarge
  | EstimateTooSmall

definition on_ok :: "('a \<Rightarrow> 'b) \<Rightarrow> codec_error + 'a \<Rightarrow> codec_error + 'b" where
  "on_ok f r = (case r of Inl e \<Rightarrow> Inl e | Inr x \<Rightarrow> Inr (f x))"

lemma on_ok_simps [simp]: "on_ok f (Inl e) = Inl e" "on_ok f (Inr x) = Inr (f x)"
  by (simp_all add: on_ok_def)

lemma on_ok_Inl [simp]: "on_ok f r = Inl e \<longleftrightarrow> r = Inl e"
  by (cases r) simp_all

lemma on_ok_Inr: "on_ok f r = Inr y \<Longrightarrow> \<exists>x. r = Inr x \<and> y = f x"
  by (cases r) auto

definition is_blank :: "char \<Rightarrow> bool" where
  "is_blank c \<longleftrightarrow> c = CHR '' '' \<or> c = CHR 0x0A \<or> c = CHR 0x09 \<or> c = CHR 0x0D"

section \<open>Hexadecimal\<close>

definition hextbl :: string where "hextbl = ''0123456789abcdef''"

definition hexlookup :: "int list" where
  "hexlookup =
     replicate 48 (-1) @ [0, 1, 2, 3, 4, 5, 6, 7, 8, 9] @ replicate 7 (-1) @ [10, 11, 12, 13, 14, 15]
     @ replicate 26 (-1) @ [10, 11, 12, 13, 14, 15] @ replicate 25 (-1)"

definition hex_encode :: "bytes \<Rightarrow> bytes" where
  "hex_encode src = concat (map (\<lambda>c. let n = (of_char c :: nat) in
     [hextbl ! (drop_bit 4 n AND 0xF), hextbl ! (n AND 0xF)]) src)"

definition get_hex :: "char \<Rightarrow> codec_error + nat" where
  "get_hex c =
     (let res = (if (of_char c :: nat) < 127 then hexlookup ! of_char c else -1) in
      if res < 0 then Inl (InvalidHexDigit c) else Inr (nat res))"

fun hex_decode :: "bytes \<Rightarrow> codec_error + bytes" where
  "hex_decode [] = Inr []"
| "hex_decode (c # cs) =
     (if is_blank c then hex_decode cs
      else
        (case get_hex c of
           Inl e \<Rightarrow> Inl e
         | Inr v1 \<Rightarrow>
             (case cs of
                [] \<Rightarrow> Inl OddDigits
              | d # ds \<Rightarrow>
                  (case get_hex d of
                     Inl e \<Rightarrow> Inl e
                   | Inr v2 \<Rightarrow> on_ok (\<lambda>r. char_of (push_bit 4 v1 OR v2) # r) (hex_decode ds)))))"

definition hex_enc_len :: "bytes \<Rightarrow> nat" where "hex_enc_len src = push_bit 1 (length src)"
definition hex_dec_len :: "bytes \<Rightarrow> codec_error + nat" where "hex_dec_len src = Inr (drop_bit 1 (length src))"

section \<open>Base64\<close>

definition base64 :: string where
  "base64 = ''ABCDEFGHIJKLMNOPQRSTUVWXYZabcdefghijklmnopqrstuvwxyz0123456789+/''"

definition b64lookup :: "int list" where
  "b64lookup =
     replicate 43 (-1) @ [62] @ replicate 3 (-1) @ [63] @ [52, 53, 54, 55, 56, 57, 58, 59, 60, 61] @ replicate 7 (-1)
     @ [0, 1, 2, 3, 4, 5, 6, 7, 8, 9, 10, 11, 12, 13, 14, 15, 16, 17, 18, 19, 20, 21, 22, 23, 24, 25] @ replicate 6 (-1)
     @ [26, 27, 28, 29, 30, 31, 32, 33, 34, 35, 36, 37, 38, 39, 40, 41, 42, 43, 44, 45, 46, 47, 48, 49, 50, 51]
     @ replicate 5 (-1)"

definition b64_digit :: "nat \<Rightarrow> nat \<Rightarrow> char" where
  "b64_digit buf n = base64 ! (drop_bit n buf AND 0x3f)"

text \<open>The loop of \<open>pg_base64_encode\<close>: \<open>pos\<close> counts down from 2, \<open>col\<close> is the number of characters
  since the start of the line (\<open>lend\<close> is 76 characters behind it).\<close>

fun b64_enc :: "bytes \<Rightarrow> nat \<Rightarrow> nat \<Rightarrow> nat \<Rightarrow> bytes" where
  "b64_enc [] pos buf col =
     (if pos \<noteq> 2 then
        [b64_digit buf 18, b64_digit buf 12, if pos = 0 then b64_digit buf 6 else CHR ''='', CHR ''='']
      else [])"
| "b64_enc (c # cs) pos buf col =
     (let buf1 = buf OR push_bit (8 * pos) (of_char c) in
      if pos = 0 then
        [b64_digit buf1 18, b64_digit buf1 12, b64_digit buf1 6, b64_digit buf1 0]
        @ (if 76 \<le> col + 4 then [CHR 0x0A] @ b64_enc cs 2 0 0 else b64_enc cs 2 0 (col + 4))
      else if 76 \<le> col then [CHR 0x0A] @ b64_enc cs (pos - 1) buf1 0
      else b64_enc cs (pos - 1) buf1 col)"

definition pg_base64_encode :: "bytes \<Rightarrow> bytes" where
  "pg_base64_encode src = b64_enc src 2 0 0"

text \<open>The loop of \<open>pg_base64_decode\<close>; \<open>pad\<close> is its variable \<open>end\<close>.\<close>

definition b64_value :: "char \<Rightarrow> int" where
  "b64_value c = (if 0 < (of_char c :: nat) \<and> (of_char c :: nat) < 127 then b64lookup ! of_char c else -1)"

definition b64_out :: "nat \<Rightarrow> nat \<Rightarrow> bytes" where
  "b64_out buf pad =
     [char_of (drop_bit 16 buf AND 255)]
     @ (if pad = 0 \<or> pad > 1 then [char_of (drop_bit 8 buf AND 255)] else [])
     @ (if pad = 0 \<or> pad > 2 then [char_of (buf AND 255)] else [])"

fun b64_dec :: "bytes \<Rightarrow> nat \<Rightarrow> nat \<Rightarrow> nat \<Rightarrow> codec_error + bytes" where
  "b64_dec [] buf pos pad = (if pos \<noteq> 0 then Inl InvalidEnd else Inr [])"
| "b64_dec (c # cs) buf pos pad =
     (if is_blank c then b64_dec cs buf pos pad
      else if c = CHR ''='' then
        (if pad = 0 \<and> pos \<noteq> 2 \<and> pos \<noteq> 3 then Inl UnexpectedPad
         else
           let pad1 = (if pad = 0 then (if pos = 2 then 1 else 2) else pad); buf1 = push_bit 6 buf in
           if pos = 3 then on_ok (\<lambda>r. b64_out buf1 pad1 @ r) (b64_dec cs 0 0 pad1)
           else b64_dec cs buf1 (pos + 1) pad1)
      else if b64_value c < 0 then Inl (InvalidSymbol c)
      else
        let buf1 = push_bit 6 buf + nat (b64_value c) in
        if pos = 3 then on_ok (\<lambda>r. b64_out buf1 pad @ r) (b64_dec cs 0 0 pad)
        else b64_dec cs buf1 (pos + 1) pad)"

definition pg_base64_decode :: "bytes \<Rightarrow> codec_error + bytes" where
  "pg_base64_decode src = b64_dec src 0 0 0"

definition pg_base64_enc_len :: "bytes \<Rightarrow> nat" where
  "pg_base64_enc_len src = (length src + 2) * 4 div 3 + length src div (76 * 3 div 4)"

definition pg_base64_dec_len :: "bytes \<Rightarrow> codec_error + nat" where
  "pg_base64_dec_len src = Inr (drop_bit 2 (length src * 3))"

section \<open>Escape\<close>

definition esc_byte :: "char \<Rightarrow> bytes" where
  "esc_byte ch =
     (let c = (of_char ch :: nat) in
      if c = 0 \<or> 128 \<le> c then
        [CHR 0x5C, digit_char (drop_bit 6 c), digit_char (drop_bit 3 c AND 7), digit_char (c AND 7)]
      else if ch = CHR 0x5C then [CHR 0x5C, CHR 0x5C]
      else [ch])"

definition esc_encode :: "bytes \<Rightarrow> bytes" where
  "esc_encode src = concat (map esc_byte src)"

text \<open>The octal branch: a backslash and three octal digits, with the value of the digits.\<close>

definition octal_val :: "char \<Rightarrow> char \<Rightarrow> char \<Rightarrow> nat option" where
  "octal_val a b c =
     (if CHR ''0'' \<le> a \<and> a \<le> CHR ''3'' \<and> CHR ''0'' \<le> b \<and> b \<le> CHR ''7'' \<and> CHR ''0'' \<le> c \<and> c \<le> CHR ''7''
      then Some (push_bit 3 (push_bit 3 (digit_val a) + digit_val b) + digit_val c) else None)"

fun esc_decode :: "bytes \<Rightarrow> codec_error + bytes" where
  "esc_decode [] = Inr []"
| "esc_decode (x # xs) =
     (if x \<noteq> CHR 0x5C then on_ok (\<lambda>r. x # r) (esc_decode xs)
      else
        (case xs of
           a # b # c # r \<Rightarrow>
             (case octal_val a b c of
                Some v \<Rightarrow> on_ok (\<lambda>r. char_of v # r) (esc_decode r)
              | None \<Rightarrow> if a = CHR 0x5C then on_ok (\<lambda>r. CHR 0x5C # r) (esc_decode (b # c # r)) else Inl InvalidEscape)
         | a # r \<Rightarrow> if a = CHR 0x5C then on_ok (\<lambda>r. CHR 0x5C # r) (esc_decode r) else Inl InvalidEscape
         | [] \<Rightarrow> Inl InvalidEscape))"

definition esc_enc_len :: "bytes \<Rightarrow> nat" where
  "esc_enc_len src = sum_list (map (\<lambda>ch. if ch = NUL \<or> 128 \<le> (of_char ch :: nat) then 4
     else if ch = CHR 0x5C then 2 else 1) src)"

fun esc_dec_len :: "bytes \<Rightarrow> codec_error + nat" where
  "esc_dec_len [] = Inr 0"
| "esc_dec_len (x # xs) =
     (if x \<noteq> CHR 0x5C then on_ok Suc (esc_dec_len xs)
      else
        (case xs of
           a # b # c # r \<Rightarrow>
             (case octal_val a b c of
                Some v \<Rightarrow> on_ok Suc (esc_dec_len r)
              | None \<Rightarrow> if a = CHR 0x5C then on_ok Suc (esc_dec_len (b # c # r)) else Inl InvalidEscape)
         | a # r \<Rightarrow> if a = CHR 0x5C then on_ok Suc (esc_dec_len r) else Inl InvalidEscape
         | [] \<Rightarrow> Inl InvalidEscape))"

section \<open>The table of encodings and the SQL functions\<close>

record pg_encoding =
  encode_len :: "bytes \<Rightarrow> nat"
  decode_len :: "bytes \<Rightarrow> codec_error + nat"
  encode :: "bytes \<Rightarrow> bytes"
  decode :: "bytes \<Rightarrow> codec_error + bytes"

definition hex_encoding :: pg_encoding where
  "hex_encoding = \<lparr> encode_len = hex_enc_len, decode_len = hex_dec_len, encode = hex_encode, decode = hex_decode \<rparr>"

definition base64_encoding :: pg_encoding where
  "base64_encoding = \<lparr> encode_len = pg_base64_enc_len, decode_len = pg_base64_dec_len, encode = pg_base64_encode,
     decode = pg_base64_decode \<rparr>"

definition escape_encoding :: pg_encoding where
  "escape_encoding = \<lparr> encode_len = esc_enc_len, decode_len = esc_dec_len, encode = esc_encode, decode = esc_decode \<rparr>"

definition enclist :: "(string \<times> pg_encoding) list" where
  "enclist = [(''hex'', hex_encoding), (''base64'', base64_encoding), (''escape'', escape_encoding)]"

definition pg_strcaseeq :: "bytes \<Rightarrow> bytes \<Rightarrow> bool" where
  "pg_strcaseeq s t \<longleftrightarrow> map c_tolower s = map c_tolower t"

definition pg_find_encoding :: "bytes \<Rightarrow> pg_encoding option" where
  "pg_find_encoding name = map_option snd (find (\<lambda>(n, _). pg_strcaseeq n name) enclist)"

definition MaxResult :: nat where "MaxResult = 0x3fffffff - 4"

definition run_encode :: "pg_encoding \<Rightarrow> bytes \<Rightarrow> codec_error + bytes" where
  "run_encode enc data =
     (let resultlen = encode_len enc data; res = encode enc data in
      if resultlen > MaxResult then Inl ResultTooLarge
      else if length res > resultlen then Inl EstimateTooSmall
      else Inr res)"

definition run_decode :: "pg_encoding \<Rightarrow> bytes \<Rightarrow> codec_error + bytes" where
  "run_decode enc data =
     (case decode_len enc data of
        Inl e \<Rightarrow> Inl e
      | Inr resultlen \<Rightarrow>
          if resultlen > MaxResult then Inl ResultTooLarge
          else
            (case decode enc data of
               Inl e \<Rightarrow> Inl e
             | Inr res \<Rightarrow> if length res > resultlen then Inl EstimateTooSmall else Inr res))"

definition binary_encode :: "bytes \<Rightarrow> bytes \<Rightarrow> codec_error + bytes" where
  "binary_encode data name =
     (case pg_find_encoding name of None \<Rightarrow> Inl UnknownEncoding | Some enc \<Rightarrow> run_encode enc data)"

definition binary_decode :: "bytes \<Rightarrow> bytes \<Rightarrow> codec_error + bytes" where
  "binary_decode data name =
     (case pg_find_encoding name of None \<Rightarrow> Inl UnknownEncoding | Some enc \<Rightarrow> run_decode enc data)"

section \<open>The contract of an encoding\<close>

text \<open>What the SQL functions rely on: decoding inverts encoding, and the length estimates are not too
  small; an estimate is an error exactly if the conversion is.\<close>

locale codec =
  fixes e :: pg_encoding
  assumes dec_enc: "decode e (encode e x) = Inr x"
    and enc_fits: "length (encode e x) \<le> encode_len e x"
    and dec_fits: "decode e y = Inr x \<Longrightarrow> \<exists>n. decode_len e y = Inr n \<and> length x \<le> n"
    and dec_len_le: "decode_len e y = Inr n \<Longrightarrow> n \<le> length y"
    and own_errors: "decode e y \<noteq> Inl EstimateTooSmall" "decode_len e y \<noteq> Inl EstimateTooSmall"
begin

lemma no_encode_overrun: "run_encode e x \<noteq> Inl EstimateTooSmall"
  using enc_fits [of x] by (simp add: run_encode_def Let_def)

lemma no_decode_overrun: "run_decode e y \<noteq> Inl EstimateTooSmall"
  using dec_fits [of y] own_errors [of y] by (auto simp: run_decode_def split: sum.splits)

lemma run_roundtrip:
  assumes "run_encode e x = Inr y" shows "run_decode e y = Inr x"
proof -
  have y: "y = encode e x" "length y \<le> MaxResult"
    using assms enc_fits [of x] by (auto simp: run_encode_def Let_def split: if_splits)
  obtain n where "decode_len e y = Inr n" "length x \<le> n"
    using dec_fits [OF dec_enc [of x]] y by auto
  then show ?thesis
    using dec_len_le [of y n] dec_enc [of x] y by (simp add: run_decode_def)
qed

end

subsection \<open>Hexadecimal\<close>

lemma hex_table: "list_all (\<lambda>n. get_hex (hextbl ! n) = Inr n \<and> \<not> is_blank (hextbl ! n)) [0..<16]"
  by code_simp

lemma hex_digit: "n < 16 \<Longrightarrow> get_hex (hextbl ! n) = Inr n" "n < 16 \<Longrightarrow> \<not> is_blank (hextbl ! n)"
  using hex_table by (simp_all add: list_all_iff)

lemma and_mod: "(n :: nat) AND 0xF = n mod 16" "(n :: nat) AND 0x3f = n mod 64" "(n :: nat) AND 7 = n mod 8"
  "(n :: nat) AND 255 = n mod 256"
  using take_bit_eq_mask [of 4 n] take_bit_eq_mask [of 6 n] take_bit_eq_mask [of 3 n] take_bit_eq_mask [of 8 n]
  by (simp_all add: take_bit_nat_def mask_eq_exp_minus_1)

lemma shifts: "drop_bit k (n :: nat) = n div 2 ^ k" "push_bit k (n :: nat) = n * 2 ^ k"
  by (simp_all add: drop_bit_nat_def push_bit_nat_def)

lemma push_or_add:
  assumes "b < 2 ^ k" shows "push_bit k (a :: nat) OR b = push_bit k a + b"
proof -
  have "push_bit k a AND take_bit k b = 0" by (auto simp: bit_eq_iff bit_simps)
  moreover have "take_bit k b = b" by (rule take_bit_nat_eq_self [OF assms])
  ultimately have "push_bit k a AND b = 0" by simp
  then show ?thesis by (rule disjunctive_add_eq_or [symmetric])
qed

lemma nibbles: "n < 256 \<Longrightarrow> push_bit 4 (drop_bit 4 n AND 0xF) OR (n AND 0xF) = (n :: nat)"
proof -
  assume "n < 256"
  then have "drop_bit 4 n AND 0xF = n div 16" by (simp add: and_mod shifts)
  moreover have "push_bit 4 (n div 16) OR (n AND 0xF) = push_bit 4 (n div 16) + n mod 16"
    unfolding and_mod by (rule push_or_add) simp
  ultimately show ?thesis by (simp add: shifts)
qed

lemma hex_encode_simps [simp]:
  "hex_encode [] = []"
  "hex_encode (c # x) = hextbl ! (drop_bit 4 (of_char c) AND 0xF) # hextbl ! (of_char c AND 0xF) # hex_encode x"
  by (simp_all add: hex_encode_def Let_def)

lemma hex_roundtrip: "hex_decode (hex_encode x) = Inr x"
proof (induction x)
  case (Cons c x)
  have "(drop_bit 4 (of_char c) :: nat) AND 0xF < 16" "(of_char c :: nat) AND 0xF < 16"
    by (simp_all add: and_mod)
  with Cons show ?case using nibbles [of "of_char c"] by (simp add: hex_digit)
qed simp

lemma length_hex_encode: "length (hex_encode x) = 2 * length x"
  by (induction x) simp_all

lemma hex_decode_length: "hex_decode y = Inr x \<Longrightarrow> 2 * length x \<le> length y"
proof (induction y arbitrary: x rule: hex_decode.induct)
  case (2 c cs)
  show ?case
  proof (cases "is_blank c")
    case True
    then show ?thesis using 2(1) [OF True, of x] 2(3) by simp
  next
    case False
    then obtain v1 d ds v2 x' where v: "get_hex c = Inr v1" "cs = d # ds" "get_hex d = Inr v2" "hex_decode ds = Inr x'"
        "length x = Suc (length x')"
      using 2(3) by (auto split: sum.splits list.splits dest!: on_ok_Inr)
    then show ?thesis using 2(2) [OF False v(1-3) v(4)] by simp
  qed
qed simp

lemma hex_decode_error: "hex_decode y \<noteq> Inl EstimateTooSmall"
  by (induction y rule: hex_decode.induct) (auto simp: get_hex_def Let_def split: list.splits sum.splits if_splits)

interpretation hex_codec: codec hex_encoding
proof
  fix x y n
  show "decode hex_encoding (encode hex_encoding x) = Inr x"
    by (simp add: hex_encoding_def hex_roundtrip)
  show "length (encode hex_encoding x) \<le> encode_len hex_encoding x"
    by (simp add: hex_encoding_def hex_enc_len_def length_hex_encode shifts)
  show "\<exists>n. decode_len hex_encoding y = Inr n \<and> length x \<le> n" if "decode hex_encoding y = Inr x"
    using that hex_decode_length [of y x] by (simp add: hex_encoding_def hex_dec_len_def shifts)
  show "n \<le> length y" if "decode_len hex_encoding y = Inr n"
    using that by (auto simp: hex_encoding_def hex_dec_len_def shifts)
  show "decode hex_encoding y \<noteq> Inl EstimateTooSmall" "decode_len hex_encoding y \<noteq> Inl EstimateTooSmall"
    by (simp_all add: hex_encoding_def hex_decode_error hex_dec_len_def)
qed

subsection \<open>Escape\<close>

lemma octal_val_digits:
  "a < 4 \<Longrightarrow> b < 8 \<Longrightarrow> c < 8 \<Longrightarrow> octal_val (digit_char a) (digit_char b) (digit_char c) = Some ((a * 8 + b) * 8 + c)"
  by (simp add: octal_val_def less_eq_char_def of_char_digit_char shifts)

lemma octal_digits: "(c div 64 * 8 + c div 8 mod 8) * 8 + c mod 8 = (c :: nat)"
proof -
  have "c div 64 * 8 + c div 8 mod 8 = c div 8"
    using div_mult_mod_eq [of "c div 8" 8] by (simp add: div_mult2_eq [symmetric])
  then show ?thesis by simp
qed

lemma octal_val_backslash: "octal_val (CHR 0x5C) b c = None"
  by (simp add: octal_val_def less_eq_char_def)

lemma esc_decode_backslash: "esc_decode (CHR 0x5C # CHR 0x5C # r) = on_ok (\<lambda>r. CHR 0x5C # r) (esc_decode r)"
proof -
  consider "r = []" | b where "r = [b]" | b c r' where "r = b # c # r'"
    by (metis list.exhaust)
  then show ?thesis by cases (simp_all add: octal_val_backslash)
qed

lemma esc_byte_decoded: "esc_decode (esc_byte ch @ r) = on_ok (\<lambda>r. ch # r) (esc_decode r)"
proof -
  let ?c = "of_char ch :: nat"
  have c: "?c < 256" by simp
  consider "?c = 0 \<or> 128 \<le> ?c" | "ch = CHR 0x5C" | "\<not> (?c = 0 \<or> 128 \<le> ?c)" "ch \<noteq> CHR 0x5C" by blast
  then show ?thesis
  proof cases
    case 1
    have "n < 256 \<Longrightarrow> n div 64 < 4" for n :: nat by (simp add: less_mult_imp_div_less)
    with c have d: "?c div 64 < 4" "?c div 8 mod 8 < 8" "?c mod 8 < 8" by auto
    have "octal_val (digit_char (?c div 64)) (digit_char (?c div 8 mod 8)) (digit_char (?c mod 8)) = Some ?c"
      unfolding octal_val_digits [OF d] octal_digits ..
    moreover have "esc_byte ch = [CHR 0x5C, digit_char (?c div 64), digit_char (?c div 8 mod 8), digit_char (?c mod 8)]"
      using 1 by (simp add: esc_byte_def Let_def shifts and_mod)
    ultimately show ?thesis by simp
  next
    case 2
    then show ?thesis by (simp add: esc_byte_def Let_def esc_decode_backslash del: esc_decode.simps)
  next
    case 3
    then show ?thesis by (simp add: esc_byte_def Let_def)
  qed
qed

lemma esc_roundtrip: "esc_decode (esc_encode x) = Inr x"
  by (induction x) (simp_all add: esc_encode_def esc_byte_decoded)

lemma esc_enc_len_exact: "esc_enc_len x = length (esc_encode x)"
proof (induction x)
  case (Cons c x)
  have "(of_char c :: nat) = of_char NUL \<longleftrightarrow> c = NUL" by (rule of_char_eq_iff)
  then show ?case using Cons by (simp add: esc_enc_len_def esc_encode_def esc_byte_def Let_def)
qed (simp add: esc_enc_len_def esc_encode_def)

lemma esc_eqs:
  "esc_decode [] = Inr []" "x \<noteq> CHR 0x5C \<Longrightarrow> esc_decode (x # xs) = on_ok (\<lambda>r. x # r) (esc_decode xs)"
  "esc_decode [CHR 0x5C] = Inl InvalidEscape"
  "esc_decode [CHR 0x5C, a] = (if a = CHR 0x5C then Inr [CHR 0x5C] else Inl InvalidEscape)"
  "esc_decode [CHR 0x5C, a, b] = (if a = CHR 0x5C then on_ok (\<lambda>r. CHR 0x5C # r) (esc_decode [b]) else Inl InvalidEscape)"
  "esc_decode (CHR 0x5C # a # b # c # r) =
     (case octal_val a b c of
        Some v \<Rightarrow> on_ok (\<lambda>r. char_of v # r) (esc_decode r)
      | None \<Rightarrow> if a = CHR 0x5C then on_ok (\<lambda>r. CHR 0x5C # r) (esc_decode (b # c # r)) else Inl InvalidEscape)"
  "esc_dec_len [] = Inr 0" "x \<noteq> CHR 0x5C \<Longrightarrow> esc_dec_len (x # xs) = on_ok Suc (esc_dec_len xs)"
  "esc_dec_len [CHR 0x5C] = Inl InvalidEscape"
  "esc_dec_len [CHR 0x5C, a] = (if a = CHR 0x5C then Inr 1 else Inl InvalidEscape)"
  "esc_dec_len [CHR 0x5C, a, b] = (if a = CHR 0x5C then on_ok Suc (esc_dec_len [b]) else Inl InvalidEscape)"
  "esc_dec_len (CHR 0x5C # a # b # c # r) =
     (case octal_val a b c of
        Some v \<Rightarrow> on_ok Suc (esc_dec_len r)
      | None \<Rightarrow> if a = CHR 0x5C then on_ok Suc (esc_dec_len (b # c # r)) else Inl InvalidEscape)"
  by simp_all

lemma esc_shapes:
  obtains "y = []" | x xs where "y = x # xs" "x \<noteq> CHR 0x5C" | "y = [CHR 0x5C]" | a where "y = [CHR 0x5C, a]"
    | a b where "y = [CHR 0x5C, a, b]" | a b c r where "y = CHR 0x5C # a # b # c # r"
  by (metis list.exhaust)

lemma length_on_ok: "on_ok length (on_ok (\<lambda>r. x # r) s) = on_ok Suc (on_ok length s)"
  by (cases s) simp_all

lemma esc_dec_len_exact: "esc_dec_len y = on_ok length (esc_decode y)"
proof (induction y rule: length_induct)
  case (1 y)
  then have IH: "length z < length y \<Longrightarrow> esc_dec_len z = on_ok length (esc_decode z)" for z by blast
  show ?case
  proof (cases y rule: esc_shapes)
    case (6 a b c r)
    then have "esc_dec_len r = on_ok length (esc_decode r)"
      "esc_dec_len (b # c # r) = on_ok length (esc_decode (b # c # r))"
      by (intro IH; simp)+
    then show ?thesis
      unfolding 6 esc_eqs by (cases "octal_val a b c") (simp_all add: length_on_ok del: esc_decode.simps(2) esc_dec_len.simps(2))
  qed (use IH in \<open>simp_all add: esc_eqs length_on_ok del: esc_decode.simps(2) esc_dec_len.simps(2)\<close>)
qed

lemma esc_decode_length: "esc_decode y = Inr x \<Longrightarrow> length x \<le> length y"
proof (induction y arbitrary: x rule: length_induct)
  case (1 y)
  then have IH: "length z < length y \<Longrightarrow> esc_decode z = Inr x \<Longrightarrow> length x \<le> length z" for z x by blast
  show ?case
  proof (cases y rule: esc_shapes)
    case (6 a b c r)
    have "\<exists>z x'. length z < length y \<and> esc_decode z = Inr x' \<and> length x = Suc (length x')"
    proof (cases "octal_val a b c")
      case None
      with 1(2) 6 obtain x' where "esc_decode (b # c # r) = Inr x'" "x = CHR 0x5C # x'"
        by (auto simp: esc_eqs split: if_splits dest!: on_ok_Inr simp del: esc_decode.simps(2))
      then show ?thesis using 6 by (intro exI [of _ "b # c # r"] exI [of _ x']) (simp del: esc_decode.simps(2))
    next
      case (Some v)
      with 1(2) 6 obtain x' where "esc_decode r = Inr x'" "x = char_of v # x'"
        by (auto simp: esc_eqs dest!: on_ok_Inr simp del: esc_decode.simps(2))
      then show ?thesis using 6 by (intro exI [of _ r] exI [of _ x']) (simp del: esc_decode.simps(2))
    qed
    then obtain z x' where "length z < length y" "esc_decode z = Inr x'" "length x = Suc (length x')" by blast
    then show ?thesis using IH [of z x'] by simp
  next
    case (2 c xs)
    then show ?thesis using 1(2) IH [of xs] by (auto simp: esc_eqs simp del: esc_decode.simps(2) dest!: on_ok_Inr)
  next
    case (5 a b)
    then show ?thesis using 1(2) IH [of "[b]"] by (auto simp: esc_eqs simp del: esc_decode.simps(2) dest!: on_ok_Inr split: if_splits)
  qed (use 1(2) in \<open>auto simp: esc_eqs simp del: esc_decode.simps(2) split: if_splits\<close>)
qed

lemma esc_decode_error: "esc_decode y \<noteq> Inl EstimateTooSmall"
  by (induction y rule: esc_decode.induct) (auto split: list.splits option.splits)

interpretation escape_codec: codec escape_encoding
proof
  fix x y n
  show "decode escape_encoding (encode escape_encoding x) = Inr x"
    by (simp add: escape_encoding_def esc_roundtrip)
  show "length (encode escape_encoding x) \<le> encode_len escape_encoding x"
    by (simp add: escape_encoding_def esc_enc_len_exact)
  show "\<exists>n. decode_len escape_encoding y = Inr n \<and> length x \<le> n" if "decode escape_encoding y = Inr x"
    using that by (simp add: escape_encoding_def esc_dec_len_exact)
  show "n \<le> length y" if "decode_len escape_encoding y = Inr n"
    using that by (auto simp: escape_encoding_def esc_dec_len_exact dest!: on_ok_Inr esc_decode_length)
  show "decode escape_encoding y \<noteq> Inl EstimateTooSmall" "decode_len escape_encoding y \<noteq> Inl EstimateTooSmall"
    by (simp_all add: escape_encoding_def esc_dec_len_exact esc_decode_error)
qed

subsection \<open>Base64\<close>

lemma b64_table:
  "list_all2 (\<lambda>n c. b64_value c = int n \<and> \<not> is_blank c \<and> c \<noteq> CHR ''='') [0..<64] base64"
  by code_simp

lemma b64_symbol:
  assumes "n < 64"
  shows "b64_value (base64 ! n) = int n" "\<not> is_blank (base64 ! n)" "base64 ! n \<noteq> CHR ''=''"
  using list_all2_nthD [OF b64_table, of n] assms by simp_all

definition sextet :: "nat \<Rightarrow> nat \<Rightarrow> nat" where "sextet x n = x div 2 ^ n mod 64"

lemma sextet_less: "sextet x n < 64"
  by (simp add: sextet_def)

lemma b64_digit_alt: "b64_digit x n = base64 ! sextet x n"
  by (simp add: b64_digit_def and_mod shifts sextet_def)

lemma b64_dec_digit:
  "b64_dec (b64_digit x n # cs) buf pos pad =
     (let buf1 = buf * 64 + sextet x n in
      if pos = 3 then on_ok (\<lambda>r. b64_out buf1 pad @ r) (b64_dec cs 0 0 pad) else b64_dec cs buf1 (pos + 1) pad)"
  by (simp add: b64_digit_alt b64_symbol sextet_less shifts Let_def)

lemma b64_dec_pad:
  "b64_dec (CHR ''='' # cs) buf 2 0 = b64_dec cs (buf * 64) 3 1"
  "b64_dec (CHR ''='' # cs) buf 3 0 = on_ok (\<lambda>r. b64_out (buf * 64) 2 @ r) (b64_dec cs 0 0 2)"
  "b64_dec (CHR ''='' # cs) buf 3 1 = on_ok (\<lambda>r. b64_out (buf * 64) 1 @ r) (b64_dec cs 0 0 1)"
  "b64_dec (CHR 0x0A # cs) buf pos pad = b64_dec cs buf pos pad"
  by (simp_all add: is_blank_def shifts Let_def)

declare b64_dec.simps(2) [simp del]

text \<open>The 24 bits of a group: three bytes, or four symbols.\<close>

definition bits24 :: "nat \<Rightarrow> nat \<Rightarrow> nat \<Rightarrow> nat" where
  "bits24 a b c = a * 65536 + b * 256 + c"

lemma group_or:
  assumes "b < 256" "c < 256"
  shows "push_bit 16 a OR push_bit 8 b = bits24 a b 0" "bits24 a b 0 OR c = bits24 a b c"
proof -
  have "push_bit 16 a OR push_bit 8 b = push_bit 16 a + push_bit 8 b"
    using assms by (intro push_or_add) (simp add: shifts)
  then show ab: "push_bit 16 a OR push_bit 8 b = bits24 a b 0" by (simp add: shifts bits24_def)
  have "bits24 a b 0 = push_bit 8 (a * 256 + b)" by (simp add: shifts bits24_def algebra_simps)
  moreover have "push_bit 8 (a * 256 + b) OR c = push_bit 8 (a * 256 + b) + c"
    using assms by (intro push_or_add) simp
  ultimately show "bits24 a b 0 OR c = bits24 a b c" by (simp add: shifts bits24_def algebra_simps)
qed

lemma group_bytes:
  assumes "a < 256" "b < 256" "c < 256"
  shows "bits24 a b c div 65536 mod 256 = a" "bits24 a b c div 256 mod 256 = b" "bits24 a b c mod 256 = c"
proof -
  have g: "bits24 a b c = c + 256 * (b + 256 * a)" by (simp add: bits24_def)
  have d: "bits24 a b c div 256 = b + 256 * a" unfolding g using assms by simp
  have "bits24 a b c div 65536 = bits24 a b c div 256 div 256" by (simp add: div_mult2_eq [symmetric])
  then show "bits24 a b c div 65536 mod 256 = a" using d assms by simp
  show "bits24 a b c div 256 mod 256 = b" unfolding d using assms by simp
  show "bits24 a b c mod 256 = c" unfolding g mod_mult_self2 using assms by simp
qed

lemma symbols_group:
  assumes "x < 2 ^ 24"
  shows "((sextet x 18 * 64 + sextet x 12) * 64 + sextet x 6) * 64 + sextet x 0 = x"
proof -
  have step: "n div 64 * 64 + n mod 64 = (n :: nat)" for n by (rule div_mult_mod_eq)
  have d: "x div 2 ^ 6 div 64 = x div 2 ^ 12" "x div 2 ^ 12 div 64 = x div 2 ^ 18" "x div 64 = x div 2 ^ 6"
    by (simp_all add: div_mult2_eq [symmetric])
  have s: "sextet x 18 = x div 2 ^ 18" "sextet x 12 = x div 2 ^ 12 mod 64" "sextet x 6 = x div 2 ^ 6 mod 64" "sextet x 0 = x mod 64"
    unfolding sextet_def using assms by (simp_all add: less_mult_imp_div_less)
  show ?thesis
    unfolding s using step [of x] step [of "x div 2 ^ 6"] step [of "x div 2 ^ 12"] unfolding d by metis
qed

lemma group_less: "a < 256 \<Longrightarrow> b < 256 \<Longrightarrow> c < 256 \<Longrightarrow> bits24 a b c < 2 ^ 24"
  by (simp add: bits24_def)

lemma b64_out_group:
  "a < 256 \<Longrightarrow> b < 256 \<Longrightarrow> c < 256 \<Longrightarrow> b64_out (bits24 a b c) pad =
     [char_of a] @ (if pad = 0 \<or> pad > 1 then [char_of b] else []) @ (if pad = 0 \<or> pad > 2 then [char_of c] else [])"
  using group_bytes [of a b c] by (simp add: b64_out_def and_mod shifts)

definition symbols :: "nat \<Rightarrow> bytes" where
  "symbols x = [b64_digit x 18, b64_digit x 12, b64_digit x 6, b64_digit x 0]"

lemma b64_enc_group:
  assumes "col < 76"
  shows "b64_enc (a # b # c # r) 2 0 col = symbols (bits24 (of_char a) (of_char b) (of_char c))
     @ (if 76 \<le> col + 4 then [CHR 0x0A] @ b64_enc r 2 0 0 else b64_enc r 2 0 (col + 4))"
proof -
  have "0 OR push_bit (8 * 2) (of_char a) = push_bit 16 (of_char a :: nat)" by simp
  moreover have "(of_char b :: nat) < 256" "(of_char c :: nat) < 256" by simp_all
  ultimately show ?thesis
    using assms group_or [of "of_char b" "of_char c" "of_char a"]
    by (simp add: symbols_def Let_def numeral_2_eq_2 [symmetric])
qed

lemma b64_dec_group:
  assumes "x < 2 ^ 24"
  shows "b64_dec (symbols x @ r) 0 0 0 = on_ok (\<lambda>t. b64_out x 0 @ t) (b64_dec r 0 0 0)"
  using symbols_group [OF assms] by (simp add: symbols_def b64_dec_digit Let_def)

lemma b64_roundtrip_loop: "col < 76 \<Longrightarrow> b64_dec (b64_enc x 2 0 col) 0 0 0 = Inr x"
proof (induction x arbitrary: col rule: length_induct)
  case (1 x)
  consider "x = []" | a where "x = [a]" | a b where "x = [a, b]" | a b c r where "x = a # b # c # r"
    by (metis list.exhaust)
  then show ?case
  proof cases
    case 1
    then show ?thesis by simp
  next
    case (2 a)
    let ?x = "bits24 (of_char a) 0 0"
    have e: "b64_enc x 2 0 col = [b64_digit ?x 18, b64_digit ?x 12, CHR ''='', CHR ''='']"
      using 2 1(2) by (simp add: Let_def bits24_def shifts)
    have z: "sextet ?x 6 = 0" "sextet ?x 0 = 0" by (simp_all add: bits24_def sextet_def)
    have "b64_out ((sextet ?x 18 * 64 + sextet ?x 12) * 64 * 64) 1 = [a]"
      using symbols_group [OF group_less, of "of_char a" 0 0] b64_out_group [of "of_char a" 0 0 1] z by simp
    then show ?thesis unfolding e by (simp add: b64_dec_digit b64_dec_pad b64_dec_pad [unfolded One_nat_def] numeral_2_eq_2 [symmetric] numeral_3_eq_3 [symmetric] 2 Let_def)
  next
    case (3 a b)
    let ?x = "bits24 (of_char a) (of_char b) 0"
    have e: "b64_enc x 2 0 col = [b64_digit ?x 18, b64_digit ?x 12, b64_digit ?x 6, CHR ''='']"
      using 3 1(2) group_or [of "of_char b" 0 "of_char a"] by (simp add: Let_def)
    have z: "sextet ?x 0 = 0" by (simp add: bits24_def sextet_def)
    have "b64_out (((sextet ?x 18 * 64 + sextet ?x 12) * 64 + sextet ?x 6) * 64) 2 = [a, b]"
      using symbols_group [OF group_less, of "of_char a" "of_char b" 0] b64_out_group [of "of_char a" "of_char b" 0 2] z
      by simp
    then show ?thesis unfolding e by (simp add: b64_dec_digit b64_dec_pad numeral_2_eq_2 [symmetric] numeral_3_eq_3 [symmetric] 3 Let_def)
  next
    case (4 a b c r)
    have IH: "b64_dec (b64_enc r 2 0 col') 0 0 0 = Inr r" if "col' < 76" for col'
      using 1(1) 4 that by simp
    have "b64_dec (if 76 \<le> col + 4 then [CHR 0x0A] @ b64_enc r 2 0 0 else b64_enc r 2 0 (col + 4)) 0 0 0 = Inr r"
      using IH [of 0] IH [of "col + 4"] by (simp add: b64_dec_pad)
    then show ?thesis
      using b64_enc_group [OF 1(2), of a b c r] b64_dec_group [OF group_less, of "of_char a" "of_char b" "of_char c"]
        b64_out_group [of "of_char a" "of_char b" "of_char c" 0] 4 by simp
  qed
qed

lemma group_count: "(n + 3 + 2) div 3 * 4 = 4 + (n + 2) div 3 * (4 :: nat)" "(n + 3) div 3 * 4 = 4 + n div 3 * (4 :: nat)"
proof -
  have "(n + 3 + 2) div 3 = Suc ((n + 2) div 3)" "(n + 3) div 3 = Suc (n div 3)"
    using div_add_self2 [of 3 "n + 2"] div_add_self2 [of 3 n] by (simp_all add: add.assoc add.commute)
  then show "(n + 3 + 2) div 3 * 4 = 4 + (n + 2) div 3 * (4 :: nat)" "(n + 3) div 3 * 4 = 4 + n div 3 * (4 :: nat)"
    by simp_all
qed

lemma line_count: "76 \<le> col + 4 \<Longrightarrow> 1 + m div 76 \<le> (col + (4 + m)) div (76 :: nat)"
  using div_le_mono [of "76 + m" "col + (4 + m)" 76] by simp

lemma group_sum: "l \<le> g + q \<Longrightarrow> 1 + q \<le> q' \<Longrightarrow> 5 + l \<le> 4 + g + (q' :: nat)" "l \<le> g + q \<Longrightarrow> 4 + l \<le> 4 + g + (q :: nat)"
  by simp_all

lemma b64_enc_length:
  "col < 76 \<Longrightarrow> length (b64_enc x 2 0 col) \<le> (length x + 2) div 3 * 4 + (col + length x div 3 * 4) div 76"
proof (induction x arbitrary: col rule: length_induct)
  case (1 x)
  consider "x = []" | a where "x = [a]" | a b where "x = [a, b]" | a b c r where "x = a # b # c # r"
    by (metis list.exhaust)
  then show ?case
  proof cases
    case (4 a b c r)
    have IH: "length (b64_enc r 2 0 col') \<le> (length r + 2) div 3 * 4 + (col' + length r div 3 * 4) div 76"
      if "col' < 76" for col' by (rule 1(1) [rule_format]) (use 4 that in simp_all)
    have n: "length x = length r + 3" using 4 by simp
    have len: "(length x + 2) div 3 * 4 = 4 + (length r + 2) div 3 * 4" "length x div 3 * 4 = 4 + length r div 3 * 4"
      unfolding n by (rule group_count)+
    show ?thesis
    proof (cases "76 \<le> col + 4")
      case True
      then have "length (b64_enc x 2 0 col) = 5 + length (b64_enc r 2 0 0)"
        unfolding 4 b64_enc_group [OF 1(2)] by (simp add: symbols_def)
      then show ?thesis
        unfolding len using group_sum(1) [OF IH [of 0] line_count [OF True, of "0 + length r div 3 * 4"]] by simp
    next
      case False
      then have "length (b64_enc x 2 0 col) = 4 + length (b64_enc r 2 0 (col + 4))"
        unfolding 4 b64_enc_group [OF 1(2)] by (simp add: symbols_def)
      then show ?thesis
        unfolding len using group_sum(2) [OF IH [of "col + 4"]] False by (simp add: add.assoc)
    qed
  next
    case (2 a)
    then have "length (b64_enc x 2 0 col) = 4" using 1(2) by (simp add: Let_def)
    then show ?thesis using 2 by simp
  next
    case (3 a b)
    then have "length (b64_enc x 2 0 col) = 4" using 1(2) by (simp add: Let_def)
    then show ?thesis using 3 by simp
  qed simp
qed

lemma b64_dec_cons:
  assumes "b64_dec (c # cs) buf pos pad = Inr x" "pos < 4"
  shows "(\<exists>buf' pos' pad'. b64_dec cs buf' pos' pad' = Inr x \<and> pos' < 4 \<and> pos' \<le> pos + 1) \<or>
    (\<exists>buf' pad' x'. pos = 3 \<and> b64_dec cs 0 0 pad' = Inr x' \<and> x = b64_out buf' pad' @ x')"
proof (cases "is_blank c")
  case True
  then have "b64_dec cs buf pos pad = Inr x" using assms(1) by (simp add: b64_dec.simps(2))
  moreover have "pos < 4 \<and> pos \<le> pos + 1" using assms(2) by simp
  ultimately show ?thesis by blast
next
  case False
  define then_read where "then_read buf' pad' =
    (if pos = 3 then on_ok (\<lambda>r. b64_out buf' pad' @ r) (b64_dec cs 0 0 pad') else b64_dec cs buf' (pos + 1) pad')"
    for buf' pad'
  have "\<exists>buf' pad'. then_read buf' pad' = Inr x"
  proof (cases "c = CHR ''=''")
    case True
    then show ?thesis
      using assms(1) False unfolding b64_dec.simps(2) Let_def then_read_def [symmetric] by (auto split: if_split_asm)
  next
    case c: False
    then show ?thesis
      using assms(1) False unfolding b64_dec.simps(2) Let_def then_read_def [symmetric] by (auto split: if_split_asm)
  qed
  then obtain buf' pad' where r: "then_read buf' pad' = Inr x" by blast
  show ?thesis
  proof (cases "pos = 3")
    case True
    then obtain x' where "b64_dec cs 0 0 pad' = Inr x'" "x = b64_out buf' pad' @ x'"
      using r on_ok_Inr unfolding then_read_def by fastforce
    then show ?thesis using True by blast
  next
    case False
    then have "b64_dec cs buf' (pos + 1) pad' = Inr x" using r by (simp add: then_read_def)
    moreover have "pos + 1 < 4 \<and> pos + 1 \<le> pos + 1" using assms(2) False by simp
    ultimately show ?thesis by blast
  qed
qed

lemma b64_out_length: "length (b64_out buf pad) \<le> 3"
  by (simp add: b64_out_def)

lemma b64_dec_length: "b64_dec y buf pos pad = Inr x \<Longrightarrow> pos < 4 \<Longrightarrow> 4 * length x \<le> 3 * (pos + length y)"
proof (induction y arbitrary: buf pos pad x)
  case (Cons c cs)
  from b64_dec_cons [OF Cons.prems] show ?case
  proof (elim disjE exE conjE)
    fix buf' pos' pad'
    assume "b64_dec cs buf' pos' pad' = Inr x" "pos' < 4" "pos' \<le> pos + 1"
    then show ?thesis using Cons.IH [of buf' pos' pad' x] by simp
  next
    fix buf' pad' x'
    assume "pos = 3" "b64_dec cs 0 0 pad' = Inr x'" "x = b64_out buf' pad' @ x'"
    then show ?thesis using Cons.IH [of 0 0 pad' x'] b64_out_length [of buf' pad'] by simp
  qed
qed (simp split: if_splits)

lemma dec_len_arith: "drop_bit 2 (n * 3) \<le> (n :: nat)" "4 * k \<le> 3 * n \<Longrightarrow> k \<le> drop_bit 2 (n * 3)"
  by (auto simp: shifts)

lemma b64_dec_error: "b64_dec y buf pos pad \<noteq> Inl EstimateTooSmall"
  by (induction y arbitrary: buf pos pad) (simp_all add: b64_dec.simps(2) Let_def)

lemma div3_mult4: "m div 3 * 4 \<le> m * 4 div (3 :: nat)"
proof -
  have "m div 3 * 3 \<le> m" by simp
  then have "m div 3 * 4 * 3 \<le> m * 4" by linarith
  then show ?thesis by (simp only: less_eq_div_iff_mult_less_eq zero_less_numeral)
qed

lemma div3_lines: "n div 3 * 4 div 76 = n div (57 :: nat)"
proof -
  have "n div 3 * 4 div (19 * 4) = n div 3 div 19" by (rule div_mult_mult2) simp
  also have "\<dots> = n div (3 * 19)" by (rule div_mult2_eq [symmetric])
  finally show ?thesis by simp
qed

lemma b64_estimate: "length (b64_enc x 2 0 0) \<le> (length x + 2) * 4 div 3 + length x div 57"
proof -
  have "length (b64_enc x 2 0 0) \<le> (length x + 2) div 3 * 4 + (0 + length x div 3 * 4) div 76"
    by (rule b64_enc_length) simp
  also have "\<dots> \<le> (length x + 2) * 4 div 3 + length x div 57"
    unfolding add_0 div3_lines by (intro add_mono div3_mult4 order_refl)
  finally show ?thesis .
qed

interpretation base64_codec: codec base64_encoding
proof
  fix x y n
  show "decode base64_encoding (encode base64_encoding x) = Inr x"
    by (simp add: base64_encoding_def pg_base64_decode_def pg_base64_encode_def b64_roundtrip_loop)
  show "length (encode base64_encoding x) \<le> encode_len base64_encoding x"
    unfolding base64_encoding_def pg_base64_encode_def pg_base64_enc_len_def using b64_estimate [of x] by simp
  show "\<exists>n. decode_len base64_encoding y = Inr n \<and> length x \<le> n" if "decode base64_encoding y = Inr x"
    using that b64_dec_length [of y 0 0 0 x] dec_len_arith(2)
    by (simp add: base64_encoding_def pg_base64_decode_def pg_base64_dec_len_def)
  show "n \<le> length y" if "decode_len base64_encoding y = Inr n"
    using that dec_len_arith(1) by (auto simp: base64_encoding_def pg_base64_dec_len_def)
  show "decode base64_encoding y \<noteq> Inl EstimateTooSmall" "decode_len base64_encoding y \<noteq> Inl EstimateTooSmall"
    by (simp_all add: base64_encoding_def pg_base64_decode_def pg_base64_dec_len_def b64_dec_error)
qed

section \<open>The SQL functions\<close>

lemma find_encoding_cases:
  assumes "pg_find_encoding name = Some e"
  shows "e \<in> {hex_encoding, base64_encoding, escape_encoding}"
  using assms by (auto simp: pg_find_encoding_def enclist_def split: if_splits)

lemma every_encoding_codec: "pg_find_encoding name = Some e \<Longrightarrow> codec e"
  using find_encoding_cases hex_codec.codec_axioms base64_codec.codec_axioms escape_codec.codec_axioms by blast

text \<open>C12. Whatever the encoding, decoding with the same name gives the data back whenever encoding
  succeeded: \<open>decode(encode(data, name), name) = data\<close>, for hex, base64 with its line breaks and
  padding, and the escape format.\<close>

theorem binary_roundtrip:
  assumes "binary_encode data name = Inr t"
  shows "binary_decode t name = Inr data"
proof -
  obtain e where e: "pg_find_encoding name = Some e" and r: "run_encode e data = Inr t"
    using assms by (auto simp: binary_encode_def split: option.splits)
  show ?thesis using codec.run_roundtrip [OF every_encoding_codec [OF e]] r e by (simp add: binary_decode_def)
qed

theorem binary_roundtrip_witness: "binary_decode ''aGFsbw=='' ''Base64'' = Inr ''halo''"
proof (rule binary_roundtrip)
  have "pg_base64_encode ''halo'' = ''aGFsbw==''"
    by (simp add: pg_base64_encode_def b64_digit_def base64_def Let_def shifts and_mod)
  moreover have "pg_base64_enc_len ''halo'' = 8" by (simp add: pg_base64_enc_len_def)
  moreover have "pg_find_encoding ''Base64'' = Some base64_encoding"
    by (simp add: pg_find_encoding_def enclist_def pg_strcaseeq_def c_tolower_def char_of_def bit_0)
  ultimately show "binary_encode ''halo'' ''Base64'' = Inr ''aGFsbw==''"
    by (simp add: binary_encode_def run_encode_def base64_encoding_def MaxResult_def)
qed

text \<open>C32. The buffers are sized by the length estimates of the encoding, and the estimates are never too
  small: neither function ever reaches the FATAL error that would report an overrun, for any data.\<close>

theorem estimates_suffice:
  "binary_encode data name \<noteq> Inl EstimateTooSmall \<and> binary_decode data name \<noteq> Inl EstimateTooSmall"
proof (cases "pg_find_encoding name")
  case (Some e)
  show ?thesis
    using codec.no_encode_overrun [OF every_encoding_codec [OF Some]]
      codec.no_decode_overrun [OF every_encoding_codec [OF Some]] Some
    by (simp add: binary_encode_def binary_decode_def)
qed (simp add: binary_encode_def binary_decode_def)

end
