(* ===== verification/UserVar.thy ===== *)
theory UserVar
  imports Encode
begin

text \<open>
  The user variables of a session (\<open>SET @v = ...\<close>), \<open>src/backend/commands/mysql/mys_uservar.c\<close>.
  A variable is an item of a hash table with string keys of \<open>NAMEDATALEN\<close> bytes; its value is a
  \<open>bytea\<close> with one byte behind it that says whether the value is a number.  The hash table is a map
  from the significant bytes of the name (\<open>dynahash\<close> with \<open>HASH_STRINGS\<close> copies and compares at most
  63 bytes), \<open>None\<close> while it is not created.  An item that \<open>HASH_ENTER\<close> creates is uninitialised.
  The catalog lookups and the output functions of the server are the record \<open>catalog\<close>.
\<close>

section \<open>Values and items\<close>

definition BYTEAOID :: nat where "BYTEAOID = 17"
definition BOOLOID :: nat where "BOOLOID = 16"
definition BITOID :: nat where "BITOID = 1560"
definition VARBITOID :: nat where "VARBITOID = 1562"

datatype uv_error = BadAccess | EscapeFormat | NoType | HexError codec_error

type_synonym uservalue = "bytes \<times> char"

datatype valuePtr = Uninitialised | NullPtr | Bytea uservalue

record MysqlUserVariableItem =
  varValue :: valuePtr
  isnull :: "bool option"

type_synonym uservars = "(bytes \<rightharpoonup> MysqlUserVariableItem) option"

definition NAMEDATALEN :: nat where "NAMEDATALEN = 64"

definition var_key :: "bytes \<Rightarrow> bytes" where
  "var_key name = take (NAMEDATALEN - 1) (cstr name)"

record 'd catalog =
  getBaseType :: "nat \<Rightarrow> nat"
  type_category :: "nat \<Rightarrow> char"
  output_text :: "nat \<Rightarrow> 'd \<Rightarrow> bytes"
  byte_behind :: "'d \<Rightarrow> char option"

section \<open>Conversions to bytea\<close>

text \<open>The result is allocated with \<open>room\<close> bytes behind the header; the data and the byte behind it are
  stored there.\<close>

definition store_value :: "nat \<Rightarrow> bytes \<Rightarrow> bool \<Rightarrow> uv_error + uservalue" where
  "store_value room data isDigit =
     (if length data + 1 \<le> room then Inr (data, if isDigit then CHR ''1'' else NUL) else Inl BadAccess)"

definition byteastring2bytea :: "bytes \<Rightarrow> bool \<Rightarrow> uv_error + uservalue" where
  "byteastring2bytea byteastring isDigit =
     (case byteastring of
        a # b # r \<Rightarrow>
          if a = CHR 0x5C \<and> b = CHR ''x'' then
            (case hex_decode r of
               Inl e \<Rightarrow> Inl (HexError e)
             | Inr x \<Rightarrow> store_value ((length byteastring - 2) div 2 + 1) x isDigit)
          else Inl EscapeFormat
      | _ \<Rightarrow> Inl EscapeFormat)"

text \<open>One byte of a bit string: \<open>rp[j] = rp[j] * 2 + (bitstring[i] - '0')\<close> for \<open>n\<close> characters, in the
  arithmetic of \<open>char\<close>.  The characters are read from the string with its terminator.\<close>

definition bit_step :: "int \<Rightarrow> char \<Rightarrow> int" where
  "bit_step v c = (v * 2 + (int (of_char c) - 48)) mod 256"

definition bits_byte :: "bytes \<Rightarrow> char" where
  "bits_byte s = char_of (nat (foldl bit_step 0 s))"

fun bits_bytes :: "nat \<Rightarrow> bytes \<Rightarrow> bytes" where
  "bits_bytes 0 s = []"
| "bits_bytes (Suc n) s = bits_byte (take 8 s) # bits_bytes n (drop 8 s)"

definition byteLen :: "nat \<Rightarrow> nat" where "byteLen bitLen = (bitLen + 8 - 1) div 8"

definition needPrePadBitNum :: "nat \<Rightarrow> nat" where "needPrePadBitNum bitLen = byteLen bitLen * 8 - bitLen"

definition bitstring2bytea :: "bytes \<Rightarrow> bool \<Rightarrow> uv_error + uservalue" where
  "bitstring2bytea bitstring isDigit =
     (let bitLen = length bitstring; i = 8 - needPrePadBitNum bitLen in
      if bitLen + 1 < i + (byteLen bitLen - 1) * 8 then Inl BadAccess
      else store_value (byteLen bitLen + 1)
             (bits_byte (take i bitstring) # bits_bytes (byteLen bitLen - 1) (drop i bitstring)) isDigit)"

definition boolstring2bytea :: "bytes \<Rightarrow> bool \<Rightarrow> uv_error + uservalue" where
  "boolstring2bytea boolstring isDigit =
     store_value 2 [if hd (boolstring @ [NUL]) = CHR ''1'' then CHR ''1'' else CHR ''0''] isDigit"

definition cstring2bytea :: "bytes \<Rightarrow> bool \<Rightarrow> uv_error + uservalue" where
  "cstring2bytea cstring isDigit = store_value (length cstring + 1) cstring isDigit"

text \<open>The choice both setters make by the base type.\<close>

definition string2bytea :: "nat \<Rightarrow> bytes \<Rightarrow> bool \<Rightarrow> uv_error + uservalue" where
  "string2bytea baseType text isDigit =
     (if baseType = BYTEAOID then byteastring2bytea (cstr text) isDigit
      else if baseType = BITOID \<or> baseType = VARBITOID then bitstring2bytea (cstr text) isDigit
      else if baseType = BOOLOID then boolstring2bytea (cstr text) isDigit
      else cstring2bytea (cstr text) isDigit)"

section \<open>The operations\<close>

definition clearUserVars :: "uservars \<Rightarrow> uservars" where
  "clearUserVars t = None"

definition varValueIsDigit :: "'d catalog \<Rightarrow> 'd \<Rightarrow> nat \<Rightarrow> uv_error + bool" where
  "varValueIsDigit cat d typ =
     (if typ = BYTEAOID then
        (case byte_behind cat d of None \<Rightarrow> Inl BadAccess | Some c \<Rightarrow> Inr (c = CHR ''1''))
      else if typ = BOOLOID then Inr True
      else if typ = BITOID \<or> typ = VARBITOID then Inr True
      else Inr (type_category cat typ = CHR ''N''))"

text \<open>\<open>hash_search\<close> with \<open>HASH_ENTER\<close>, and the release of the old value: an item whose \<open>isnull\<close> was
  never set, or whose value is not a live pointer, makes \<open>pfree\<close> fail.\<close>

definition initMysqlUserVariableHashTable :: "uservars \<Rightarrow> (bytes \<rightharpoonup> MysqlUserVariableItem)" where
  "initMysqlUserVariableHashTable t = (case t of None \<Rightarrow> Map.empty | Some m \<Rightarrow> m)"

definition release :: "MysqlUserVariableItem \<Rightarrow> uv_error + MysqlUserVariableItem" where
  "release entry =
     (case isnull entry of
        None \<Rightarrow> Inl BadAccess
      | Some True \<Rightarrow> Inr entry
      | Some False \<Rightarrow>
          (case varValue entry of Bytea _ \<Rightarrow> Inr (entry \<lparr> varValue := NullPtr \<rparr>) | _ \<Rightarrow> Inl BadAccess))"

definition enter_item :: "(bytes \<rightharpoonup> MysqlUserVariableItem) \<Rightarrow> bytes \<Rightarrow> uv_error + MysqlUserVariableItem" where
  "enter_item m name =
     (case m (var_key name) of
        None \<Rightarrow> Inr \<lparr> varValue = Uninitialised, isnull = None \<rparr>
      | Some entry \<Rightarrow> release entry)"

text \<open>The rest of both setters: \<open>conv\<close> is the conversion of the new value, \<open>None\<close> for NULL.  An error
  of the conversion leaves the item as it is at that point.\<close>

definition assign_item ::
  "(bytes \<rightharpoonup> MysqlUserVariableItem) \<Rightarrow> bytes \<Rightarrow> (uv_error + uservalue) option \<Rightarrow> (uv_error + unit) \<times> uservars" where
  "assign_item m name conv =
     (case enter_item m name of
        Inl e \<Rightarrow> (Inl e, Some m)
      | Inr entry \<Rightarrow>
          (case conv of
             None \<Rightarrow> (Inr (), Some (m(var_key name \<mapsto> entry \<lparr> isnull := Some True \<rparr>)))
           | Some (Inl e) \<Rightarrow> (Inl e, Some (m(var_key name \<mapsto> entry)))
           | Some (Inr v) \<Rightarrow> (Inr (), Some (m(var_key name \<mapsto> \<lparr> varValue = Bytea v, isnull = Some False \<rparr>)))))"

definition mysSetUserVarInternal ::
  "'d catalog \<Rightarrow> bytes \<Rightarrow> bytes \<Rightarrow> nat \<Rightarrow> bool \<Rightarrow> bool \<Rightarrow> uservars \<Rightarrow> (uv_error + unit) \<times> uservars" where
  "mysSetUserVarInternal cat name text typ isDigit isNull t =
     assign_item (initMysqlUserVariableHashTable t) name
       (if isNull then None else Some (string2bytea (getBaseType cat typ) text isDigit))"

definition mysSetUserVarForPl ::
  "'d catalog \<Rightarrow> bytes \<Rightarrow> 'd \<Rightarrow> nat \<Rightarrow> bool \<Rightarrow> uservars \<Rightarrow> (uv_error + unit) \<times> uservars" where
  "mysSetUserVarForPl cat name d typ isNull t =
     assign_item (initMysqlUserVariableHashTable t) name
       (if isNull then None
        else Some (case varValueIsDigit cat d typ of
                     Inl e \<Rightarrow> Inl e
                   | Inr isDigit \<Rightarrow> string2bytea (getBaseType cat typ) (output_text cat typ d) isDigit))"

definition copyUserVarValue :: "valuePtr \<Rightarrow> uv_error + uservalue" where
  "copyUserVarValue p =
     (case p of
        Bytea (data, behind) \<Rightarrow> store_value (length data + 1) data (behind = CHR ''1'')
      | _ \<Rightarrow> Inl BadAccess)"

definition mysGetUserVarValueInternal :: "bytes \<Rightarrow> uservars \<Rightarrow> (uv_error + uservalue option) \<times> uservars" where
  "mysGetUserVarValueInternal name t =
     (let m = initMysqlUserVariableHashTable t in
      (case m (var_key name) of
         None \<Rightarrow> Inr None
       | Some entry \<Rightarrow>
           (case isnull entry of
              None \<Rightarrow> Inl BadAccess
            | Some True \<Rightarrow> Inr None
            | Some False \<Rightarrow> (case copyUserVarValue (varValue entry) of Inl e \<Rightarrow> Inl e | Inr v \<Rightarrow> Inr (Some v))),
       Some m))"

text \<open>The SQL functions of \<open>src/backend/utils/ddsm/mysm/user_var.c\<close>.\<close>

definition mysSetUserVar :: "'d catalog \<Rightarrow> bytes \<Rightarrow> 'd option \<Rightarrow> nat \<Rightarrow> uservars \<Rightarrow> (uv_error + unit) \<times> uservars" where
  "mysSetUserVar cat name arg typ t =
     (case arg of
        Some d \<Rightarrow>
          (case varValueIsDigit cat d typ of
             Inl e \<Rightarrow> (Inl e, t)
           | Inr isDigit \<Rightarrow> mysSetUserVarInternal cat name (output_text cat typ d) typ isDigit False t)
      | None \<Rightarrow> mysSetUserVarInternal cat name [] 0 False True t)"

definition mysClearUserVariables :: "uservars \<Rightarrow> uservars" where
  "mysClearUserVariables t = clearUserVars t"

definition mysSetUserVarInExpr ::
  "'d catalog \<Rightarrow> bytes \<Rightarrow> 'd option \<Rightarrow> nat \<Rightarrow> uservars \<Rightarrow> (uv_error + uservalue option) \<times> uservars" where
  "mysSetUserVarInExpr cat name arg typ t =
     (if typ = 0 then (Inl NoType, t)
      else
        (case mysSetUserVar cat name arg typ t of
           (Inl e, t1) \<Rightarrow> (Inl e, t1)
         | (Inr _, t1) \<Rightarrow> mysGetUserVarValueInternal name t1))"

definition mysGetUserVarValue :: "bytes \<Rightarrow> uservars \<Rightarrow> (uv_error + uservalue option) \<times> uservars" where
  "mysGetUserVarValue name t = mysGetUserVarValueInternal name t"

section \<open>Conversions\<close>

lemma store_value_Inr [simp]:
  "store_value room x d = Inr v \<longleftrightarrow> length x + 1 \<le> room \<and> v = (x, if d then CHR ''1'' else NUL)"
  "store_value room x d = Inl e \<longleftrightarrow> room < length x + 1 \<and> e = BadAccess"
  by (auto simp: store_value_def)

lemma bytea_access: "byteastring2bytea s d \<noteq> Inl BadAccess"
  using hex_decode_length [of "drop 2 s"]
  by (auto simp: byteastring2bytea_def split: list.splits sum.splits)

lemma length_bits_bytes [simp]: "length (bits_bytes n s) = n"
  by (induction n s rule: bits_bytes.induct) simp_all

lemma byte_count:
  assumes "0 < n"
  shows "8 - needPrePadBitNum n + (byteLen n - 1) * 8 = n" "0 < byteLen n" "needPrePadBitNum n < 8"
  using assms unfolding needPrePadBitNum_def byteLen_def by presburger+

lemma bitstring_nonempty:
  assumes "s \<noteq> []"
  shows "bitstring2bytea s d =
    Inr (bits_byte (take (8 - needPrePadBitNum (length s)) s)
           # bits_bytes (byteLen (length s) - 1) (drop (8 - needPrePadBitNum (length s)) s),
         if d then CHR ''1'' else NUL)"
  using byte_count [of "length s"] assms by (simp add: bitstring2bytea_def store_value_def Let_def)

lemma bit_access: "bitstring2bytea s d = Inl BadAccess \<longleftrightarrow> s = []"
  by (cases "s = []") (simp_all add: bitstring_nonempty, simp add: bitstring2bytea_def byteLen_def needPrePadBitNum_def)

text \<open>C35. Storing a converted value writes past the allocated result, or reads past the text, in one case
  only: an empty bit string, whose eight characters are read behind its terminator.  All other texts, of
  whatever type, are converted inside their buffers or rejected.\<close>

theorem string2bytea_access:
  "string2bytea b s d = Inl BadAccess \<longleftrightarrow> (b = BITOID \<or> b = VARBITOID) \<and> cstr s = []"
  by (auto simp: string2bytea_def bytea_access bit_access boolstring2bytea_def cstring2bytea_def
      BYTEAOID_def BITOID_def VARBITOID_def BOOLOID_def)

subsection \<open>Bit strings\<close>

definition bits_val :: "bytes \<Rightarrow> nat" where
  "bits_val = foldl (\<lambda>v c. 2 * v + digit_val c) 0"

definition be_val :: "bytes \<Rightarrow> nat" where
  "be_val = foldl (\<lambda>v c. 256 * v + of_char c) 0"

lemma bits_val_append: "foldl (\<lambda>v c. 2 * v + digit_val c) a s = a * 2 ^ length s + bits_val s"
proof (induction s arbitrary: a)
  case (Cons c s)
  show ?case
    unfolding bits_val_def foldl_Cons Cons.IH [of "2 * a + digit_val c"] Cons.IH [of "2 * 0 + digit_val c"]
    by (simp add: algebra_simps)
qed (simp add: bits_val_def)

lemma bits_val_split: "bits_val (s @ t) = bits_val s * 2 ^ length t + bits_val t"
  using bits_val_append [of "bits_val s" t] by (simp add: bits_val_def)

lemma be_val_append: "foldl (\<lambda>v c. 256 * v + of_char c) (a :: nat) s = a * 256 ^ length s + be_val s"
proof (induction s arbitrary: a)
  case (Cons c s)
  show ?case
    unfolding be_val_def foldl_Cons Cons.IH [of "256 * a + of_char c"] Cons.IH [of "256 * 0 + of_char c"]
    by (simp add: algebra_simps)
qed (simp add: be_val_def)

definition is_bits :: "bytes \<Rightarrow> bool" where
  "is_bits s \<longleftrightarrow> set s \<subseteq> {CHR ''0'', CHR ''1''}"

lemma bits_val_less: "is_bits s \<Longrightarrow> bits_val s < 2 ^ length s"
proof (induction s)
  case (Cons c s)
  then have "digit_val c \<le> 1" "bits_val s < 2 ^ length s" by (auto simp: is_bits_def digit_val_def)
  then have "digit_val c * 2 ^ length s + bits_val s < 2 * 2 ^ length s"
    using mult_le_mono1 [of "digit_val c" 1 "2 ^ length s"] by linarith
  then show ?case using bits_val_split [of "[c]" s] by (simp add: bits_val_def)
qed (simp add: bits_val_def)

lemma bits_fold: "is_bits s \<Longrightarrow> length s \<le> 8 \<Longrightarrow> foldl bit_step 0 s = int (bits_val s)"
proof (induction s rule: rev_induct)
  case (snoc c s)
  then have IH: "foldl bit_step 0 s = int (bits_val s)" by (simp add: is_bits_def)
  have "bits_val (s @ [c]) = 2 * bits_val s + digit_val c"
    using bits_val_split [of s "[c]"] by (simp add: bits_val_def)
  moreover have "bits_val (s @ [c]) < 256"
    using bits_val_less [OF snoc.prems(1)] power_increasing [OF snoc.prems(2), of "2 :: nat"] by simp
  moreover have "int (of_char c) - 48 = int (digit_val c)"
    using snoc.prems(1) by (auto simp: is_bits_def digit_val_def)
  ultimately show ?case using IH by (simp add: bit_step_def [of "int (bits_val s)"])
qed (simp add: bits_val_def)

lemma bits_byte_val: "is_bits s \<Longrightarrow> length s \<le> 8 \<Longrightarrow> of_char (bits_byte s) = bits_val s"
  using bits_val_less [of s] power_increasing [of "length s" 8 "2 :: nat"]
  by (simp add: bits_byte_def bits_fold of_char_of)

lemma bits_bytes_val:
  "is_bits s \<Longrightarrow> length s = n * 8 \<Longrightarrow> be_val (bits_bytes n s) = bits_val s"
proof (induction n s rule: bits_bytes.induct)
  case (2 n s)
  have b: "is_bits (take 8 s)" "is_bits (drop 8 s)"
    using 2(2) by (auto simp: is_bits_def dest: in_set_takeD in_set_dropD)
  then have IH: "be_val (bits_bytes n (drop 8 s)) = bits_val (drop 8 s)" using 2(1) 2(3) by simp
  have "be_val (bits_bytes (Suc n) s) = bits_val (take 8 s) * 256 ^ n + bits_val (drop 8 s)"
    using be_val_append [of "of_char (bits_byte (take 8 s))" "bits_bytes n (drop 8 s)"] IH bits_byte_val [OF b(1)]
    by (simp add: be_val_def)
  also have "\<dots> = bits_val (take 8 s @ drop 8 s)"
    unfolding bits_val_split using 2(3) power_mult [of "2 :: nat" 8 n] by (simp add: mult.commute)
  finally show ?case by simp
qed (simp add: be_val_def bits_val_def)

text \<open>A bit value of any length becomes the bytes of its value, most significant byte first and padded
  with zero bits at the front: the bytes as a base-256 number are the value of the bit string, there are as
  few as the length allows, and the value is marked as a number as the caller asked.\<close>

theorem bitstring_value:
  assumes "is_bits s" "s \<noteq> []"
  shows "\<exists>x. bitstring2bytea s d = Inr (x, if d then CHR ''1'' else NUL) \<and> be_val x = bits_val s
    \<and> length x = (length s + 7) div 8"
proof -
  let ?i = "8 - needPrePadBitNum (length s)" and ?n = "byteLen (length s) - 1"
  have n: "?i + ?n * 8 = length s" "0 < byteLen (length s)"
    using byte_count [of "length s"] assms(2) by simp_all
  have b: "is_bits (take ?i s)" "is_bits (drop ?i s)"
    using assms(1) by (auto simp: is_bits_def dest: in_set_takeD in_set_dropD)
  have r: "be_val (bits_bytes ?n (drop ?i s)) = bits_val (drop ?i s)"
    using n by (intro bits_bytes_val b) simp
  have f: "of_char (bits_byte (take ?i s)) = bits_val (take ?i s)"
    by (rule bits_byte_val [OF b(1)]) simp
  have l: "length (drop ?i s) = 8 * ?n" using n by simp
  have "be_val (bits_byte (take ?i s) # bits_bytes ?n (drop ?i s)) = bits_val (take ?i s) * 256 ^ ?n + bits_val (drop ?i s)"
    using be_val_append [of "of_char (bits_byte (take ?i s))" "bits_bytes ?n (drop ?i s)"] r f by (simp add: be_val_def)
  also have "\<dots> = bits_val (take ?i s @ drop ?i s)"
    unfolding bits_val_split l power_mult by simp
  finally have v: "be_val (bits_byte (take ?i s) # bits_bytes ?n (drop ?i s)) = bits_val s" by simp
  have "Suc ?n = (length s + 7) div 8" using n(2) by (simp add: byteLen_def)
  then show ?thesis using v bitstring_nonempty [OF assms(2)] by simp
qed

theorem bitstring_value_witness:
  "is_bits ''1100000001'' \<and> (\<exists>x. bitstring2bytea ''1100000001'' True = Inr (x, CHR ''1'') \<and> be_val x = 769 \<and> length x = 2)"
  using bitstring_value [of "''1100000001''" True] by (simp add: is_bits_def bits_val_def digit_val_def)

section \<open>The table as a store of variables\<close>

text \<open>What the rest of the server relies on: an assignment is seen under every name with the same key and
  under no other, and clearing removes all variables.\<close>

locale variable_store =
  fixes ok :: "'t \<Rightarrow> bool" and key :: "'n \<Rightarrow> 'k" and visible :: "'t \<Rightarrow> 'k \<Rightarrow> 'v option"
    and assign :: "'n \<Rightarrow> 'v option \<Rightarrow> 't \<Rightarrow> 't" and clear :: "'t \<Rightarrow> 't"
  assumes assign_ok: "ok t \<Longrightarrow> ok (assign n v t)"
    and visible_assign: "ok t \<Longrightarrow> visible (assign n v t) k = (if k = key n then v else visible t k)"
    and clear_ok: "ok (clear t)"
    and visible_clear: "visible (clear t) k = None"
begin

definition run :: "('n \<times> 'v option) option list \<Rightarrow> 't \<Rightarrow> 't" where
  "run ops t = fold (\<lambda>x. case x of None \<Rightarrow> clear | Some (n, v) \<Rightarrow> assign n v) ops t"

lemma run_ok: "ok t \<Longrightarrow> ok (run ops t)"
  unfolding run_def by (induction ops arbitrary: t) (auto simp: assign_ok clear_ok split: option.splits)

lemma run_visible:
  "ok t \<Longrightarrow> visible (run ops t) k =
     fold (\<lambda>x r. case x of None \<Rightarrow> None | Some (n, v) \<Rightarrow> if k = key n then v else r) ops (visible t k)"
proof (induction ops arbitrary: t)
  case (Cons x ops)
  then show ?case
    by (cases x) (auto simp: run_def assign_ok clear_ok visible_assign visible_clear)
qed (simp add: run_def)

end

text \<open>An item is well-formed if its null flag is set and, unless it says NULL, its value is live.  The
  value a reader sees is the data with the number mark.\<close>

definition item_ok :: "MysqlUserVariableItem \<Rightarrow> bool" where
  "item_ok entry \<longleftrightarrow>
     isnull entry = Some True \<or> isnull entry = Some False \<and> (\<exists>v. varValue entry = Bytea v)"

definition vars_ok :: "uservars \<Rightarrow> bool" where
  "vars_ok t \<longleftrightarrow> (\<forall>entry \<in> ran (initMysqlUserVariableHashTable t). item_ok entry)"

definition mark :: "bytes \<times> bool \<Rightarrow> uservalue" where
  "mark v = (fst v, if snd v then CHR ''1'' else NUL)"

definition item_value :: "MysqlUserVariableItem \<Rightarrow> (bytes \<times> bool) option" where
  "item_value entry =
     (case (isnull entry, varValue entry) of (Some False, Bytea (x, c)) \<Rightarrow> Some (x, c = CHR ''1'') | _ \<Rightarrow> None)"

definition var_visible :: "uservars \<Rightarrow> bytes \<Rightarrow> (bytes \<times> bool) option" where
  "var_visible t k = Option.bind (initMysqlUserVariableHashTable t k) item_value"

definition assign_var :: "bytes \<Rightarrow> (bytes \<times> bool) option \<Rightarrow> uservars \<Rightarrow> uservars" where
  "assign_var name v t =
     snd (assign_item (initMysqlUserVariableHashTable t) name (map_option (Inr \<circ> mark) v))"

lemma init_Some [simp]: "initMysqlUserVariableHashTable (Some m) = m"
  by (simp add: initMysqlUserVariableHashTable_def)

lemma vars_ok_entry: "vars_ok t \<Longrightarrow> initMysqlUserVariableHashTable t k = Some entry \<Longrightarrow> item_ok entry"
  by (auto simp: vars_ok_def ran_def)

lemma enter_item_ok:
  assumes "vars_ok t"
  obtains entry where "enter_item (initMysqlUserVariableHashTable t) name = Inr entry"
  using vars_ok_entry [OF assms, of "var_key name"]
  by (cases "initMysqlUserVariableHashTable t (var_key name)")
    (auto simp: enter_item_def release_def item_ok_def)

lemma assign_item_ok:
  assumes "vars_ok t"
  obtains entry where
    "assign_item (initMysqlUserVariableHashTable t) name (map_option (Inr \<circ> mark) v) =
       (Inr (), Some ((initMysqlUserVariableHashTable t)(var_key name \<mapsto> entry)))"
    "item_ok entry" "item_value entry = v"
proof -
  obtain entry where "enter_item (initMysqlUserVariableHashTable t) name = Inr entry"
    using enter_item_ok [OF assms] by blast
  then show ?thesis
    using that by (cases v) (auto simp: assign_item_def item_ok_def item_value_def mark_def split: valuePtr.splits)
qed

interpretation uservar_store: variable_store vars_ok var_key var_visible assign_var clearUserVars
proof
  fix t name v k
  show "vars_ok (assign_var name v t)" if ok: "vars_ok t"
  proof -
    obtain entry where "assign_item (initMysqlUserVariableHashTable t) name (map_option (Inr \<circ> mark) v) =
       (Inr (), Some ((initMysqlUserVariableHashTable t)(var_key name \<mapsto> entry)))" "item_ok entry"
      using assign_item_ok [OF ok] by blast
    then show ?thesis using ok by (auto simp: assign_var_def vars_ok_def ran_def)
  qed
  show "var_visible (assign_var name v t) k = (if k = var_key name then v else var_visible t k)" if ok: "vars_ok t"
  proof -
    obtain entry where "assign_item (initMysqlUserVariableHashTable t) name (map_option (Inr \<circ> mark) v) =
       (Inr (), Some ((initMysqlUserVariableHashTable t)(var_key name \<mapsto> entry)))" "item_value entry = v"
      using assign_item_ok [OF ok] by blast
    then show ?thesis by (simp add: assign_var_def var_visible_def)
  qed
qed (simp_all add: clearUserVars_def vars_ok_def var_visible_def initMysqlUserVariableHashTable_def)

lemma get_visible:
  assumes "vars_ok t"
  shows "fst (mysGetUserVarValueInternal name t) = Inr (map_option mark (var_visible t (var_key name)))"
  using vars_ok_entry [OF assms, of "var_key name"]
  by (cases "initMysqlUserVariableHashTable t (var_key name)")
    (auto simp: mysGetUserVarValueInternal_def Let_def var_visible_def item_ok_def item_value_def copyUserVarValue_def
      store_value_def mark_def)

text \<open>A client's use of its variables: the statements of a session, each with the converted value it
  assigns (\<open>None\<close> for NULL), or \<open>None\<close> for a clearing.\<close>

datatype var_op = SetVar bytes bytes nat bool | SetNull bytes | ClearVars

definition run_op :: "'d catalog \<Rightarrow> var_op \<Rightarrow> uservars \<Rightarrow> uservars" where
  "run_op cat x t =
     (case x of
        SetVar name s typ d \<Rightarrow> snd (mysSetUserVarInternal cat name s typ d False t)
      | SetNull name \<Rightarrow> snd (mysSetUserVarInternal cat name [] 0 False True t)
      | ClearVars \<Rightarrow> clearUserVars t)"

definition op_value :: "'d catalog \<Rightarrow> bytes \<Rightarrow> var_op \<Rightarrow> uservalue option \<Rightarrow> uservalue option" where
  "op_value cat name x r =
     (case x of
        SetVar n s typ d \<Rightarrow>
          if var_key n = var_key name
          then (case string2bytea (getBaseType cat typ) s d of Inl _ \<Rightarrow> None | Inr v \<Rightarrow> Some v) else r
      | SetNull n \<Rightarrow> if var_key n = var_key name then None else r
      | ClearVars \<Rightarrow> None)"

definition convertible :: "'d catalog \<Rightarrow> var_op \<Rightarrow> bool" where
  "convertible cat x \<longleftrightarrow>
     (case x of SetVar n s typ d \<Rightarrow> \<not> Option.is_none (op_value cat n x None) | _ \<Rightarrow> True)"

lemma string2bytea_mark: "string2bytea b s d = Inr v \<Longrightarrow> \<exists>x. v = mark (x, d)"
  by (auto simp: string2bytea_def byteastring2bytea_def bitstring2bytea_def boolstring2bytea_def cstring2bytea_def
      mark_def Let_def split: if_splits list.splits sum.splits)

definition abs_op :: "'d catalog \<Rightarrow> var_op \<Rightarrow> (bytes \<times> (bytes \<times> bool) option) option" where
  "abs_op cat x =
     (case x of
        SetVar n s typ d \<Rightarrow> Some (n, Some (fst (projr (string2bytea (getBaseType cat typ) s d)), d))
      | SetNull n \<Rightarrow> Some (n, None)
      | ClearVars \<Rightarrow> None)"

lemma run_op_abs:
  assumes "convertible cat x"
  shows "run_op cat x t = (case abs_op cat x of None \<Rightarrow> clearUserVars t | Some (n, v) \<Rightarrow> assign_var n v t)"
    "op_value cat name x r =
       (case abs_op cat x of None \<Rightarrow> None | Some (n, v) \<Rightarrow> if var_key name = var_key n then map_option mark v else r)"
proof -
  have "\<exists>y. string2bytea (getBaseType cat ty) s d = Inr (mark (y, d))" if "x = SetVar n s ty d" for n s ty d
    using assms that string2bytea_mark [of "getBaseType cat ty" s d]
    by (auto simp: convertible_def op_value_def split: sum.splits)
  then show "run_op cat x t = (case abs_op cat x of None \<Rightarrow> clearUserVars t | Some (n, v) \<Rightarrow> assign_var n v t)"
    "op_value cat name x r =
       (case abs_op cat x of None \<Rightarrow> None | Some (n, v) \<Rightarrow> if var_key name = var_key n then map_option mark v else r)"
    by (cases x; fastforce simp: run_op_def op_value_def abs_op_def assign_var_def mysSetUserVarInternal_def mark_def)+
qed

lemma run_ops_abs:
  assumes "\<forall>x \<in> set ops. convertible cat x"
  shows "fold (run_op cat) ops t = uservar_store.run (map (abs_op cat) ops) t"
    "fold (op_value cat name) ops (map_option mark r) = map_option mark
       (fold (\<lambda>x r. case x of None \<Rightarrow> None | Some (n, v) \<Rightarrow> if var_key name = var_key n then v else r)
          (map (abs_op cat) ops) r)"
  using assms
proof (induction ops arbitrary: t r)
  case (Cons x ops)
  {
    case 1
    then show ?case using Cons.IH(1) run_op_abs(1) [of cat x] by (simp add: uservar_store.run_def split: option.splits)
  next
    case 2
    then have "op_value cat name x (map_option mark r) = map_option mark
       (case abs_op cat x of None \<Rightarrow> None | Some (n, v) \<Rightarrow> if var_key name = var_key n then v else r)"
      using run_op_abs(2) [of cat x name "map_option mark r"] by (simp split: option.splits)
    then show ?case using Cons.IH(2) 2 by simp
  }
qed (simp_all add: uservar_store.run_def)

text \<open>C6. Reading a variable returns what was last assigned to it: after any sequence of assignments whose
  texts can be converted, assignments of NULL and clearings, a variable has the converted value of the last
  assignment to a name with the same first 63 bytes since the last clearing, with its number mark, or NULL
  if there is none; no step touches freed or uninitialised memory.\<close>

theorem user_variables_last_write:
  assumes "\<forall>x \<in> set ops. convertible cat x"
  shows "fst (mysGetUserVarValueInternal name (fold (run_op cat) ops None)) = Inr (fold (op_value cat name) ops None)"
proof -
  have ok: "vars_ok None" and none: "var_visible None k = None" for k
    by (simp_all add: vars_ok_def var_visible_def initMysqlUserVariableHashTable_def)
  have "fst (mysGetUserVarValueInternal name (fold (run_op cat) ops None)) =
      Inr (map_option mark (var_visible (uservar_store.run (map (abs_op cat) ops) None) (var_key name)))"
    unfolding run_ops_abs(1) [OF assms] by (rule get_visible [OF uservar_store.run_ok [OF ok]])
  also have "\<dots> = Inr (fold (op_value cat name) ops (map_option mark None))"
    unfolding run_ops_abs(2) [OF assms] uservar_store.run_visible [OF ok] none ..
  finally show ?thesis by simp
qed

definition plain_catalog :: "nat catalog" where
  "plain_catalog = \<lparr> getBaseType = (\<lambda>ty. ty), type_category = (\<lambda>ty. if ty = 23 then CHR ''N'' else CHR ''S''),
     output_text = (\<lambda>ty d. show_nat d), byte_behind = (\<lambda>d. None) \<rparr>"

theorem user_variables_last_write_witness:
  "fst (mysGetUserVarValueInternal ''v''
     (fold (run_op plain_catalog) [SetVar ''v'' ''101'' BITOID True, SetVar ''w'' ''abc'' 25 False, SetNull ''w''] None)) =
   Inr (Some ([CHR 0x05], CHR ''1''))"
proof -
  have "string2bytea BITOID ''101'' True = Inr ([CHR 0x05], CHR ''1'')" "string2bytea 25 ''abc'' False = Inr (''abc'', NUL)"
    by (simp_all add: string2bytea_def BYTEAOID_def BITOID_def VARBITOID_def BOOLOID_def bitstring_nonempty
        needPrePadBitNum_def byteLen_def bits_byte_def bit_step_def cstring2bytea_def store_value_def cstr_def char_of_def bit_0)
  moreover have "var_key ''v'' = ''v''" "var_key ''w'' = ''w''" by (simp_all add: var_key_def NAMEDATALEN_def cstr_def)
  ultimately show ?thesis
    using user_variables_last_write [of "[SetVar ''v'' ''101'' BITOID True, SetVar ''w'' ''abc'' 25 False, SetNull ''w'']" plain_catalog "''v''"]
    by (simp add: convertible_def op_value_def plain_catalog_def)
qed

text \<open>C34. An assignment that fails destroys the variable: the old value is released, or the new item left
  uninitialised, before the text is converted, so that when the conversion raises an error (a \<open>bytea\<close> in the
  escape format, for instance) every later read of the variable and every later assignment to it, even of
  NULL, uses a dead pointer.  Only a variable that was NULL survives.\<close>

theorem failed_set_destroys:
  assumes "vars_ok t" "string2bytea (getBaseType cat ty) s d = Inl e"
    and "initMysqlUserVariableHashTable t (var_key name) = None \<or> var_visible t (var_key name) \<noteq> None"
  shows "fst (mysSetUserVarInternal cat name s ty d False t) = Inl e \<and>
    (let t' = snd (mysSetUserVarInternal cat name s ty d False t) in
     fst (mysGetUserVarValueInternal name t') = Inl BadAccess \<and>
     fst (mysSetUserVarInternal cat name s' ty' d' isNull t') = Inl BadAccess)"
proof -
  obtain entry' where e: "enter_item (initMysqlUserVariableHashTable t) name = Inr entry'"
    using enter_item_ok [OF assms(1)] by blast
  have dead: "isnull entry' = None \<or> isnull entry' = Some False \<and> varValue entry' = NullPtr"
    using e assms(3) vars_ok_entry [OF assms(1), of "var_key name"]
    by (cases "initMysqlUserVariableHashTable t (var_key name)") (auto simp: enter_item_def release_def item_ok_def var_visible_def item_value_def)
  have r: "mysSetUserVarInternal cat name s ty d False t =
      (Inl e, Some ((initMysqlUserVariableHashTable t)(var_key name \<mapsto> entry')))"
    using e assms(2) by (simp add: mysSetUserVarInternal_def assign_item_def)
  show ?thesis
    using dead unfolding r
    by (auto simp: Let_def mysGetUserVarValueInternal_def copyUserVarValue_def mysSetUserVarInternal_def
        assign_item_def enter_item_def release_def)
qed

theorem failed_set_destroys_witness:
  "fst (mysSetUserVarInternal plain_catalog ''v'' ''abc'' BYTEAOID False False None) = Inl EscapeFormat \<and>
   (let t' = snd (mysSetUserVarInternal plain_catalog ''v'' ''abc'' BYTEAOID False False None) in
    fst (mysGetUserVarValueInternal ''v'' t') = Inl BadAccess \<and>
    fst (mysSetUserVarInternal plain_catalog ''v'' ''1'' 25 False False t') = Inl BadAccess)"
proof (rule failed_set_destroys)
  show "string2bytea (getBaseType plain_catalog BYTEAOID) ''abc'' False = Inl EscapeFormat"
    by (simp add: plain_catalog_def string2bytea_def byteastring2bytea_def cstr_def)
qed (simp_all add: vars_ok_def initMysqlUserVariableHashTable_def)

end
