(* ===== verification/AdapterState.thy ===== *)
theory AdapterState
  imports NetTransceiver LenEnc ErrorConvertor UserVar
begin

text \<open>
  The session state of the adapter: the file-level variables of
  \<open>src/backend/adapter/mysql/adapter.c\<close> (with \<open>autoCommit\<close> of \<open>systemVar.c\<close> and the user variables of \<open>mys_uservar.c\<close>) that the
  modelled operations read or change, with the transceiver and the error table they use.
  A character array that holds a C string is the string it holds.
\<close>

definition PRE_STMT_NUM_MAX :: nat where "PRE_STMT_NUM_MAX = 5000"
definition EXTEND_PRE_STMT_NAME_LEN :: nat where "EXTEND_PRE_STMT_NAME_LEN = 11"
definition RESERVED_FOR_ADDITIONAL_SQL :: nat where "RESERVED_FOR_ADDITIONAL_SQL = 64"

datatype sqlReadWriteType = SRWT_UNKNOWN | SRWT_READ | SRWT_WRITE | SRWT_BEING | SRWT_COMMIT | SRWT_ROLLBACK

record preStmtInfo =
  ps_name :: bytes
  ps_paramNum :: nat
  ps_nullBitmapLength :: nat
  ps_paramTypeOffset :: nat
  ps_paramValueOffset1 :: nat
  ps_paramValueOffset2 :: nat
  ps_paramTypes :: "nat list"
  ps_columnNum :: nat
  ps_columnTypes :: "nat list"
  ps_columnCharacterSet :: "nat list"
  ps_readWriteType :: sqlReadWriteType
  ps_isValid :: bool

record session =
  s_net :: net
  haloMysqlErrorCodes :: "error_table option"
  frontEndCaps :: nat
  moreResultsFlag :: int
  warnings :: int
  affectedRows :: int
  foundRows :: nat
  lastInsertID :: nat
  lastInsertIDForPacket :: nat
  autoCommit :: int
  inTransactionFlag :: int
  serverStatus :: int
  sessionStateChanged :: int
  sessionStateType :: int
  sessionTrackInfo :: bytes
  systemVarName :: bytes
  systemVarVal :: bytes
  inSsTrackSystemVariables :: bool
  isSsTrackSchemaOn :: bool
  isSsTrackStateChangeOn :: bool
  setUserSystemVar :: int
  warnErrCode :: int
  warnErrMsg :: bytes
  needCommitTrx :: bool
  needStartNewTrx :: bool
  trxNotCommit :: bool
  addBeforeBeforeCurSQL :: bool
  addCommitOrRollBackBeforeCurSQL :: bool
  needAddCommitOrRollbackAfterCurSQL :: int
  isResetConnStmt :: bool
  isExtendPreStmt :: bool
  isExtendExeStmt :: bool
  isExtendCloseStmt :: bool
  isIgnoreStmt :: bool
  auto_rollback_tx_on_error :: bool
  skipUtf8Verify :: bool
  preOrPostSQLNum :: int
  curExtendPreStmtId :: nat
  preStmtInfoes :: "preStmtInfo list"
  preStmtInfoNum :: nat
  haloMysqlDataTypes :: "nat \<rightharpoonup> nat"
  haloMysqlDataTypesNum :: nat
  mysql_user_variables :: uservars

type_synonym 'a sio = "(fault + 'a) \<times> session"

text \<open>Running a transceiver operation inside a session, and sequencing.\<close>

definition on_net :: "(net \<Rightarrow> 'a io) \<Rightarrow> session \<Rightarrow> 'a sio" where
  "on_net f s = (case f (s_net s) of (r, n) \<Rightarrow> (r, s \<lparr> s_net := n \<rparr>))"

definition andThen :: "'a sio \<Rightarrow> ('a \<Rightarrow> session \<Rightarrow> 'b sio) \<Rightarrow> 'b sio" where
  "andThen m f = (case m of (Inl e, s) \<Rightarrow> (Inl e, s) | (Inr x, s) \<Rightarrow> f x s)"

lemma andThen_Inr [simp]: "andThen (Inr x, s) f = f x s"
  and andThen_Inl [simp]: "andThen (Inl e, s) f = (Inl e, s)"
  by (simp_all add: andThen_def)

section \<open>Initial values\<close>

definition init_preStmtInfo :: preStmtInfo where
  "init_preStmtInfo =
     \<lparr> ps_name = [], ps_paramNum = 0, ps_nullBitmapLength = 0, ps_paramTypeOffset = 0,
       ps_paramValueOffset1 = 0, ps_paramValueOffset2 = 0, ps_paramTypes = replicate 256 0,
       ps_columnNum = 0, ps_columnTypes = replicate 256 0, ps_columnCharacterSet = replicate 256 0,
       ps_readWriteType = SRWT_UNKNOWN, ps_isValid = False \<rparr>"

definition initPreStmtInfoes :: "preStmtInfo list" where
  "initPreStmtInfoes = replicate PRE_STMT_NUM_MAX init_preStmtInfo"

text \<open>The session after authentication: the static initialisers of the source, with the error
  table and the statement cache initialised.\<close>

definition init_session :: "nat \<Rightarrow> net \<Rightarrow> session" where
  "init_session caps n =
     \<lparr> s_net = n, haloMysqlErrorCodes = Some initErrorCodeHashTable, frontEndCaps = caps,
       moreResultsFlag = 0, warnings = 0, affectedRows = -1, foundRows = 1, lastInsertID = 0,
       lastInsertIDForPacket = 0, autoCommit = 2, inTransactionFlag = 0, serverStatus = 0,
       sessionStateChanged = 0, sessionStateType = -1, sessionTrackInfo = [], systemVarName = [],
       systemVarVal = [], inSsTrackSystemVariables = False, isSsTrackSchemaOn = True,
       isSsTrackStateChangeOn = False, setUserSystemVar = 0, warnErrCode = 0, warnErrMsg = [],
       needCommitTrx = False, needStartNewTrx = False, trxNotCommit = False,
       addBeforeBeforeCurSQL = False, addCommitOrRollBackBeforeCurSQL = False,
       needAddCommitOrRollbackAfterCurSQL = 1, isResetConnStmt = False, isExtendPreStmt = False,
       isExtendExeStmt = False, isExtendCloseStmt = False, isIgnoreStmt = False,
       auto_rollback_tx_on_error = False, skipUtf8Verify = False, preOrPostSQLNum = 0,
       curExtendPreStmtId = 0, preStmtInfoes = initPreStmtInfoes, preStmtInfoNum = 0,
       haloMysqlDataTypes = Map.empty, haloMysqlDataTypesNum = 0, mysql_user_variables = None \<rparr>"

end
