(* ===== verification/Packets.thy ===== *)
theory Packets
  imports AdapterState
begin

text \<open>
  The packets of \<open>src/backend/adapter/mysql/adapter.c\<close>: OK, EOF, error, column count and
  column definition payloads, the functions that send them, and the canned result sets.
  An assembler is the function that returns the bytes it stores in \<open>payloadBuf\<close>; \<open>None\<close>
  stands for a store past the end of one of its fixed-size local arrays.
\<close>

section \<open>Capabilities\<close>

definition MYS_CLT_PROTOCOL_41 :: nat where "MYS_CLT_PROTOCOL_41 = 512"
definition MYS_CLT_TRANSACTIONS :: nat where "MYS_CLT_TRANSACTIONS = 8192"
definition MYS_CLT_SESSION_TRACK :: nat where "MYS_CLT_SESSION_TRACK = 2 ^ 23"
definition MYS_CLT_DEPRECATE_EOF :: nat where "MYS_CLT_DEPRECATE_EOF = 2 ^ 24"
definition MYS_CLT_OPTIONAL_RESULTSET_METADATA :: nat where "MYS_CLT_OPTIONAL_RESULTSET_METADATA = 2 ^ 25"

definition has_cap :: "session \<Rightarrow> nat \<Rightarrow> bool" where
  "has_cap s flag \<longleftrightarrow> frontEndCaps s AND flag \<noteq> 0"

section \<open>OK and EOF packets\<close>

text \<open>The session-track block of \<open>assembleOKEOFCommonPacketPayload\<close>: the two scratch arrays
  of 1024 bytes, then the block itself.\<close>

definition val_or_null :: "bytes \<Rightarrow> bytes option" where
  "val_or_null v = (if v = [] then None else Some v)"

definition dataOfTheChangedSessionInfo :: "session \<Rightarrow> bytes" where
  "dataOfTheChangedSessionInfo s =
     (if sessionStateChanged s \<noteq> 0 then
        (if sessionStateType s = 0 \<and> inSsTrackSystemVariables s
         then assembleLenencString (Some (systemVarName s))
              @ assembleLenencString (val_or_null (systemVarVal s))
         else [])
        @ (if sessionStateType s = 1 \<and> isSsTrackSchemaOn s
           then assembleLenencString (val_or_null (systemVarVal s))
           else [])
      else [])"

definition sessionStateKind :: "session \<Rightarrow> bytes" where
  "sessionStateKind s =
     (if sessionStateChanged s \<noteq> 0 \<and>
         (sessionStateType s = 0 \<and> inSsTrackSystemVariables s \<or> sessionStateType s = 1 \<and> isSsTrackSchemaOn s)
      then assembleLenencUnsignedLong (nat (sessionStateType s)) else [])"

definition stateChangeMark :: bytes where
  "stateChangeMark = assembleLenencUnsignedLong 2 @ assembleLenencString (Some ''1'')"

definition trackedData :: "session \<Rightarrow> bytes" where
  "trackedData s =
     (let data = dataOfTheChangedSessionInfo s in
      if isSsTrackStateChangeOn s \<and> data \<noteq> [] then data @ stateChangeMark else data)"

definition sessionStateInfo :: "session \<Rightarrow> bytes" where
  "sessionStateInfo s =
     sessionStateKind s
     @ (if isSsTrackStateChangeOn s \<and> dataOfTheChangedSessionInfo s = [] then stateChangeMark else [])
     @ (if trackedData s \<noteq> [] then assembleLenencString2 (trackedData s) (int (length (trackedData s))) else [])"

definition sessionTrackBlock :: "session \<Rightarrow> bytes option" where
  "sessionTrackBlock s =
     (let info = sessionStateInfo s in
      if length (trackedData s) > 1024 \<or> length info > 1024 then None
      else Some (if info \<noteq> [] then assembleLenencString2 info (int (length info)) else []))"

definition assembleOKEOFCommonPacketPayload :: "session \<Rightarrow> int \<Rightarrow> int \<Rightarrow> bytes option" where
  "assembleOKEOFCommonPacketPayload s statusFlags warns =
     (let counts = assembleLenencUnsignedLong (if 0 \<le> affectedRows s then nat (affectedRows s) else 0)
                   @ assembleLenencUnsignedLong (lastInsertIDForPacket s);
          status = (if has_cap s MYS_CLT_PROTOCOL_41 then le_enc_int 2 statusFlags @ le_enc_int 2 warns
                    else if has_cap s MYS_CLT_TRANSACTIONS then le_enc_int 2 statusFlags
                    else []) in
      if has_cap s MYS_CLT_SESSION_TRACK then
        (case sessionTrackBlock s of
           None \<Rightarrow> None
         | Some block \<Rightarrow>
             Some (counts @ status
                   @ (if sessionStateChanged s \<noteq> 0 \<or> sessionTrackInfo s \<noteq> []
                      then assembleLenencString (Some (sessionTrackInfo s)) else [])
                   @ block))
      else Some (counts @ status @ sessionTrackInfo s))"

text \<open>\<open>assembleOKPacketPayload\<close> also clears the strings it has reported.\<close>

definition clear_track :: "session \<Rightarrow> session" where
  "clear_track s = s \<lparr> sessionTrackInfo := [], systemVarName := [], systemVarVal := [] \<rparr>"

definition assembleOKPacketPayload :: "int \<Rightarrow> int \<Rightarrow> session \<Rightarrow> bytes option \<times> session" where
  "assembleOKPacketPayload statusFlags warns s =
     (map_option (\<lambda>p. le_enc 1 0x00 @ p) (assembleOKEOFCommonPacketPayload s statusFlags warns), clear_track s)"

definition assembleEOFPacketPayload :: "session \<Rightarrow> int \<Rightarrow> int \<Rightarrow> bytes option" where
  "assembleEOFPacketPayload s warns statusFlags =
     (if has_cap s MYS_CLT_DEPRECATE_EOF
      then map_option (\<lambda>p. le_enc 1 0xFE @ p) (assembleOKEOFCommonPacketPayload s statusFlags warns)
      else Some (le_enc 1 0xFE
                 @ (if has_cap s MYS_CLT_PROTOCOL_41 then le_enc_int 2 warns @ le_enc_int 2 statusFlags else [])))"

section \<open>Error packets\<close>

definition assembleErrorPacketPayload :: "session \<Rightarrow> int \<Rightarrow> bytes \<Rightarrow> bytes \<Rightarrow> bytes" where
  "assembleErrorPacketPayload s errCode sqlState errMsg =
     le_enc 1 0xFF @ le_enc_int 2 errCode
     @ (if has_cap s MYS_CLT_PROTOCOL_41 then ''#'' @ take 5 sqlState else [])
     @ take (if 1024 < length errMsg then 1024 else length errMsg) errMsg"

section \<open>Result set metadata\<close>

definition assembleColCountPacketPayload :: "session \<Rightarrow> int \<Rightarrow> nat \<Rightarrow> bytes" where
  "assembleColCountPacketPayload s metadataFollowFlag columnCount =
     (if has_cap s MYS_CLT_OPTIONAL_RESULTSET_METADATA \<and> metadataFollowFlag = 1
      then le_enc_int 1 metadataFollowFlag else [])
     @ assembleLenencUnsignedLong columnCount"

record colDef =
  cd_schemaName :: bytes
  cd_tableName :: bytes
  cd_orgTableName :: bytes
  cd_columnName :: bytes
  cd_orgColumnName :: bytes
  cd_characterSet :: int
  cd_columnLen :: int
  cd_columnType :: int
  cd_columnFlags :: int

text \<open>The \<open>decimals\<close> argument of the source is overwritten before it is used.\<close>

definition colDef_decimals :: "int \<Rightarrow> int" where
  "colDef_decimals columnType =
     (if columnType = 0 then 0x51
      else if columnType = 4 \<or> columnType = 5 \<or> columnType = 253 then 31
      else 0x00)"

definition assembleColDefPacket41Payload :: "colDef \<Rightarrow> bytes" where
  "assembleColDefPacket41Payload c =
     assembleLenencString (Some ''def'') @ assembleLenencString (Some (cd_schemaName c))
     @ assembleLenencString (Some (cd_tableName c)) @ assembleLenencString (Some (cd_orgTableName c))
     @ assembleLenencString (Some (cd_columnName c)) @ assembleLenencString (Some (cd_orgColumnName c))
     @ assembleLenencUnsignedLong 0x0c
     @ le_enc_int 2 (cd_characterSet c) @ le_enc_int 4 (cd_columnLen c) @ le_enc_int 1 (cd_columnType c)
     @ le_enc_int 2 (cd_columnFlags c) @ le_enc_int 1 (colDef_decimals (cd_columnType c)) @ le_enc_int 2 0"

definition assembleColDefPacket320Payload :: "colDef \<Rightarrow> bytes" where
  "assembleColDefPacket320Payload c =
     assembleLenencString (Some (cd_tableName c)) @ assembleLenencString (Some (cd_columnName c))"

definition assembleColDefPacketPayload :: "session \<Rightarrow> colDef \<Rightarrow> bytes" where
  "assembleColDefPacketPayload s c =
     (if has_cap s MYS_CLT_PROTOCOL_41 then assembleColDefPacket41Payload c
      else assembleColDefPacket320Payload c)"

section \<open>Sending\<close>

definition status_word :: "session \<Rightarrow> int" where
  "status_word s = sessionStateChanged s OR moreResultsFlag s OR autoCommit s OR inTransactionFlag s"

text \<open>\<open>sendOKPacket\<close>; \<open>sendOKPacketSpecialInfo\<close> is the same operation, its argument is unused.\<close>

definition sendOKPacket :: "session \<Rightarrow> bool sio" where
  "sendOKPacket s =
     (let s1 = s \<lparr> serverStatus := status_word s \<rparr> in
      case assembleOKPacketPayload (serverStatus s1) (warnings s1) s1 of
        (None, s2) \<Rightarrow> (Inl OutOfBounds, s2)
      | (Some p, s2) \<Rightarrow> on_net (sendInPlace True p) s2)"

definition sendOKPacketSpecialInfo :: "bytes \<Rightarrow> session \<Rightarrow> bool sio" where
  "sendOKPacketSpecialInfo info s = sendOKPacket s"

definition sendEOFPacket :: "bool \<Rightarrow> session \<Rightarrow> bool sio" where
  "sendEOFPacket flush s =
     (let s1 = s \<lparr> serverStatus := status_word s \<rparr> in
      case assembleEOFPacketPayload s1 (warnings s1) (serverStatus s1) of
        None \<Rightarrow> (Inl OutOfBounds, s1)
      | Some p \<Rightarrow> on_net (sendInPlace flush p) s1)"

definition sendEOFPacketFlush :: "session \<Rightarrow> bool sio" where
  "sendEOFPacketFlush = sendEOFPacket True"

definition sendEOFPacketNoFlush :: "session \<Rightarrow> bool sio" where
  "sendEOFPacketNoFlush s = (if has_cap s MYS_CLT_DEPRECATE_EOF then (Inr True, s) else sendEOFPacket False s)"

definition sendErrPacket :: "int \<Rightarrow> bytes \<Rightarrow> bytes \<Rightarrow> session \<Rightarrow> bool sio" where
  "sendErrPacket errCode errMsg sqlState s =
     (let mySQLErrorCode = convertErrorCode (haloMysqlErrorCodes s) errCode;
          s1 = s \<lparr> warnErrCode := mySQLErrorCode, warnErrMsg := take 1023 errMsg \<rparr> in
      on_net (sendInPlace True (assembleErrorPacketPayload s1 mySQLErrorCode sqlState errMsg)) s1)"

definition sendErrorPacket :: "int \<Rightarrow> bytes \<Rightarrow> session \<Rightarrow> bool sio" where
  "sendErrorPacket errCode errMsg = sendErrPacket errCode errMsg ''HY000''"

definition sendUnsupportError :: "session \<Rightarrow> bool sio" where
  "sendUnsupportError = sendErrPacket 1047 ''Unknown command'' ''08S01''"

text \<open>\<open>sendErrorMessage\<close>, called for an error of level \<open>ERROR\<close> or \<open>FATAL\<close>.\<close>

definition sendErrorMessage :: "int \<Rightarrow> bytes \<Rightarrow> session \<Rightarrow> bool sio" where
  "sendErrorMessage sqlerrcode message s =
     (let s1 = s \<lparr> affectedRows := -1 \<rparr> in
      andThen (if \<not> isIgnoreStmt s1 then sendErrPacket sqlerrcode message ''HY000'' s1 else sendOKPacket s1)
        (\<lambda>_ s2. (Inr True,
           if auto_rollback_tx_on_error s2 \<and> inTransactionFlag s2 = 1
           then s2 \<lparr> needStartNewTrx := True, needAddCommitOrRollbackAfterCurSQL := 2 \<rparr> else s2)))"

section \<open>Canned result sets\<close>

definition hex_bytes :: "nat list \<Rightarrow> bytes" where "hex_bytes = map char_of"

definition warn_packets :: "bytes list" where
  "warn_packets =
     [hex_bytes [0x03],
      hex_bytes [0x03, 0x64, 0x65, 0x66, 0x00, 0x00, 0x00, 0x05, 0x4c, 0x65, 0x76, 0x65, 0x6c, 0x00,
                 0x0c, 0x21, 0x00, 0x15, 0x00, 0x00, 0x00, 0xfd, 0x01, 0x00, 0x1f, 0x00, 0x00],
      hex_bytes [0x03, 0x64, 0x65, 0x66, 0x00, 0x00, 0x00, 0x04, 0x43, 0x6f, 0x64, 0x65, 0x00, 0x0c,
                 0x3f, 0x00, 0x04, 0x00, 0x00, 0x00, 0x03, 0xa1, 0x00, 0x00, 0x00, 0x00],
      hex_bytes [0x03, 0x64, 0x65, 0x66, 0x00, 0x00, 0x00, 0x07, 0x4d, 0x65, 0x73, 0x73, 0x61, 0x67,
                 0x65, 0x00, 0x0c, 0x21, 0x00, 0x00, 0x06, 0x00, 0x00, 0xfd, 0x01, 0x00, 0x1f, 0x00,
                 0x00]]"

definition simulateShowWarnErrReturn :: "session \<Rightarrow> bool sio" where
  "simulateShowWarnErrReturn s =
     andThen (on_net (send_all writePacketHeaderPayloadNoFlush warn_packets) s) (\<lambda>_ s1.
     andThen (sendEOFPacketNoFlush s1) (\<lambda>_ s2.
     andThen (if 0 < warnErrCode s2
              then on_net (sendInPlace False
                     (assembleLenencString (Some ''Error'')
                      @ assembleLenencString (Some (show_int (warnErrCode s2)))
                      @ assembleLenencString (Some (warnErrMsg s2)))) s2
              else (Inr True, s2)) (\<lambda>_ s3.
     sendEOFPacketFlush s3)))"

definition simulateShowFieldsReturn :: "session \<Rightarrow> bool sio" where
  "simulateShowFieldsReturn = sendEOFPacketFlush"

definition grants_packets :: "bytes list" where
  "grants_packets =
     [hex_bytes [0x01],
      hex_bytes [0x03, 0x64, 0x65, 0x66, 0x00, 0x00, 0x00, 0x12, 0x47, 0x72, 0x61, 0x6e, 0x74, 0x73,
                 0x20, 0x66, 0x6f, 0x72, 0x20, 0x75, 0x73, 0x65, 0x72, 0x31, 0x40, 0x25, 0x00, 0x0c,
                 0x21, 0x00, 0x00, 0x0c, 0x00, 0x00, 0xfd, 0x01, 0x00, 0x1f, 0x00, 0x00]]"

definition grants_row :: bytes where
  "grants_row = hex_bytes
     [0x2a, 0x47, 0x52, 0x41, 0x4e, 0x54, 0x20, 0x41, 0x4c, 0x4c, 0x20, 0x50, 0x52, 0x49, 0x56, 0x49,
      0x4c, 0x45, 0x47, 0x45, 0x53, 0x20, 0x4f, 0x4e, 0x20, 0x2a, 0x2e, 0x2a, 0x20, 0x54, 0x4f, 0x20,
      0x27, 0x75, 0x73, 0x65, 0x72, 0x31, 0x27, 0x40, 0x27, 0x25, 0x27]"

definition simulateShowGrants :: "session \<Rightarrow> bool sio" where
  "simulateShowGrants s =
     andThen (on_net (send_all writePacketHeaderPayloadNoFlush grants_packets) s) (\<lambda>_ s1.
     andThen (sendEOFPacketNoFlush s1) (\<lambda>_ s2.
     andThen (on_net (writePacketHeaderPayloadNoFlush grants_row) s2) (\<lambda>_ s3.
     sendEOFPacketFlush s3)))"

section \<open>Reading packets as a client\<close>

text \<open>Reference decoders, after the description of the protocol.\<close>

definition take_lenenc :: "bytes \<Rightarrow> (nat \<times> bytes) option" where
  "take_lenenc bs = (case processLenencString bs of None \<Rightarrow> None | Some (v, k) \<Rightarrow> Some (v, drop k bs))"

definition take_string :: "bytes \<Rightarrow> (bytes \<times> bytes) option" where
  "take_string bs = (case take_lenenc bs of
      None \<Rightarrow> None
    | Some (n, r) \<Rightarrow> if n \<le> length r then Some (take n r, drop n r) else None)"

fun take_strings :: "nat \<Rightarrow> bytes \<Rightarrow> (bytes list \<times> bytes) option" where
  "take_strings 0 bs = Some ([], bs)"
| "take_strings (Suc n) bs = (case take_string bs of
      None \<Rightarrow> None
    | Some (x, r) \<Rightarrow> (case take_strings n r of None \<Rightarrow> None | Some (xs, r') \<Rightarrow> Some (x # xs, r')))"

definition client_counts :: "bytes \<Rightarrow> (nat \<times> nat \<times> nat \<times> nat \<times> bytes) option" where
  "client_counts bs =
     (case take_lenenc bs of None \<Rightarrow> None | Some (rows, bs1) \<Rightarrow>
        (case take_lenenc bs1 of None \<Rightarrow> None | Some (insert_id, bs2) \<Rightarrow>
           if length bs2 < 4 then None
           else Some (rows, insert_id, le_dec (bslice 0 2 bs2), le_dec (bslice 2 2 bs2), drop 4 bs2)))"

definition client_OK :: "bytes \<Rightarrow> (nat \<times> nat \<times> nat \<times> nat \<times> bytes) option" where
  "client_OK bs = (if bs \<noteq> [] \<and> hd bs = NUL then client_counts (tl bs) else None)"

definition client_ERR :: "bytes \<Rightarrow> (nat \<times> bytes \<times> bytes) option" where
  "client_ERR bs = (if length bs \<ge> 9 \<and> hd bs = CHR 0xFF \<and> bs ! 3 = CHR ''#''
     then Some (le_dec (bslice 1 2 bs), bslice 4 5 bs, drop 9 bs) else None)"

definition client_colDef :: "bytes \<Rightarrow> colDef option" where
  "client_colDef bs =
     (case take_strings 6 bs of
        Some ([cat, sch, tab, otab, col, ocol], r) \<Rightarrow>
          if cat = ''def'' \<and> length r = 13 \<and> hd r = CHR 0x0c
          then Some \<lparr> cd_schemaName = sch, cd_tableName = tab, cd_orgTableName = otab, cd_columnName = col,
                 cd_orgColumnName = ocol, cd_characterSet = int (le_dec (bslice 1 2 r)),
                 cd_columnLen = int (le_dec (bslice 3 4 r)), cd_columnType = int (le_dec (bslice 7 1 r)),
                 cd_columnFlags = int (le_dec (bslice 8 2 r)) \<rparr>
          else None
      | _ \<Rightarrow> None)"

section \<open>Lemmas\<close>

lemma take_lenenc_enc: "v < 2 ^ 64 \<Longrightarrow> take_lenenc (assembleLenencUnsignedLong v @ rest) = Some (v, rest)"
  by (simp add: take_lenenc_def process_assemble_Lenenc)

lemma assembleLenencString_alt: "assembleLenencString (Some x) = assembleLenencUnsignedLong (length x) @ x"
  by (simp add: assembleLenencString_def assembleLenencUnsignedLong_def le_enc_1 char_of_def)

lemma take_string_enc:
  "length x < 2 ^ 64 \<Longrightarrow> take_string (assembleLenencString (Some x) @ rest) = Some (x, rest)"
  by (simp add: take_string_def assembleLenencString_alt take_lenenc_enc)

lemma take_strings_enc:
  "list_all (\<lambda>x. length x < 2 ^ 64) xs \<Longrightarrow>
     take_strings (length xs) (concat (map (\<lambda>x. assembleLenencString (Some x)) xs) @ rest) = Some (xs, rest)"
  by (induction xs) (simp_all add: take_string_enc)

lemma le_dec_enc_int: "le_dec (le_enc_int k i) = nat (i mod 256 ^ k)"
  by (simp add: le_enc_int_def le_dec_le_enc_small nat_less_iff)

lemma length_lenenc: "length (assembleLenencUnsignedLong v) \<le> 9"
  by (simp add: assembleLenencUnsignedLong_def)

lemma char_of_consts: "char_of (0 :: nat) = NUL" "char_of (255 :: nat) = CHR 0xFF" "char_of (12 :: nat) = CHR 0x0C"
  by (simp_all add: char_of_def bit_Suc_0_iff)

definition status_counts :: "session \<Rightarrow> nat \<times> nat" where
  "status_counts s = (if 0 \<le> affectedRows s then nat (affectedRows s) else 0, lastInsertIDForPacket s)"

definition counts_in_range :: "session \<Rightarrow> bool" where
  "counts_in_range s \<longleftrightarrow> affectedRows s < 2 ^ 63 \<and> lastInsertIDForPacket s < 2 ^ 64"

lemma common_payload_decodes:
  assumes "has_cap s MYS_CLT_PROTOCOL_41" "counts_in_range s"
    "assembleOKEOFCommonPacketPayload s st w = Some p"
  shows "\<exists>rest. client_counts p = Some (fst (status_counts s), snd (status_counts s),
           nat (st mod 65536), nat (w mod 65536), rest)"
proof -
  obtain rest where p: "p = assembleLenencUnsignedLong (fst (status_counts s))
      @ assembleLenencUnsignedLong (snd (status_counts s)) @ le_enc_int 2 st @ le_enc_int 2 w @ rest"
    using assms(1,3)
    by (auto simp: assembleOKEOFCommonPacketPayload_def Let_def status_counts_def split: if_splits option.splits)
  have "fst (status_counts s) < 2 ^ 64" "snd (status_counts s) < 2 ^ 64"
    using assms(2) by (auto simp: status_counts_def counts_in_range_def nat_less_iff)
  moreover have "bslice 2 2 (le_enc_int 2 st @ le_enc_int 2 w @ rest) = le_enc_int 2 w"
    by (simp add: bslice_def)
  ultimately show ?thesis
    by (auto simp: client_counts_def p take_lenenc_enc le_dec_enc_int)
qed

text \<open>Sending one assembled packet from a session.\<close>

definition sess_ready :: "session \<Rightarrow> bool" where "sess_ready s \<longleftrightarrow> tx_ready (s_net s)"

lemma on_net_sendInPlace:
  assumes "sess_ready s" "short_payload p"
  shows "\<exists>n. on_net (sendInPlace fl p) s = (Inr True, s \<lparr> s_net := n \<rparr>) \<and> tx_ready n
           \<and> wire n = wire (s_net s) @ frames (netPacketSeqID (s_net s)) p
           \<and> netPacketSeqID n = seq_after (netPacketSeqID (s_net s)) (length p) \<and> (fl \<longrightarrow> sent n = wire n)"
  using sendInPlace_ok [of "s_net s" p fl] assms by (auto simp: sess_ready_def on_net_def)

text \<open>Bounds: the strings of the session fit their arrays of 1024 bytes.\<close>

definition strings_fit :: "session \<Rightarrow> bool" where
  "strings_fit s \<longleftrightarrow> length (sessionTrackInfo s) < 1024 \<and> length (systemVarName s) < 1024
     \<and> length (systemVarVal s) < 1024 \<and> length (warnErrMsg s) < 1024"

lemma length_lenenc_string: "length (assembleLenencString (Some x)) \<le> 9 + length x"
  using length_lenenc [of "length x"] by (simp add: assembleLenencString_alt)

lemma length_lenenc_string2: "length (assembleLenencString2 x (int (length x))) \<le> 9 + length x"
  using length_lenenc [of "length x"] by (simp add: assembleLenencString2_def)

lemma sessionTrackBlock_length: "sessionTrackBlock s = Some b \<Longrightarrow> length b \<le> 1033"
  using length_lenenc_string2 [of "sessionStateInfo s"]
  by (auto simp: sessionTrackBlock_def Let_def split: if_splits)

lemma common_payload_length:
  assumes "assembleOKEOFCommonPacketPayload s st w = Some p" "strings_fit s"
  shows "length p \<le> 3000"
proof -
  let ?a = "if 0 \<le> affectedRows s then nat (affectedRows s) else 0"
  have "length (assembleLenencUnsignedLong ?a) \<le> 9" "length (assembleLenencUnsignedLong (lastInsertIDForPacket s)) \<le> 9"
    "length (assembleLenencString (Some (sessionTrackInfo s))) \<le> 1033" "length (sessionTrackInfo s) \<le> 1033"
    using length_lenenc length_lenenc_string [of "sessionTrackInfo s"] assms(2) by (auto simp: strings_fit_def)
  with assms(1) sessionTrackBlock_length [of s] show ?thesis
    by (auto simp: assembleOKEOFCommonPacketPayload_def Let_def split: if_splits option.splits)
qed

lemma has_cap_serverStatus [simp]: "has_cap (s \<lparr> serverStatus := x \<rparr>) c = has_cap s c"
  by (simp add: has_cap_def)

lemma track_parts_serverStatus [simp]:
  "dataOfTheChangedSessionInfo (s \<lparr> serverStatus := x \<rparr>) = dataOfTheChangedSessionInfo s"
  "sessionStateKind (s \<lparr> serverStatus := x \<rparr>) = sessionStateKind s"
  by (auto simp: dataOfTheChangedSessionInfo_def sessionStateKind_def)

lemma trackedData_serverStatus [simp]: "trackedData (s \<lparr> serverStatus := x \<rparr>) = trackedData s"
  by (simp add: trackedData_def)

lemma track_serverStatus [simp]: "sessionTrackBlock (s \<lparr> serverStatus := x \<rparr>) = sessionTrackBlock s"
  by (simp add: sessionTrackBlock_def sessionStateInfo_def)

lemma common_serverStatus [simp]:
  "assembleOKEOFCommonPacketPayload (s \<lparr> serverStatus := x \<rparr>) st w = assembleOKEOFCommonPacketPayload s st w"
  by (auto simp: assembleOKEOFCommonPacketPayload_def Let_def split: option.split)

lemma sess_ready_fields [simp]:
  "sess_ready (s \<lparr> serverStatus := x \<rparr>) = sess_ready s" "sess_ready (clear_track s) = sess_ready s"
  "s_net (clear_track s) = s_net s" "sess_ready (s \<lparr> s_net := n \<rparr>) = tx_ready n"
  by (simp_all add: sess_ready_def clear_track_def)

lemma common_Some:
  "has_cap s MYS_CLT_SESSION_TRACK \<longrightarrow> sessionTrackBlock s \<noteq> None \<Longrightarrow>
     \<exists>p. assembleOKEOFCommonPacketPayload s st w = Some p"
  by (auto simp: assembleOKEOFCommonPacketPayload_def Let_def)

lemma sendOKPacket_delivers:
  assumes "sess_ready s" "strings_fit s" "assembleOKEOFCommonPacketPayload s (status_word s) (warnings s) = Some p"
  shows "\<exists>n. sendOKPacket s = (Inr True, (clear_track (s \<lparr> serverStatus := status_word s \<rparr>)) \<lparr> s_net := n \<rparr>)
           \<and> tx_ready n \<and> sent n = wire n
           \<and> wire n = wire (s_net s) @ frames (netPacketSeqID (s_net s)) (le_enc 1 0 @ p)"
proof -
  let ?s = "clear_track (s \<lparr> serverStatus := status_word s \<rparr>)"
  have "short_payload (le_enc 1 0 @ p)"
    using common_payload_length [OF assms(3,2)] by (simp add: short_payload_def)
  then obtain n where "on_net (sendInPlace True (le_enc 1 0 @ p)) ?s = (Inr True, ?s \<lparr> s_net := n \<rparr>)" "tx_ready n"
      "wire n = wire (s_net s) @ frames (netPacketSeqID (s_net s)) (le_enc 1 0 @ p)" "sent n = wire n"
    using on_net_sendInPlace [of ?s "le_enc 1 0 @ p" True] assms(1) by auto
  then show ?thesis
    using assms(3)
    by (intro exI [of _ n]) (simp add: sendOKPacket_def Let_def assembleOKPacketPayload_def)
qed

text \<open>\<open>delivers s ps r\<close>: the result \<open>r\<close> of an operation started in \<open>s\<close> is success with the
  packets \<open>ps\<close> added to the wire.\<close>

definition delivers :: "session \<Rightarrow> bytes list \<Rightarrow> bool sio \<Rightarrow> bool" where
  "delivers s ps r \<longleftrightarrow> (case r of (res, s') \<Rightarrow> res = Inr True \<and> sess_ready s'
     \<and> wire (s_net s') = wire (s_net s) @ frames_all (netPacketSeqID (s_net s)) ps
     \<and> netPacketSeqID (s_net s') = seq_all (netPacketSeqID (s_net s)) ps
     \<and> frontEndCaps s' = frontEndCaps s \<and> strings_fit s' = strings_fit s)"

lemma delivers_andThen:
  assumes "delivers s ps m" "\<And>s'. m = (Inr True, s') \<Longrightarrow> delivers s' qs (f True s')"
  shows "delivers s (ps @ qs) (andThen m f)"
proof -
  obtain r s' where m: "m = (r, s')" by (cases m)
  with assms(1) have "m = (Inr True, s')"
    by (simp add: delivers_def)
  with assms(2) [OF this] assms(1) show ?thesis
    by (auto simp: delivers_def frames_all_append seq_all_append)
qed

lemma delivers_nothing: "sess_ready s \<Longrightarrow> delivers s [] (Inr True, s)"
  by (simp add: delivers_def)

lemma delivers_inplace:
  assumes "sess_ready s" "short_payload p"
  shows "delivers s [p] (on_net (sendInPlace fl p) s)"
  using on_net_sendInPlace [OF assms, of fl] by (auto simp: delivers_def sess_ready_def strings_fit_def)

lemma delivers_packets:
  assumes "sess_ready s"
  shows "delivers s ps (on_net (send_all writePacketHeaderPayloadNoFlush ps) s)"
proof -
  obtain n where "send_all writePacketHeaderPayloadNoFlush ps (s_net s) = (Inr True, n)" "tx_ready n"
      "wire n = wire (s_net s) @ frames_all (netPacketSeqID (s_net s)) ps"
      "netPacketSeqID n = seq_all (netPacketSeqID (s_net s)) ps"
    using noflush.send_all_delivers [of "s_net s" ps] assms
    by (auto simp: sess_ready_def any_payload_def list_all_iff)
  then show ?thesis by (simp add: delivers_def on_net_def sess_ready_def strings_fit_def)
qed

text \<open>The EOF packet of a session.\<close>

definition eof_payload :: "session \<Rightarrow> bytes" where
  "eof_payload s = the (assembleEOFPacketPayload s (warnings s) (status_word s))"

definition no_track_overflow :: "session \<Rightarrow> bool" where
  "no_track_overflow s \<longleftrightarrow> (if has_cap s MYS_CLT_SESSION_TRACK then sessionTrackBlock s \<noteq> None else True)"

lemma assembleEOF_short:
  assumes "no_track_overflow s" "strings_fit s"
  shows "\<exists>p. assembleEOFPacketPayload s w st = Some p \<and> short_payload p"
proof -
  obtain p where p: "assembleOKEOFCommonPacketPayload s st w = Some p"
    using common_Some [of s st w] assms(1) by (auto simp: no_track_overflow_def split: if_splits)
  with common_payload_length [OF p assms(2)] show ?thesis
    by (simp add: assembleEOFPacketPayload_def short_payload_def)
qed

lemma assembleEOF_serverStatus [simp]:
  "assembleEOFPacketPayload (s \<lparr> serverStatus := x \<rparr>) w st = assembleEOFPacketPayload s w st"
  unfolding assembleEOFPacketPayload_def has_cap_serverStatus common_serverStatus ..

lemma sendEOFPacket_result:
  assumes "sess_ready s" "no_track_overflow s" "strings_fit s"
  shows "\<exists>n. sendEOFPacket fl s = (Inr True, s \<lparr> serverStatus := status_word s, s_net := n \<rparr>) \<and> tx_ready n
           \<and> delivers s [eof_payload s] (sendEOFPacket fl s) \<and> (fl \<longrightarrow> sent n = wire n)"
proof -
  let ?s = "s \<lparr> serverStatus := status_word s \<rparr>"
  obtain p where p: "assembleEOFPacketPayload s (warnings s) (status_word s) = Some p" "short_payload p"
    using assembleEOF_short [OF assms(2,3)] by blast
  have e: "assembleEOFPacketPayload ?s (warnings s) (status_word s) = Some p" "eof_payload s = p"
    using p by (simp_all add: eof_payload_def)
  obtain n where "on_net (sendInPlace fl p) ?s = (Inr True, ?s \<lparr> s_net := n \<rparr>)" "tx_ready n" "fl \<longrightarrow> sent n = wire n"
    using on_net_sendInPlace [of ?s p fl] assms(1) p(2) by auto
  moreover from this have "delivers ?s [p] (on_net (sendInPlace fl p) ?s)"
    using delivers_inplace [of ?s p fl] assms(1) p(2) by simp
  ultimately show ?thesis
    using e by (auto simp: sendEOFPacket_def Let_def delivers_def strings_fit_def)
qed

lemma has_cap_net [simp]: "has_cap (s \<lparr> s_net := n \<rparr>) c = has_cap s c"
  by (simp add: has_cap_def)

lemma track_net [simp]:
  "dataOfTheChangedSessionInfo (s \<lparr> s_net := n \<rparr>) = dataOfTheChangedSessionInfo s"
  "sessionStateKind (s \<lparr> s_net := n \<rparr>) = sessionStateKind s"
  by (auto simp: dataOfTheChangedSessionInfo_def sessionStateKind_def)

lemma trackedData_net [simp]: "trackedData (s \<lparr> s_net := n \<rparr>) = trackedData s"
  by (simp add: trackedData_def)

lemma sessionTrackBlock_net [simp]: "sessionTrackBlock (s \<lparr> s_net := n \<rparr>) = sessionTrackBlock s"
  by (simp add: sessionTrackBlock_def sessionStateInfo_def)

lemma common_net [simp]:
  "assembleOKEOFCommonPacketPayload (s \<lparr> s_net := n \<rparr>) st w = assembleOKEOFCommonPacketPayload s st w"
  by (auto simp: assembleOKEOFCommonPacketPayload_def Let_def split: option.split)

lemma eof_parts_net [simp]:
  "status_word (s \<lparr> s_net := n \<rparr>) = status_word s" "status_word (s \<lparr> serverStatus := x \<rparr>) = status_word s"
  "no_track_overflow (s \<lparr> s_net := n \<rparr>) = no_track_overflow s"
  "no_track_overflow (s \<lparr> serverStatus := x \<rparr>) = no_track_overflow s"
  "strings_fit (s \<lparr> s_net := n \<rparr>) = strings_fit s" "strings_fit (s \<lparr> serverStatus := x \<rparr>) = strings_fit s"
  by (simp_all add: status_word_def no_track_overflow_def strings_fit_def)

lemma assembleEOF_net [simp]:
  "assembleEOFPacketPayload (s \<lparr> s_net := n \<rparr>) w st = assembleEOFPacketPayload s w st"
  unfolding assembleEOFPacketPayload_def has_cap_net common_net ..

lemma eof_payload_net [simp]:
  "eof_payload (s \<lparr> s_net := n \<rparr>) = eof_payload s" "eof_payload (s \<lparr> serverStatus := x \<rparr>) = eof_payload s"
  by (simp_all add: eof_payload_def)

text \<open>\<open>same_but_net s s'\<close>: the sessions differ at most in the transceiver and the status word.
  \<open>replies\<close> is \<open>delivers\<close> for operations that change nothing else.\<close>

definition same_but_net :: "session \<Rightarrow> session \<Rightarrow> bool" where
  "same_but_net s s' \<longleftrightarrow> s' = s \<lparr> s_net := s_net s', serverStatus := serverStatus s' \<rparr>"

lemma same_but_net_facts:
  assumes "same_but_net s s'"
  shows "eof_payload s' = eof_payload s" "no_track_overflow s' = no_track_overflow s" "strings_fit s' = strings_fit s"
    "warnErrCode s' = warnErrCode s" "warnErrMsg s' = warnErrMsg s" "has_cap s' c = has_cap s c"
  by (subst assms [unfolded same_but_net_def], simp)+

lemma same_but_net_trans:
  assumes "same_but_net a b" "same_but_net b c"
  shows "same_but_net a c"
proof -
  let ?u = "\<lambda>s. s \<lparr> s_net := s_net c, serverStatus := serverStatus c \<rparr>"
  have "c = ?u b"
    using assms(2) by (simp add: same_but_net_def)
  also have "\<dots> = ?u (a \<lparr> s_net := s_net b, serverStatus := serverStatus b \<rparr>)"
    using assms(1) arg_cong [of b _ ?u] unfolding same_but_net_def by blast
  finally show ?thesis by (simp add: same_but_net_def)
qed

definition replies :: "session \<Rightarrow> bytes list \<Rightarrow> bool sio \<Rightarrow> bool" where
  "replies s ps r \<longleftrightarrow> delivers s ps r \<and> same_but_net s (snd r)"

lemma replies_andThen:
  assumes "replies s ps m" "\<And>s'. same_but_net s s' \<Longrightarrow> sess_ready s' \<Longrightarrow> replies s' qs (f True s')"
  shows "replies s (ps @ qs) (andThen m f)"
proof -
  obtain s' where m: "m = (Inr True, s')" "sess_ready s'" "same_but_net s s'"
    using assms(1) by (cases m) (auto simp: replies_def delivers_def)
  with assms(2) have "replies s' qs (f True s')" by blast
  then show ?thesis
    using assms(1) m delivers_andThen [of s ps m qs f] same_but_net_trans
    by (auto simp: replies_def)
qed

lemma same_but_net_on_net: "same_but_net s (snd (on_net f s))"
  by (simp add: same_but_net_def on_net_def split: prod.splits)

lemma replies_packets: "sess_ready s \<Longrightarrow> replies s ps (on_net (send_all writePacketHeaderPayloadNoFlush ps) s)"
  by (simp add: replies_def delivers_packets same_but_net_on_net)

lemma replies_inplace: "sess_ready s \<Longrightarrow> short_payload p \<Longrightarrow> replies s [p] (on_net (sendInPlace fl p) s)"
  by (simp add: replies_def delivers_inplace same_but_net_on_net)

lemma replies_nothing: "sess_ready s \<Longrightarrow> replies s [] (Inr True, s)"
  by (simp add: replies_def delivers_nothing same_but_net_def)

lemma replies_EOF:
  assumes "sess_ready s" "no_track_overflow s" "strings_fit s"
  shows "replies s [eof_payload s] (sendEOFPacket fl s)"
  using sendEOFPacket_result [OF assms, of fl] by (auto simp: replies_def same_but_net_def)

lemma replies_EOFNoFlush:
  assumes "sess_ready s" "no_track_overflow s" "strings_fit s"
  shows "replies s (if has_cap s MYS_CLT_DEPRECATE_EOF then [] else [eof_payload s]) (sendEOFPacketNoFlush s)"
  using replies_EOF [OF assms] replies_nothing [OF assms(1)] by (simp add: sendEOFPacketNoFlush_def)

definition warn_row :: "session \<Rightarrow> bytes" where
  "warn_row s = assembleLenencString (Some ''Error'') @ assembleLenencString (Some (show_int (warnErrCode s)))
     @ assembleLenencString (Some (warnErrMsg s))"

definition warn_reply :: "session \<Rightarrow> bytes list" where
  "warn_reply s = warn_packets @ (if has_cap s MYS_CLT_DEPRECATE_EOF then [] else [eof_payload s])
     @ (if 0 < warnErrCode s then [warn_row s] else []) @ [eof_payload s]"

lemma warn_row_short:
  assumes "strings_fit s" "warnErrCode s \<le> 65535" "0 < warnErrCode s"
  shows "short_payload (warn_row s)"
proof -
  have "nat (warnErrCode s) \<le> 65535"
    using assms(2) by simp
  with length_lenenc_string [of "show_int (warnErrCode s)"] length_lenenc_string [of "warnErrMsg s"]
    length_lenenc_string [of "''Error''"] show_nat_length [of "nat (warnErrCode s)" 4] assms
  show ?thesis
    by (simp add: short_payload_def warn_row_def strings_fit_def show_int_def)
qed

lemma warn_reply_sent:
  assumes "sess_ready s" "no_track_overflow s" "strings_fit s" "warnErrCode s \<le> 65535"
  shows "replies s (warn_reply s) (simulateShowWarnErrReturn s)"
  unfolding simulateShowWarnErrReturn_def warn_reply_def
proof (intro replies_andThen replies_packets assms(1), goal_cases)
  case (1 s1)
  then show ?case
    using replies_EOFNoFlush [of s1] assms same_but_net_facts [of s s1] by (simp split: if_splits)
next
  case (2 s1 s2)
  then have e: "warnErrCode s2 = warnErrCode s" "warn_row s2 = warn_row s" "strings_fit s2"
    using assms same_but_net_facts [of s s1] same_but_net_facts [of s1 s2] by (simp_all add: warn_row_def)
  show ?case
    using replies_inplace [of s2 "warn_row s" False] replies_nothing [of s2] 2 e warn_row_short [of s2] assms(4)
    by (auto simp: warn_row_def)
next
  case (3 s1 s2 s3)
  then show ?case
    using replies_EOF [of s3 True] assms same_but_net_facts [of s s1] same_but_net_facts [of s1 s2]
      same_but_net_facts [of s2 s3] by (simp add: sendEOFPacketFlush_def)
qed

section \<open>Properties\<close>

text \<open>C14.  An OK packet tells the client the truth: on a ready connection \<open>sendOKPacket\<close>
  succeeds, everything is on the wire, flushed, as one framed payload, and a client of
  protocol 4.1 decodes from it the number of affected rows, the last insert id, the server
  status and the warning count of the session.\<close>

theorem sendOKPacket_reports:
  assumes "sess_ready s" "strings_fit s" "counts_in_range s" "has_cap s MYS_CLT_PROTOCOL_41"
    and "has_cap s MYS_CLT_SESSION_TRACK \<longrightarrow> sessionTrackBlock s \<noteq> None"
  shows "\<exists>s' p rest. sendOKPacket s = (Inr True, s') \<and> sess_ready s'
     \<and> sent (s_net s') = wire (s_net s) @ frames (netPacketSeqID (s_net s)) p
     \<and> client_OK p = Some (fst (status_counts s), snd (status_counts s), nat (status_word s mod 65536),
          nat (warnings s mod 65536), rest)"
proof -
  obtain p where p: "assembleOKEOFCommonPacketPayload s (status_word s) (warnings s) = Some p"
    using common_Some [OF assms(5)] by blast
  obtain rest where "client_counts p = Some (fst (status_counts s), snd (status_counts s),
      nat (status_word s mod 65536), nat (warnings s mod 65536), rest)"
    using common_payload_decodes [OF assms(4,3) p] by blast
  then have "client_OK (le_enc 1 0 @ p) = Some (fst (status_counts s), snd (status_counts s),
      nat (status_word s mod 65536), nat (warnings s mod 65536), rest)"
    by (simp add: client_OK_def le_enc_1 char_of_consts)
  moreover obtain n where
    "sendOKPacket s = (Inr True, (clear_track (s \<lparr> serverStatus := status_word s \<rparr>)) \<lparr> s_net := n \<rparr>)"
    "tx_ready n" "sent n = wire (s_net s) @ frames (netPacketSeqID (s_net s)) (le_enc 1 0 @ p)"
    using sendOKPacket_delivers [OF assms(1,2) p] by auto
  ultimately show ?thesis
    by (intro exI [of _ "(clear_track (s \<lparr> serverStatus := status_word s \<rparr>)) \<lparr> s_net := n \<rparr>"]
        exI [of _ "le_enc 1 0 @ p"] exI [of _ rest]) simp
qed

lemma sess_ready_init: "wr_ok (initNetTransceiver rds wrs) \<Longrightarrow> sess_ready (init_session caps (initNetTransceiver rds wrs))"
  by (simp add: sess_ready_def init_session_def tx_ready_init)

theorem sendOKPacket_reports_witness:
  "\<exists>s' p rest. sendOKPacket ((init_session 512 (initNetTransceiver [] [Accept 3])) \<lparr> affectedRows := 300 \<rparr>) = (Inr True, s')
     \<and> sess_ready s' \<and> sent (s_net s') = frames 0 p \<and> client_OK p = Some (300, 0, 2, 0, rest)"
proof -
  let ?s = "(init_session 512 (initNetTransceiver [] [Accept 3])) \<lparr> affectedRows := 300 \<rparr>"
  have r: "sess_ready ?s"
    using sess_ready_init [of "[]" "[Accept 3]" 512] by (simp add: sess_ready_def wr_ok_def)
  have f: "s_net ?s = initNetTransceiver [] [Accept 3]" "status_word ?s = 2" "status_counts ?s = (300, 0)" "warnings ?s = 0"
    by (simp_all add: init_session_def status_word_def status_counts_def)
  have c: "strings_fit ?s" "counts_in_range ?s" "has_cap ?s MYS_CLT_PROTOCOL_41" "\<not> has_cap ?s MYS_CLT_SESSION_TRACK"
    by (simp_all add: init_session_def strings_fit_def counts_in_range_def has_cap_def
        MYS_CLT_PROTOCOL_41_def MYS_CLT_SESSION_TRACK_def)
  show ?thesis
    using sendOKPacket_reports [OF r c(1-3)] c(4) by (simp add: f)
qed

text \<open>C23.  When the client asked for session tracking, changing to a schema with a long name
  overruns the local arrays of 1024 bytes in which the tracking block is assembled, although
  the name itself was accepted.\<close>

theorem sendOKPacket_track_overflow:
  assumes "has_cap s MYS_CLT_SESSION_TRACK" "sessionStateChanged s \<noteq> 0" "sessionStateType s = 1"
    and "isSsTrackSchemaOn s" "1018 \<le> length (systemVarVal s)" "length (systemVarVal s) \<le> 1024"
  shows "\<exists>s'. sendOKPacket s = (Inl OutOfBounds, s')"
proof -
  have "length (trackedData s) \<ge> 3 + length (systemVarVal s)"
    using assms by (auto simp: trackedData_def dataOfTheChangedSessionInfo_def val_or_null_def
        assembleLenencString_alt assembleLenencUnsignedLong_def Let_def)
  moreover from this assms(5) have "length (assembleLenencString2 (trackedData s) (int (length (trackedData s))))
      \<ge> 3 + length (trackedData s)"
    by (auto simp: assembleLenencString2_def assembleLenencUnsignedLong_def)
  moreover have "length (sessionStateKind s) = 1"
    using assms by (simp add: sessionStateKind_def assembleLenencUnsignedLong_def)
  ultimately have "length (sessionStateInfo s) > 1024"
    using assms(5) by (auto simp: sessionStateInfo_def)
  then have "sessionTrackBlock s = None"
    by (simp add: sessionTrackBlock_def)
  then show ?thesis
    using assms(1) by (simp add: sendOKPacket_def assembleOKPacketPayload_def assembleOKEOFCommonPacketPayload_def Let_def)
qed

theorem sendOKPacket_track_overflow_witness:
  "\<exists>s'. sendOKPacket ((init_session (512 + 2 ^ 23) (initNetTransceiver [] [])) \<lparr> sessionStateChanged := 0x4000,
      sessionStateType := 1, systemVarVal := replicate 1020 (CHR ''a'') \<rparr>) = (Inl OutOfBounds, s')"
  by (rule sendOKPacket_track_overflow)
     (simp_all add: init_session_def has_cap_def MYS_CLT_SESSION_TRACK_def)

text \<open>C24.  Column definitions round trip: a client decodes from the payload the names, the
  character set, the length, the type and the flags the adapter described.\<close>

theorem colDef_roundtrip:
  assumes "length (cd_schemaName c) < 2 ^ 31" "length (cd_tableName c) < 2 ^ 31" "length (cd_orgTableName c) < 2 ^ 31"
    and "length (cd_columnName c) < 2 ^ 31" "length (cd_orgColumnName c) < 2 ^ 31"
    and "0 \<le> cd_characterSet c \<and> cd_characterSet c < 65536" "0 \<le> cd_columnLen c \<and> cd_columnLen c < 2 ^ 32"
    and "0 \<le> cd_columnType c \<and> cd_columnType c < 256" "0 \<le> cd_columnFlags c \<and> cd_columnFlags c < 65536"
  shows "client_colDef (assembleColDefPacket41Payload c) = Some c"
proof -
  let ?ss = "[''def'', cd_schemaName c, cd_tableName c, cd_orgTableName c, cd_columnName c, cd_orgColumnName c]"
  let ?r = "assembleLenencUnsignedLong 0x0c @ le_enc_int 2 (cd_characterSet c) @ le_enc_int 4 (cd_columnLen c)
     @ le_enc_int 1 (cd_columnType c) @ le_enc_int 2 (cd_columnFlags c)
     @ le_enc_int 1 (colDef_decimals (cd_columnType c)) @ le_enc_int 2 0"
  have "assembleColDefPacket41Payload c = concat (map (\<lambda>x. assembleLenencString (Some x)) ?ss) @ ?r"
    by (simp add: assembleColDefPacket41Payload_def)
  moreover have len: "length ?ss = 6"
    by simp
  have "take_strings (length ?ss) (concat (map (\<lambda>x. assembleLenencString (Some x)) ?ss) @ ?r) = Some (?ss, ?r)"
    by (rule take_strings_enc) (use assms in simp)
  then have "take_strings 6 (concat (map (\<lambda>x. assembleLenencString (Some x)) ?ss) @ ?r) = Some (?ss, ?r)"
    unfolding len .
  moreover have "assembleLenencUnsignedLong 0x0c = [CHR 0x0C]"
    by (simp add: assembleLenencUnsignedLong_def le_enc_1 char_of_consts)
  ultimately show ?thesis
    using assms unfolding client_colDef_def by (simp add: bslice_def le_dec_enc_int)
qed

theorem colDef_roundtrip_witness:
  "client_colDef (assembleColDefPacket41Payload
     \<lparr> cd_schemaName = ''shop'', cd_tableName = ''t'', cd_orgTableName = ''t'', cd_columnName = ''id'',
       cd_orgColumnName = ''id'', cd_characterSet = 63, cd_columnLen = 11, cd_columnType = 3, cd_columnFlags = 128 \<rparr>)
   = Some \<lparr> cd_schemaName = ''shop'', cd_tableName = ''t'', cd_orgTableName = ''t'', cd_columnName = ''id'',
       cd_orgColumnName = ''id'', cd_characterSet = 63, cd_columnLen = 11, cd_columnType = 3, cd_columnFlags = 128 \<rparr>"
  by (rule colDef_roundtrip) simp_all

text \<open>C25.  An error packet reaches the client with the converted error number (its low-order
  16 bits), the SQL state and the first 1024 characters of the message, and the session
  remembers the number and the first 1023 characters for \<open>SHOW WARNINGS\<close>.\<close>

theorem sendErrPacket_reports:
  assumes "sess_ready s" "has_cap s MYS_CLT_PROTOCOL_41" "length sqlState = 5"
  shows "\<exists>s' p. sendErrPacket errCode errMsg sqlState s = (Inr True, s') \<and> sess_ready s'
     \<and> sent (s_net s') = wire (s_net s) @ frames (netPacketSeqID (s_net s)) p
     \<and> client_ERR p = Some (nat (convertErrorCode (haloMysqlErrorCodes s) errCode mod 65536), sqlState, take 1024 errMsg)
     \<and> warnErrCode s' = convertErrorCode (haloMysqlErrorCodes s) errCode \<and> warnErrMsg s' = take 1023 errMsg"
proof -
  define c where "c = convertErrorCode (haloMysqlErrorCodes s) errCode"
  let ?s = "s \<lparr> warnErrCode := c, warnErrMsg := take 1023 errMsg \<rparr>"
  define p where "p = assembleErrorPacketPayload ?s c sqlState errMsg"
  have p: "p = CHR 0xFF # le_enc_int 2 c @ CHR ''#'' # sqlState @ take 1024 errMsg"
    using assms(2,3) by (simp add: p_def assembleErrorPacketPayload_def has_cap_def le_enc_1 char_of_consts min_def)
  have "client_ERR p = Some (nat (c mod 65536), sqlState, take 1024 errMsg)"
    using assms(3) by (simp add: client_ERR_def p nth_append bslice_def le_dec_enc_int)
  moreover have "short_payload p"
    using assms(3) by (simp add: short_payload_def p)
  moreover from this obtain n where "on_net (sendInPlace True p) ?s = (Inr True, ?s \<lparr> s_net := n \<rparr>)" "tx_ready n"
      "sent n = wire (s_net s) @ frames (netPacketSeqID (s_net s)) p"
    using on_net_sendInPlace [of ?s p True] assms(1) by (auto simp: sess_ready_def)
  ultimately show ?thesis
    by (intro exI [of _ "?s \<lparr> s_net := n \<rparr>"] exI [of _ p])
       (simp add: sendErrPacket_def Let_def p_def c_def)
qed

theorem sendErrPacket_reports_witness:
  "\<exists>s' p. sendErrPacket 83906754 ''duplicate key'' ''HY000'' (init_session 512 (initNetTransceiver [] [])) = (Inr True, s')
     \<and> sess_ready s' \<and> sent (s_net s') = frames 0 p \<and> client_ERR p = Some (1062, ''HY000'', ''duplicate key'')
     \<and> warnErrCode s' = 1062 \<and> warnErrMsg s' = ''duplicate key''"
proof -
  let ?s = "init_session 512 (initNetTransceiver [] [])"
  have r: "sess_ready ?s"
    by (simp add: sess_ready_init wr_ok_def)
  have c: "has_cap ?s MYS_CLT_PROTOCOL_41" "s_net ?s = initNetTransceiver [] []"
    "convertErrorCode (haloMysqlErrorCodes ?s) 83906754 = 1062"
    by (simp_all add: init_session_def has_cap_def MYS_CLT_PROTOCOL_41_def convertErrorCode_lookup error_code_pairs_def)
  show ?thesis
    using sendErrPacket_reports [OF r c(1), of "''HY000''" 83906754 "''duplicate key''"] by (simp add: c)
qed

text \<open>\<open>SHOW WARNINGS\<close> answers with a complete, consistently numbered result set: the
  column count and three column definitions, the EOF packet that clients without
  \<open>DEPRECATE_EOF\<close> expect, one row with the remembered error exactly when there is one, and
  the final EOF packet; nothing else in the session changes.\<close>

theorem showWarnings_reply:
  assumes "sess_ready s" "no_track_overflow s" "strings_fit s" "warnErrCode s \<le> 65535"
  shows "\<exists>s'. simulateShowWarnErrReturn s = (Inr True, s') \<and> sess_ready s' \<and> same_but_net s s'
     \<and> wire (s_net s') = wire (s_net s) @ frames_all (netPacketSeqID (s_net s)) (warn_reply s)"
  using warn_reply_sent [OF assms]
  by (cases "simulateShowWarnErrReturn s") (auto simp: replies_def delivers_def)

theorem showWarnings_reply_witness:
  "\<exists>s'. simulateShowWarnErrReturn ((init_session 512 (initNetTransceiver [] [])) \<lparr> warnErrCode := 1146,
          warnErrMsg := ''no table'' \<rparr>) = (Inr True, s')
     \<and> wire (s_net s') = frames_all 0 (warn_reply ((init_session 512 (initNetTransceiver [] [])) \<lparr> warnErrCode := 1146,
          warnErrMsg := ''no table'' \<rparr>))"
proof -
  let ?s = "(init_session 512 (initNetTransceiver [] [])) \<lparr> warnErrCode := 1146, warnErrMsg := ''no table'' \<rparr>"
  have "sess_ready ?s"
    using sess_ready_init [of "[]" "[]" 512] by (simp add: sess_ready_def wr_ok_def)
  moreover have "no_track_overflow ?s" "strings_fit ?s" "warnErrCode ?s \<le> 65535" "s_net ?s = initNetTransceiver [] []"
    by (simp_all add: init_session_def strings_fit_def no_track_overflow_def has_cap_def MYS_CLT_SESSION_TRACK_def)
  ultimately show ?thesis
    using showWarnings_reply [of ?s] by auto
qed

end
