(* ===== verification/DataTypes.thy ===== *)
theory DataTypes
  imports AdapterState
begin

text \<open>
  The translation of server data types to MySQL field types in
  \<open>src/backend/adapter/mysql/adapter.c\<close>: the enumeration, the choice by type name and the
  cache in front of it.  The catalog lookup \<open>getTypeName\<close> is the parameter \<open>typeName\<close>.
\<close>

definition MYS_TYPE_DECIMAL :: nat where "MYS_TYPE_DECIMAL = 0"
definition MYS_TYPE_TINY :: nat where "MYS_TYPE_TINY = 1"
definition MYS_TYPE_SHORT :: nat where "MYS_TYPE_SHORT = 2"
definition MYS_TYPE_LONG :: nat where "MYS_TYPE_LONG = 3"
definition MYS_TYPE_FLOAT :: nat where "MYS_TYPE_FLOAT = 4"
definition MYS_TYPE_DOUBLE :: nat where "MYS_TYPE_DOUBLE = 5"
definition MYS_TYPE_TIMESTAMP :: nat where "MYS_TYPE_TIMESTAMP = 7"
definition MYS_TYPE_LONGLONG :: nat where "MYS_TYPE_LONGLONG = 8"
definition MYS_TYPE_INT24 :: nat where "MYS_TYPE_INT24 = 9"
definition MYS_TYPE_DATE :: nat where "MYS_TYPE_DATE = 10"
definition MYS_TYPE_TIME :: nat where "MYS_TYPE_TIME = 11"
definition MYS_TYPE_DATETIME :: nat where "MYS_TYPE_DATETIME = 12"
definition MYS_TYPE_YEAR :: nat where "MYS_TYPE_YEAR = 13"
definition MYS_TYPE_VARCHAR :: nat where "MYS_TYPE_VARCHAR = 15"
definition MYS_TYPE_BIT :: nat where "MYS_TYPE_BIT = 16"
definition MYS_TYPE_BOOL :: nat where "MYS_TYPE_BOOL = 244"
definition MYS_TYPE_JSON :: nat where "MYS_TYPE_JSON = 245"
definition MYS_TYPE_NEWDECIMAL :: nat where "MYS_TYPE_NEWDECIMAL = 246"
definition MYS_TYPE_ENUM :: nat where "MYS_TYPE_ENUM = 247"
definition MYS_TYPE_SET :: nat where "MYS_TYPE_SET = 248"
definition MYS_TYPE_TINY_BLOB :: nat where "MYS_TYPE_TINY_BLOB = 249"
definition MYS_TYPE_MEDIUM_BLOB :: nat where "MYS_TYPE_MEDIUM_BLOB = 250"
definition MYS_TYPE_LONG_BLOB :: nat where "MYS_TYPE_LONG_BLOB = 251"
definition MYS_TYPE_BLOB :: nat where "MYS_TYPE_BLOB = 252"
definition MYS_TYPE_VAR_STRING :: nat where "MYS_TYPE_VAR_STRING = 253"
definition MYS_TYPE_STRING :: nat where "MYS_TYPE_STRING = 254"

lemmas MYS_TYPE_defs = MYS_TYPE_DECIMAL_def MYS_TYPE_TINY_def MYS_TYPE_SHORT_def MYS_TYPE_LONG_def
  MYS_TYPE_FLOAT_def MYS_TYPE_DOUBLE_def MYS_TYPE_TIMESTAMP_def MYS_TYPE_LONGLONG_def MYS_TYPE_INT24_def
  MYS_TYPE_DATE_def MYS_TYPE_TIME_def MYS_TYPE_DATETIME_def MYS_TYPE_YEAR_def MYS_TYPE_VARCHAR_def
  MYS_TYPE_BIT_def MYS_TYPE_BOOL_def MYS_TYPE_JSON_def MYS_TYPE_NEWDECIMAL_def MYS_TYPE_ENUM_def
  MYS_TYPE_SET_def MYS_TYPE_TINY_BLOB_def MYS_TYPE_MEDIUM_BLOB_def MYS_TYPE_LONG_BLOB_def
  MYS_TYPE_BLOB_def MYS_TYPE_VAR_STRING_def MYS_TYPE_STRING_def

text \<open>\<open>memcmp(name, p, strlen(p)) == 0\<close>\<close>

definition memeq :: "string \<Rightarrow> string \<Rightarrow> bool" where
  "memeq name p \<longleftrightarrow> take (length p) name = p"

definition mysql_type_of_name :: "string \<Rightarrow> nat" where
  "mysql_type_of_name n =
     (if memeq n ''tinyint'' then MYS_TYPE_TINY
      else if memeq n ''smallint'' \<or> memeq n ''int2'' then MYS_TYPE_SHORT
      else if memeq n ''mediumint'' then MYS_TYPE_INT24
      else if memeq n ''bigint'' \<or> memeq n ''int8'' then MYS_TYPE_LONGLONG
      else if memeq n ''int'' \<or> memeq n ''int4'' then MYS_TYPE_LONG
      else if memeq n ''boolean'' \<or> memeq n ''bool'' then MYS_TYPE_TINY
      else if memeq n ''bpchar'' \<or> memeq n ''char'' then MYS_TYPE_STRING
      else if memeq n ''varchar'' then MYS_TYPE_VAR_STRING
      else if memeq n ''datetime'' then MYS_TYPE_DATETIME
      else if memeq n ''date'' then MYS_TYPE_DATE
      else if memeq n ''timestamp'' then MYS_TYPE_TIMESTAMP
      else if memeq n ''time'' then MYS_TYPE_TIME
      else if memeq n ''float'' then MYS_TYPE_FLOAT
      else if memeq n ''real'' then MYS_TYPE_DOUBLE
      else if memeq n ''double'' then MYS_TYPE_DOUBLE
      else if memeq n ''numeric'' then MYS_TYPE_NEWDECIMAL
      else if memeq n ''decimal'' then MYS_TYPE_NEWDECIMAL
      else if memeq n ''dec'' then MYS_TYPE_NEWDECIMAL
      else if memeq n ''bytea'' then MYS_TYPE_BLOB
      else if memeq n ''blob'' then MYS_TYPE_BLOB
      else if memeq n ''name'' then MYS_TYPE_BLOB
      else if memeq n ''text'' then MYS_TYPE_BLOB
      else if memeq n ''varbit'' then MYS_TYPE_BIT
      else if memeq n ''binary'' then MYS_TYPE_STRING
      else if memeq n ''varbinary'' then MYS_TYPE_VAR_STRING
      else if memeq n ''enum_'' then MYS_TYPE_ENUM
      else if memeq n ''set_'' then MYS_TYPE_SET
      else if memeq n ''year_'' then MYS_TYPE_YEAR
      else MYS_TYPE_BLOB)"

definition initHaloMySqlDataTypesHashTable :: "session \<Rightarrow> session" where
  "initHaloMySqlDataTypesHashTable s = s \<lparr> haloMysqlDataTypes := Map.empty, haloMysqlDataTypesNum := 0 \<rparr>"

definition getMySQLDataType :: "(nat \<Rightarrow> string) \<Rightarrow> nat \<Rightarrow> session \<Rightarrow> nat \<times> session" where
  "getMySQLDataType typeName haloDataType s =
     (case haloMysqlDataTypes s haloDataType of
        Some t \<Rightarrow> (t, s)
      | None \<Rightarrow>
          let t = mysql_type_of_name (typeName haloDataType);
              s1 = s \<lparr> haloMysqlDataTypesNum := haloMysqlDataTypesNum s + 1,
                       haloMysqlDataTypes := (haloMysqlDataTypes s)(haloDataType \<mapsto> t) \<rparr> in
          if haloMysqlDataTypesNum s1 \<le> 8192 then (t, s1)
          else (t, initHaloMySqlDataTypesHashTable s1))"

text \<open>The cache holds what the catalog says, and as many entries as are counted.\<close>

definition types_coherent :: "(nat \<Rightarrow> string) \<Rightarrow> session \<Rightarrow> bool" where
  "types_coherent typeName s \<longleftrightarrow>
     finite (dom (haloMysqlDataTypes s)) \<and> card (dom (haloMysqlDataTypes s)) = haloMysqlDataTypesNum s
     \<and> haloMysqlDataTypesNum s \<le> 8192
     \<and> (\<forall>oid \<in> dom (haloMysqlDataTypes s). haloMysqlDataTypes s oid = Some (mysql_type_of_name (typeName oid)))"

fun getMySQLDataTypes :: "(nat \<Rightarrow> string) \<Rightarrow> nat list \<Rightarrow> session \<Rightarrow> nat list \<times> session" where
  "getMySQLDataTypes typeName [] s = ([], s)"
| "getMySQLDataTypes typeName (oid # oids) s =
     (case getMySQLDataType typeName oid s of
        (t, s1) \<Rightarrow> (case getMySQLDataTypes typeName oids s1 of (ts, s2) \<Rightarrow> (t # ts, s2)))"

lemma types_coherent_insert:
  assumes "types_coherent typeName s" "haloMysqlDataTypes s oid = None"
  shows "types_coherent typeName (s \<lparr> haloMysqlDataTypesNum := haloMysqlDataTypesNum s + 1,
           haloMysqlDataTypes := (haloMysqlDataTypes s)(oid \<mapsto> mysql_type_of_name (typeName oid)) \<rparr>)
         \<longleftrightarrow> haloMysqlDataTypesNum s < 8192"
proof -
  have "card (insert oid (dom (haloMysqlDataTypes s))) = haloMysqlDataTypesNum s + 1"
    using assms by (simp add: types_coherent_def domIff)
  with assms(1) show ?thesis
    unfolding types_coherent_def by auto
qed

lemma types_coherent_empty: "types_coherent typeName (initHaloMySqlDataTypesHashTable s)"
  by (simp add: types_coherent_def initHaloMySqlDataTypesHashTable_def)

lemma getMySQLDataType_coherent:
  assumes "types_coherent typeName s" "getMySQLDataType typeName oid s = (t, s')"
  shows "t = mysql_type_of_name (typeName oid) \<and> types_coherent typeName s'"
proof (cases "haloMysqlDataTypes s oid")
  case None
  then show ?thesis
    using assms(2) types_coherent_insert [OF assms(1) None] types_coherent_empty
    unfolding getMySQLDataType_def Let_def
    by (cases "haloMysqlDataTypesNum s < 8192") auto
next
  case (Some t')
  with assms(1) have "t' = mysql_type_of_name (typeName oid)"
    unfolding types_coherent_def by (metis domI option.inject)
  with Some assms show ?thesis by (simp add: getMySQLDataType_def)
qed

lemma getMySQLDataTypes_coherent:
  "types_coherent typeName s \<Longrightarrow> getMySQLDataTypes typeName oids s = (ts, s') \<Longrightarrow>
     ts = map (\<lambda>oid. mysql_type_of_name (typeName oid)) oids \<and> types_coherent typeName s'"
proof (induction oids arbitrary: s ts s')
  case (Cons oid oids)
  obtain t s1 where t: "getMySQLDataType typeName oid s = (t, s1)"
    by (cases "getMySQLDataType typeName oid s")
  obtain ts2 s2 where ts2: "getMySQLDataTypes typeName oids s1 = (ts2, s2)"
    by (cases "getMySQLDataTypes typeName oids s1")
  from getMySQLDataType_coherent [OF Cons.prems(1) t] Cons.IH [OF _ ts2] Cons.prems(2) t ts2
  show ?case by simp
qed simp

section \<open>Properties\<close>

text \<open>C26.  The type cache is transparent and bounded: any sequence of lookups from a fresh
  session answers exactly what the catalog name of each type determines, through hits, misses
  and the reset after 8192 entries, and the cache never counts more than 8192 entries.\<close>

theorem type_cache_transparent:
  "fst (getMySQLDataTypes typeName oids (init_session caps n)) = map (\<lambda>oid. mysql_type_of_name (typeName oid)) oids
   \<and> haloMysqlDataTypesNum (snd (getMySQLDataTypes typeName oids (init_session caps n))) \<le> 8192"
proof -
  have c: "types_coherent typeName (init_session caps n)"
    by (simp add: types_coherent_def init_session_def)
  obtain ts s' where g: "getMySQLDataTypes typeName oids (init_session caps n) = (ts, s')"
    by (cases "getMySQLDataTypes typeName oids (init_session caps n)")
  from getMySQLDataTypes_coherent [OF c g] g show ?thesis
    by (simp add: types_coherent_def)
qed

end
