(* ===== verification/PreStmt.thy ===== *)
theory PreStmt
  imports Packets DataTypes
begin

text \<open>
  The prepared statements of the binary protocol in
  \<open>src/backend/adapter/mysql/adapter.c\<close>: the statement cache, the rewriting of
  \<open>COM_STMT_PREPARE\<close>, \<open>COM_STMT_EXECUTE\<close> and \<open>COM_STMT_CLOSE\<close> packets to SQL text, and the
  reply to a prepare.  The rewriting happens inside the input buffer, so the model reads and
  writes one array: \<open>ob\<close> is the index where the packet starts (\<open>oldStmt\<close>) and \<open>nb\<close> the
  index where the new text goes (\<open>newStmt\<close>).
\<close>

section \<open>The cache\<close>

definition stmt_name :: "nat \<Rightarrow> bytes" where
  "stmt_name i = take EXTEND_PRE_STMT_NAME_LEN (''unuTsfQ'' @ show_nat_pad 4 i)"

definition free_slot :: "preStmtInfo list \<Rightarrow> nat option" where
  "free_slot infos = List.find (\<lambda>i. \<not> ps_isValid (infos ! i)) [1..<PRE_STMT_NUM_MAX]"

text \<open>\<open>cacheExtendPreStmt\<close>: the C result and the slot \<open>pSI\<close> points to.  When every slot is
  taken the loop ends with \<open>pSI\<close> at the last slot and \<open>curExtendPreStmtId\<close> as it was.\<close>

definition cacheExtendPreStmt :: "sqlReadWriteType \<Rightarrow> session \<Rightarrow> (nat \<times> nat) \<times> session" where
  "cacheExtendPreStmt readWriteType s =
     (let found = free_slot (preStmtInfoes s);
          s1 = (case found of Some i \<Rightarrow> s \<lparr> curExtendPreStmtId := i \<rparr> | None \<Rightarrow> s);
          slot = (case found of Some i \<Rightarrow> i | None \<Rightarrow> PRE_STMT_NUM_MAX - 1);
          pSI = (preStmtInfoes s1 ! slot)
                  \<lparr> ps_name := stmt_name (curExtendPreStmtId s1), ps_readWriteType := readWriteType,
                    ps_isValid := True \<rparr>;
          ret = (if readWriteType = SRWT_UNKNOWN then 1
                 else if readWriteType = SRWT_COMMIT \<or> readWriteType = SRWT_ROLLBACK then 2
                 else 0) in
      ((ret, slot), s1 \<lparr> preStmtInfoes := (preStmtInfoes s1)[slot := pSI] \<rparr>))"

section \<open>COM\_STMT\_PREPARE\<close>

record conv =
  cv_data :: bytes
  cv_newIndex :: nat
  cv_mark :: char
  cv_marksNum :: nat
  cv_remain :: int
  cv_paramNum :: nat

definition conv_put :: "nat \<Rightarrow> char \<Rightarrow> conv \<Rightarrow> conv option" where
  "conv_put nb c v =
     (case mem_write (cv_data v) (nb + cv_newIndex v) [c] of
        None \<Rightarrow> None
      | Some d \<Rightarrow> Some (v \<lparr> cv_data := d, cv_newIndex := cv_newIndex v + 1 \<rparr>))"

text \<open>Doubling a quotation mark uses up one byte of the space in front of the text.\<close>

definition conv_double :: "nat \<Rightarrow> char \<Rightarrow> conv \<Rightarrow> (bool \<times> conv) option" where
  "conv_double nb c v =
     (case conv_put nb c v of
        None \<Rightarrow> None
      | Some v1 \<Rightarrow> let v2 = v1 \<lparr> cv_remain := cv_remain v1 - 1 \<rparr> in Some (\<not> cv_remain v2 \<le> 0, v2))"

text \<open>The loop of \<open>convertExtendPreStmt\<close>; \<open>Inl\<close> is an access outside the buffer.\<close>

function convertLoop :: "nat \<Rightarrow> nat \<Rightarrow> nat \<Rightarrow> nat \<Rightarrow> conv \<Rightarrow> fault + bool \<times> conv" where
  "convertLoop ob oldStmtLen nb i v =
     (if oldStmtLen \<le> i then Inr (True, v)
      else
        (case mem_read (cv_data v) (ob + i) of
           None \<Rightarrow> Inl OutOfBounds
         | Some c \<Rightarrow>
             (case conv_put nb c v of
                None \<Rightarrow> Inl OutOfBounds
              | Some v1 \<Rightarrow>
                  if c = CHR 0x5C then
                    (case mem_read (cv_data v1) (ob + i + 1) of
                       None \<Rightarrow> Inl OutOfBounds
                     | Some c1 \<Rightarrow>
                         (case conv_put nb c1 v1 of
                            None \<Rightarrow> Inl OutOfBounds
                          | Some v2 \<Rightarrow> convertLoop ob oldStmtLen nb (i + 2) v2))
                  else if c = CHR 0x22 then
                    let v2 = v1 \<lparr> cv_marksNum := cv_marksNum v1 + 1 \<rparr> in
                    if cv_mark v2 = CHR '' '' then
                      (case conv_double nb c (v2 \<lparr> cv_mark := CHR 0x22 \<rparr>) of
                         None \<Rightarrow> Inl OutOfBounds
                       | Some (ok, v3) \<Rightarrow> if ok then convertLoop ob oldStmtLen nb (i + 1) v3 else Inr (False, v3))
                    else if cv_marksNum v2 mod 2 = 0 then
                      (case conv_double nb c (v2 \<lparr> cv_marksNum := 0, cv_mark := CHR '' '' \<rparr>) of
                         None \<Rightarrow> Inl OutOfBounds
                       | Some (ok, v3) \<Rightarrow> if ok then convertLoop ob oldStmtLen nb (i + 1) v3 else Inr (False, v3))
                    else convertLoop ob oldStmtLen nb (i + 1) v2
                  else if c = CHR ''?'' \<and> cv_mark v1 = CHR '' '' then
                    convertLoop ob oldStmtLen nb (i + 1) (v1 \<lparr> cv_paramNum := cv_paramNum v1 + 1 \<rparr>)
                  else convertLoop ob oldStmtLen nb (i + 1) v1)))"
  by pat_completeness auto
termination by (relation "measure (\<lambda>(_, len, _, i, _). len - i)") auto

declare convertLoop.simps [simp del]

definition convertExtendPreStmt :: "nat \<Rightarrow> nat \<Rightarrow> int \<Rightarrow> nat \<Rightarrow> nat \<Rightarrow> bytes \<Rightarrow> fault + bool \<times> conv" where
  "convertExtendPreStmt ob oldStmtLen remainSpace nb newStmtIndex d =
     convertLoop ob oldStmtLen nb 0
       \<lparr> cv_data = d, cv_newIndex = newStmtIndex, cv_mark = CHR '' '', cv_marksNum = 0,
         cv_remain = remainSpace, cv_paramNum = 0 \<rparr>"

text \<open>\<open>rewriteExtendPreStmt_\<close>: result 0 is the rejection that becomes a syntax error.\<close>

definition ps_with_params :: "nat \<Rightarrow> preStmtInfo \<Rightarrow> preStmtInfo" where
  "ps_with_params paramNum pSI =
     (let nbl = (paramNum + 7) div 8 in
      pSI \<lparr> ps_paramNum := paramNum, ps_nullBitmapLength := nbl, ps_paramTypeOffset := 10 + nbl,
            ps_paramValueOffset1 := 10 + nbl + paramNum * 2, ps_paramValueOffset2 := 10 + nbl \<rparr>)"

definition rewriteExtendPreStmt_impl :: "sqlReadWriteType \<Rightarrow> StringInfo \<Rightarrow> session \<Rightarrow> (nat \<times> StringInfo) sio" where
  "rewriteExtendPreStmt_impl readWriteType inBuf s =
     (case cacheExtendPreStmt readWriteType s of
        ((cacheRet, slot), s1) \<Rightarrow>
          if cacheRet = 1 then
            (let remainOffset = 128;
                 ob = si_offset inBuf;
                 remainSpace = int ob - int remainOffset;
                 inBuf1 = inBuf \<lparr> si_offset := remainOffset \<rparr>;
                 name = ps_name (preStmtInfoes s1 ! slot);
                 intro = take 26 (''prepare '' @ name @ '' from '' @ [CHR 0x22]) in
             case mem_write (si_data inBuf) remainOffset (intro @ [NUL]) of
               None \<Rightarrow> (Inl OutOfBounds, s1)
             | Some d \<Rightarrow>
                 (case convertExtendPreStmt ob (si_len inBuf - 1) (remainSpace - 26) remainOffset 26 d of
                    Inl e \<Rightarrow> (Inl e, s1)
                  | Inr (ok, v) \<Rightarrow>
                      if \<not> ok then (Inr (0, inBuf1 \<lparr> si_data := cv_data v \<rparr>), s1)
                      else
                        (case mem_write (cv_data v) (remainOffset + cv_newIndex v) [CHR 0x22, NUL] of
                           None \<Rightarrow> (Inl OutOfBounds, s1)
                         | Some d2 \<Rightarrow>
                             (Inr (1, inBuf1 \<lparr> si_data := d2, si_len := cv_newIndex v + 2 \<rparr>),
                              s1 \<lparr> preStmtInfoes := (preStmtInfoes s1)
                                     [slot := ps_with_params (cv_paramNum v) (preStmtInfoes s1 ! slot)] \<rparr>))))
          else (Inr (cacheRet, inBuf), s1))"

definition stmt_text :: "StringInfo \<Rightarrow> bytes" where
  "stmt_text b = drop (si_offset b) (si_data b)"

definition rewriteExtendPreStmt :: "StringInfo \<Rightarrow> session \<Rightarrow> (nat \<times> StringInfo) sio" where
  "rewriteExtendPreStmt inBuf s =
     (if strncaseeq (stmt_text inBuf) ''commit'' 6 then rewriteExtendPreStmt_impl SRWT_COMMIT inBuf s
      else if strncaseeq (stmt_text inBuf) ''rollback'' 8 then rewriteExtendPreStmt_impl SRWT_ROLLBACK inBuf s
      else if strncaseeq (stmt_text inBuf) ''begin'' 5 then (Inr (3, inBuf), s)
      else rewriteExtendPreStmt_impl SRWT_UNKNOWN inBuf s)"

section \<open>COM\_STMT\_EXECUTE\<close>

text \<open>The statement id of a packet, a signed C \<open>int\<close>, and the slot it selects: ids above 5000
  are reported, every other id indexes the array of 5000 slots.\<close>

definition stmt_id :: "bytes \<Rightarrow> nat \<Rightarrow> int" where
  "stmt_id d ob = wrap_signed 32 (int (le_dec (bslice ob 4 d)))"

definition stmt_slot :: "bytes \<Rightarrow> nat \<Rightarrow> session \<Rightarrow> fault + nat" where
  "stmt_slot d ob s =
     (let i = stmt_id d ob in
      if int PRE_STMT_NUM_MAX < i then Inl (PgError ''extend stmt id does not exists!'')
      else if 0 \<le> i \<and> nat i < length (preStmtInfoes s) then Inr (nat i)
      else Inl OutOfBounds)"

text \<open>How \<open>assembleExtendExeStmtParmVal\<close> treats the field types.\<close>

datatype param_kind = PK_decimal | PK_int nat | PK_float nat | PK_date | PK_time | PK_datetime | PK_string | PK_none

definition kind_of_param :: "nat \<Rightarrow> param_kind" where
  "kind_of_param t =
     (if t = MYS_TYPE_DECIMAL \<or> t = MYS_TYPE_NEWDECIMAL then PK_decimal
      else if t = MYS_TYPE_TINY \<or> t = MYS_TYPE_BOOL then PK_int 1
      else if t = MYS_TYPE_SHORT \<or> t = MYS_TYPE_YEAR then PK_int 2
      else if t = MYS_TYPE_LONG \<or> t = MYS_TYPE_INT24 then PK_int 4
      else if t = MYS_TYPE_LONGLONG then PK_int 8
      else if t = MYS_TYPE_FLOAT then PK_float 4
      else if t = MYS_TYPE_DOUBLE then PK_float 8
      else if t = MYS_TYPE_DATE then PK_date
      else if t = MYS_TYPE_TIME then PK_time
      else if t = MYS_TYPE_DATETIME \<or> t = MYS_TYPE_TIMESTAMP then PK_datetime
      else if t \<in> {MYS_TYPE_TINY_BLOB, MYS_TYPE_MEDIUM_BLOB, MYS_TYPE_LONG_BLOB, MYS_TYPE_BLOB,
                    MYS_TYPE_VARCHAR, MYS_TYPE_VAR_STRING, MYS_TYPE_STRING, MYS_TYPE_ENUM, MYS_TYPE_SET,
                    MYS_TYPE_JSON} then PK_string
      else PK_none)"

definition show_param_int :: "bool \<Rightarrow> bytes \<Rightarrow> string" where
  "show_param_int is_unsigned bs =
     (if is_unsigned then show_nat (le_dec bs)
      else show_int (wrap_signed (8 * length bs) (int (le_dec bs))))"

text \<open>\<open>assembleExtendExeStmtParmVal\<close>: the array, the write offset and the read offset after one
  parameter.  \<open>fmt\<close> is \<open>snprintf\<close> with \<open>%f\<close> of the \<open>float\<close> or \<open>double\<close> with the given bytes.\<close>

type_synonym exe = "bytes \<times> nat \<times> nat"

definition exe_emit :: "nat \<Rightarrow> bytes \<Rightarrow> nat \<Rightarrow> exe \<Rightarrow> fault + exe" where
  "exe_emit nb txt consumed = (\<lambda>(d, wo, ro).
     case mem_write d (nb + wo) txt of
       None \<Rightarrow> Inl OutOfBounds
     | Some d' \<Rightarrow> Inr (d', wo + length txt, ro + consumed))"

definition exe_fixed :: "nat \<Rightarrow> nat \<Rightarrow> nat \<Rightarrow> (bytes \<Rightarrow> bytes) \<Rightarrow> exe \<Rightarrow> fault + exe" where
  "exe_fixed ob nb k to_text = (\<lambda>(d, wo, ro).
     if ob + ro + k \<le> length d then exe_emit nb (to_text (bslice (ob + ro) k d)) k (d, wo, ro)
     else Inl OutOfBounds)"

definition exe_decoded :: "nat \<Rightarrow> nat \<Rightarrow> (bytes \<Rightarrow> (string \<times> nat) option) \<Rightarrow> exe \<Rightarrow> fault + exe" where
  "exe_decoded ob nb dec = (\<lambda>(d, wo, ro).
     case dec (drop (ob + ro) d) of
       None \<Rightarrow> Inl OutOfBounds
     | Some (txt, n) \<Rightarrow>
         (case exe_emit nb ([CHR 0x27] @ txt @ [CHR 0x27]) n (d, wo, ro) of
            Inl e \<Rightarrow> Inl e
          | Inr (d1, wo1, ro1) \<Rightarrow>
              (case mem_write d1 (nb + wo1) [NUL] of None \<Rightarrow> Inl OutOfBounds | Some d2 \<Rightarrow> Inr (d2, wo1, ro1))))"

definition exe_lenenc :: "nat \<Rightarrow> nat \<Rightarrow> bool \<Rightarrow> exe \<Rightarrow> fault + exe" where
  "exe_lenenc ob nb quoted = (\<lambda>(d, wo, ro).
     case processLenencString (drop (ob + ro) d) of
       None \<Rightarrow> Inl OutOfBounds
     | Some (len, lensize) \<Rightarrow>
         (case exe_emit nb (if quoted then [CHR 0x27] else []) lensize (d, wo, ro) of
            Inl e \<Rightarrow> Inl e
          | Inr (d1, wo1, ro1) \<Rightarrow>
              if ob + ro1 + len \<le> length d1 then
                (case exe_emit nb (bslice (ob + ro1) len d1) len (d1, wo1, ro1) of
                   Inl e \<Rightarrow> Inl e
                 | Inr st2 \<Rightarrow> exe_emit nb (if quoted then [CHR 0x27] else []) 0 st2)
              else Inl OutOfBounds))"

definition assembleExtendExeStmtParmVal ::
  "(bytes \<Rightarrow> string) \<Rightarrow> nat \<Rightarrow> nat \<Rightarrow> nat \<Rightarrow> exe \<Rightarrow> fault + exe" where
  "assembleExtendExeStmtParmVal fmt ptype ob nb st =
     (let is_unsigned = (ptype div 256) mod 256 \<noteq> 0 in
      case kind_of_param (ptype mod 256) of
        PK_decimal \<Rightarrow> exe_lenenc ob nb False st
      | PK_int k \<Rightarrow> exe_fixed ob nb k (show_param_int is_unsigned) st
      | PK_float k \<Rightarrow> exe_fixed ob nb k fmt st
      | PK_date \<Rightarrow> exe_decoded ob nb processDateType st
      | PK_time \<Rightarrow> exe_decoded ob nb processTimeType st
      | PK_datetime \<Rightarrow> exe_decoded ob nb processDatetimeTimestampType st
      | PK_string \<Rightarrow> exe_lenenc ob nb True st
      | PK_none \<Rightarrow> Inr st)"

text \<open>The loop over the parameters.  The two loops of the source differ in the test of the null
  bitmap only, which the first one has found to be zero throughout.\<close>

definition is_null_param :: "bytes \<Rightarrow> nat \<Rightarrow> nat \<Rightarrow> bool" where
  "is_null_param d ob i = bit (of_char (d ! (ob + 9 + i div 8)) :: nat) (i mod 8)"

function exeLoop :: "(bytes \<Rightarrow> string) \<Rightarrow> bool \<Rightarrow> nat list \<Rightarrow> nat \<Rightarrow> nat \<Rightarrow> nat \<Rightarrow> nat \<Rightarrow> exe \<Rightarrow> fault + exe" where
  "exeLoop fmt no_nulls types ob nb paramNum i st =
     (if paramNum \<le> i then Inr st
      else
        (case (if \<not> no_nulls \<and> is_null_param (fst st) ob i then exe_emit nb ''NULL'' 0 st
               else assembleExtendExeStmtParmVal fmt (types ! i) ob nb st) of
           Inl e \<Rightarrow> Inl e
         | Inr st1 \<Rightarrow>
             (case exe_emit nb '','' 0 st1 of
                Inl e \<Rightarrow> Inl e
              | Inr st2 \<Rightarrow> exeLoop fmt no_nulls types ob nb paramNum (Suc i) st2)))"
  by pat_completeness auto
termination by (relation "measure (\<lambda>(_, _, _, _, _, n, i, _). n - i)") auto

declare exeLoop.simps [simp del]

definition read_param_types :: "bytes \<Rightarrow> nat \<Rightarrow> nat \<Rightarrow> nat list \<Rightarrow> nat list" where
  "read_param_types d start n types = map (\<lambda>i. le_dec (bslice (start + i * 2) 2 d)) [0..<n] @ drop n types"

text \<open>\<open>rewriteExtendExeStmt_\<close>.  The parameter types of the slot are an array of 256.\<close>

definition rewriteExtendExeStmt_impl :: "(bytes \<Rightarrow> string) \<Rightarrow> StringInfo \<Rightarrow> session \<Rightarrow> (bool \<times> StringInfo) sio" where
  "rewriteExtendExeStmt_impl fmt inBuf s =
     (let ob = si_offset inBuf; nb = RESERVED_FOR_ADDITIONAL_SQL in
      case stmt_slot (si_data inBuf) ob s of
        Inl e \<Rightarrow> (Inl e, s)
      | Inr slot \<Rightarrow>
          let pSI = preStmtInfoes s ! slot; paramNum = ps_paramNum pSI; nbl = ps_nullBitmapLength pSI in
          if 0 < paramNum then
            (case mem_write (si_data inBuf) nb (take 26 (''execute '' @ ps_name pSI @ '' using '') @ [NUL]) of
               None \<Rightarrow> (Inl OutOfBounds, s)
             | Some d \<Rightarrow>
                 (case mem_read d (ob + 9 + nbl) of
                    None \<Rightarrow> (Inl OutOfBounds, s)
                  | Some new_params_bind_flag \<Rightarrow>
                      let rebind = (new_params_bind_flag \<noteq> NUL) in
                      if 256 < paramNum \<or> rebind \<and> length d < ob + ps_paramTypeOffset pSI + paramNum * 2
                      then (Inl OutOfBounds, s)
                      else
                        let types = (if rebind then read_param_types d (ob + ps_paramTypeOffset pSI) paramNum (ps_paramTypes pSI)
                                     else ps_paramTypes pSI);
                            s1 = s \<lparr> preStmtInfoes := (preStmtInfoes s)[slot := pSI \<lparr> ps_paramTypes := types \<rparr>] \<rparr>;
                            ro = (if rebind then ps_paramValueOffset1 pSI else ps_paramValueOffset2 pSI);
                            no_nulls = list_all (\<lambda>c. c = NUL) (bslice (ob + 9) nbl d) in
                        (case exeLoop fmt no_nulls types ob nb paramNum 0 (d, 26, ro) of
                           Inl e \<Rightarrow> (Inl e, s1)
                         | Inr (d1, wo, _) \<Rightarrow>
                             (case mem_write d1 (nb + wo - 1) [NUL] of
                                None \<Rightarrow> (Inl OutOfBounds, s1)
                              | Some d2 \<Rightarrow>
                                  (Inr (True, inBuf \<lparr> si_data := d2, si_len := wo, si_offset := nb \<rparr>), s1)))))
          else
            (case mem_write (si_data inBuf) ob (''execute '' @ ps_name pSI @ [NUL]) of
               None \<Rightarrow> (Inl OutOfBounds, s)
             | Some d \<Rightarrow>
                 (case mem_write d (ob + 19) [NUL] of
                    None \<Rightarrow> (Inl OutOfBounds, s)
                  | Some d2 \<Rightarrow> (Inr (True, inBuf \<lparr> si_data := d2, si_len := 20 \<rparr>), s))))"

definition put_stmt :: "bytes \<Rightarrow> StringInfo \<Rightarrow> session \<Rightarrow> (bool \<times> StringInfo) sio" where
  "put_stmt txt inBuf s =
     (case mem_write (si_data inBuf) (si_offset inBuf) (txt @ [NUL]) of
        None \<Rightarrow> (Inl OutOfBounds, s)
      | Some d \<Rightarrow> (Inr (True, inBuf \<lparr> si_data := d, si_len := length txt + 1 \<rparr>), s))"

definition rewriteExtendExeStmt :: "(bytes \<Rightarrow> string) \<Rightarrow> StringInfo \<Rightarrow> session \<Rightarrow> (bool \<times> StringInfo) sio" where
  "rewriteExtendExeStmt fmt inBuf s =
     (case stmt_slot (si_data inBuf) (si_offset inBuf) s of
        Inl e \<Rightarrow> (Inl e, s)
      | Inr slot \<Rightarrow>
          (case ps_readWriteType (preStmtInfoes s ! slot) of
             SRWT_UNKNOWN \<Rightarrow> rewriteExtendExeStmt_impl fmt inBuf s
           | SRWT_COMMIT \<Rightarrow> put_stmt ''commit'' inBuf s
           | SRWT_ROLLBACK \<Rightarrow> put_stmt ''rollback'' inBuf s
           | _ \<Rightarrow> (Inr (False, inBuf), s)))"

section \<open>COM\_STMT\_CLOSE and COM\_RESET\_CONNECTION\<close>

definition rewriteExtendCloseStmt :: "StringInfo \<Rightarrow> session \<Rightarrow> (bool \<times> StringInfo) sio" where
  "rewriteExtendCloseStmt inBuf s =
     (case stmt_slot (si_data inBuf) (si_offset inBuf) s of
        Inl e \<Rightarrow> (Inl e, s)
      | Inr slot \<Rightarrow>
          let pSI = preStmtInfoes s ! slot in
          (case mem_write (si_data inBuf) (si_offset inBuf) (''deallocate prepare '' @ ps_name pSI @ [NUL]) of
             None \<Rightarrow> (Inl OutOfBounds, s)
           | Some d \<Rightarrow>
               (Inr (True, inBuf \<lparr> si_data := d, si_len := 31 \<rparr>),
                s \<lparr> preStmtInfoes := (preStmtInfoes s)[slot := pSI \<lparr> ps_isValid := False \<rparr>] \<rparr>)))"

definition resetConnection :: "StringInfo \<Rightarrow> session \<Rightarrow> (bool \<times> StringInfo) sio" where
  "resetConnection inBuf s =
     (let s1 = s \<lparr> isResetConnStmt := True, autoCommit := 2, affectedRows := -1, lastInsertID := 0,
                   lastInsertIDForPacket := 0,
                   preStmtInfoes := map (\<lambda>i. if i < preStmtInfoNum s
                                            then (preStmtInfoes s ! i) \<lparr> ps_isValid := False \<rparr>
                                            else preStmtInfoes s ! i) [0..<length (preStmtInfoes s)],
                   preStmtInfoNum := 0, mysql_user_variables := clearUserVars (mysql_user_variables s) \<rparr> in
      put_stmt ''rollback;deallocate prepare all'' inBuf s1)"

section \<open>The reply to a prepare\<close>

text \<open>The character set \<open>mys_setCurrentPreStmtColumnInfo\<close> derives from the MySQL type and the
  name of the server type.\<close>

definition preStmt_charset :: "nat \<Rightarrow> string \<Rightarrow> nat" where
  "preStmt_charset mysqlType typeName =
     (if mysqlType \<in> {MYS_TYPE_TINY, MYS_TYPE_SHORT, MYS_TYPE_LONG, MYS_TYPE_INT24, MYS_TYPE_LONGLONG,
                       MYS_TYPE_NEWDECIMAL, MYS_TYPE_FLOAT, MYS_TYPE_DOUBLE} then 63
      else if mysqlType = MYS_TYPE_STRING then (if \<not> memeq typeName ''binary'' then 33 else 63)
      else if mysqlType = MYS_TYPE_VAR_STRING then (if \<not> memeq typeName ''varbinary'' then 33 else 63)
      else if mysqlType = MYS_TYPE_BIT then 63
      else if mysqlType = MYS_TYPE_BLOB then (if memeq typeName ''blob'' then 63 else 33)
      else 33)"

definition mys_setCurrentPreStmtColumnInfo ::
  "(nat \<Rightarrow> string) \<Rightarrow> nat \<Rightarrow> nat \<Rightarrow> session \<Rightarrow> unit sio" where
  "mys_setCurrentPreStmtColumnInfo typeName columnIndex columnType s =
     (case getMySQLDataType typeName columnType s of
        (mysqlType, s1) \<Rightarrow>
          let slot = curExtendPreStmtId s1 in
          if slot < length (preStmtInfoes s1) \<and> columnIndex < 256 then
            let p = preStmtInfoes s1 ! slot in
            (Inr (), s1 \<lparr> preStmtInfoes := (preStmtInfoes s1)[slot :=
                p \<lparr> ps_columnNum := ps_columnNum p + 1,
                    ps_columnTypes := (ps_columnTypes p)[columnIndex := mysqlType],
                    ps_columnCharacterSet := (ps_columnCharacterSet p)
                      [columnIndex := preStmt_charset mysqlType (typeName columnType)] \<rparr>] \<rparr>)
          else (Inl OutOfBounds, s1))"

definition prepare_ok_payload :: "session \<Rightarrow> preStmtInfo \<Rightarrow> bytes" where
  "prepare_ok_payload s p =
     le_enc 1 0 @ le_enc 4 (curExtendPreStmtId s) @ le_enc 2 (ps_columnNum p) @ le_enc 2 (ps_paramNum p)
     @ le_enc 1 0 @ le_enc_int 2 (warnings s)
     @ (if has_cap s MYS_CLT_OPTIONAL_RESULTSET_METADATA then le_enc 1 0 else [])"

definition preStmt_colDef :: "nat \<Rightarrow> nat \<Rightarrow> colDef" where
  "preStmt_colDef charset ctype =
     \<lparr> cd_schemaName = [], cd_tableName = [], cd_orgTableName = [], cd_columnName = ''?'', cd_orgColumnName = [],
       cd_characterSet = int charset, cd_columnLen = 0, cd_columnType = int ctype, cd_columnFlags = 0x0080 \<rparr>"

definition send_defs :: "bytes list \<Rightarrow> session \<Rightarrow> bool sio" where
  "send_defs ps s =
     andThen (on_net (send_all writePacketHeaderPayloadFlush ps) s) (\<lambda>_ s1.
       if has_cap s1 MYS_CLT_DEPRECATE_EOF then (Inr True, s1) else sendEOFPacketFlush s1)"

definition endExtendPreStmt :: "session \<Rightarrow> bool sio" where
  "endExtendPreStmt s =
     (if curExtendPreStmtId s < length (preStmtInfoes s) then
        let p = preStmtInfoes s ! curExtendPreStmtId s;
            optional = has_cap s MYS_CLT_OPTIONAL_RESULTSET_METADATA in
        andThen (on_net (writePacketHeaderPayloadFlush (prepare_ok_payload s p)) s) (\<lambda>_ s1.
        andThen (if 0 < ps_paramNum p \<and> \<not> optional
                 then send_defs (replicate (ps_paramNum p)
                        (assembleColDefPacketPayload s1 (preStmt_colDef 63 253))) s1
                 else (Inr True, s1)) (\<lambda>_ s2.
        if 0 < ps_columnNum p \<and> \<not> optional then
          (if 256 < ps_columnNum p then (Inl OutOfBounds, s2)
           else send_defs (map (\<lambda>i. assembleColDefPacketPayload s2
                  (preStmt_colDef (ps_columnCharacterSet p ! i) (ps_columnTypes p ! i))) [0..<ps_columnNum p]) s2)
        else (Inr True, s2)))
      else (Inl OutOfBounds, s))"

definition endNormalPreStmt :: "session \<Rightarrow> bool sio" where
  "endNormalPreStmt = sendOKPacketSpecialInfo ''Statement prepared''"

section \<open>The cache: lemmas\<close>

definition cache_wf :: "session \<Rightarrow> bool" where
  "cache_wf s \<longleftrightarrow> length (preStmtInfoes s) = PRE_STMT_NUM_MAX \<and> preStmtInfoNum s = 0
     \<and> (\<forall>i < PRE_STMT_NUM_MAX. ps_isValid (preStmtInfoes s ! i) \<longrightarrow> ps_name (preStmtInfoes s ! i) = stmt_name i)"

definition cache_full :: "session \<Rightarrow> bool" where
  "cache_full s \<longleftrightarrow> list_all (\<lambda>i. ps_isValid (preStmtInfoes s ! i)) [1..<PRE_STMT_NUM_MAX]"

lemma show_nat_pad_4: "i < 10000 \<Longrightarrow> length (show_nat_pad 4 i) = 4"
  using show_nat_length [of i 3] by (simp add: show_nat_pad_def)

lemma stmt_name_full: "i < 10000 \<Longrightarrow> stmt_name i = ''unuTsfQ'' @ show_nat_pad 4 i"
  by (simp add: stmt_name_def EXTEND_PRE_STMT_NAME_LEN_def show_nat_pad_4)

lemma length_stmt_name: "i < 10000 \<Longrightarrow> length (stmt_name i) = 11"
  by (simp add: stmt_name_full show_nat_pad_4)

lemma stmt_name_inj: "i < 10000 \<Longrightarrow> j < 10000 \<Longrightarrow> stmt_name i = stmt_name j \<Longrightarrow> i = j"
  by (metis append_eq_append_conv digits_val_show_nat_pad stmt_name_full)

lemma free_slot_Some:
  "free_slot infos = Some i \<Longrightarrow> 1 \<le> i \<and> i < PRE_STMT_NUM_MAX \<and> \<not> ps_isValid (infos ! i)"
  by (auto simp: free_slot_def find_Some_iff)

lemma free_slot_None: "free_slot (preStmtInfoes s) = None \<longleftrightarrow> cache_full s"
  by (auto simp: free_slot_def find_None_iff cache_full_def list_all_iff)

lemma cacheExtendPreStmt_fresh:
  assumes "cache_wf s" "\<not> cache_full s"
  shows "\<exists>i s'. cacheExtendPreStmt rwt s =
      (((if rwt = SRWT_UNKNOWN then 1 else if rwt = SRWT_COMMIT \<or> rwt = SRWT_ROLLBACK then 2 else 0), i), s')
    \<and> 1 \<le> i \<and> i < PRE_STMT_NUM_MAX \<and> \<not> ps_isValid (preStmtInfoes s ! i) \<and> curExtendPreStmtId s' = i
    \<and> preStmtInfoes s' = (preStmtInfoes s)[i := (preStmtInfoes s ! i)
          \<lparr> ps_name := stmt_name i, ps_readWriteType := rwt, ps_isValid := True \<rparr>]
    \<and> s' = s \<lparr> curExtendPreStmtId := i, preStmtInfoes := preStmtInfoes s' \<rparr>"
proof -
  obtain i where i: "free_slot (preStmtInfoes s) = Some i"
    using assms(2) free_slot_None by fastforce
  with free_slot_Some [OF i] show ?thesis
    by (auto simp: cacheExtendPreStmt_def Let_def)
qed

text \<open>The invariant depends on the two cache variables only.\<close>

lemma cache_wf_cong:
  "preStmtInfoes s' = preStmtInfoes s \<Longrightarrow> preStmtInfoNum s' = preStmtInfoNum s \<Longrightarrow> cache_wf s' = cache_wf s"
  by (simp add: cache_wf_def)

lemma cache_wf_slot:
  assumes "cache_wf s" "ps_isValid p \<longrightarrow> ps_name p = stmt_name slot"
  shows "cache_wf (s \<lparr> preStmtInfoes := (preStmtInfoes s)[slot := p] \<rparr>)"
  using assms by (cases "slot < length (preStmtInfoes s)") (auto simp: cache_wf_def nth_list_update)

lemma cacheExtendPreStmt_wf:
  assumes "cache_wf s" "\<not> cache_full s" "cacheExtendPreStmt rwt s = ((c, slot), s')"
  shows "cache_wf s' \<and> slot < PRE_STMT_NUM_MAX"
proof -
  obtain i s1 where i: "cacheExtendPreStmt rwt s =
      (((if rwt = SRWT_UNKNOWN then 1 else if rwt = SRWT_COMMIT \<or> rwt = SRWT_ROLLBACK then 2 else 0), i), s1)"
    "i < PRE_STMT_NUM_MAX" "preStmtInfoes s1 = (preStmtInfoes s)[i := (preStmtInfoes s ! i)
          \<lparr> ps_name := stmt_name i, ps_readWriteType := rwt, ps_isValid := True \<rparr>]"
    "s1 = s \<lparr> curExtendPreStmtId := i, preStmtInfoes := preStmtInfoes s1 \<rparr>"
    using cacheExtendPreStmt_fresh [OF assms(1,2), of rwt] by blast
  let ?p = "(preStmtInfoes s ! i) \<lparr> ps_name := stmt_name i, ps_readWriteType := rwt, ps_isValid := True \<rparr>"
  have "cache_wf (s \<lparr> preStmtInfoes := (preStmtInfoes s)[i := ?p] \<rparr>)"
    using assms(1) by (rule cache_wf_slot) simp
  moreover have "preStmtInfoNum s1 = preStmtInfoNum s"
    by (subst i(4)) simp
  ultimately have "cache_wf s1"
    using i(3) by (simp add: cache_wf_def)
  with i(1,2) assms(3) show ?thesis by simp
qed

lemma ps_with_params_name [simp]:
  "ps_name (ps_with_params n p) = ps_name p" "ps_isValid (ps_with_params n p) = ps_isValid p"
  by (simp_all add: ps_with_params_def Let_def)

lemma cache_wf_nth:
  "cache_wf s \<Longrightarrow> slot < PRE_STMT_NUM_MAX \<Longrightarrow> ps_isValid (preStmtInfoes s ! slot) \<longrightarrow> ps_name (preStmtInfoes s ! slot) = stmt_name slot"
  by (simp add: cache_wf_def)

lemma prepare_wf:
  assumes "cache_wf s" "\<not> cache_full s" "rewriteExtendPreStmt_impl rwt inBuf s = (r, s')"
  shows "cache_wf s'"
proof -
  obtain c slot s1 where c: "cacheExtendPreStmt rwt s = ((c, slot), s1)"
    by (metis prod.exhaust)
  have wf: "cache_wf s1" "slot < PRE_STMT_NUM_MAX"
    using cacheExtendPreStmt_wf [OF assms(1,2) c] by auto
  have "s' = s1 \<or> (\<exists>n. s' = s1 \<lparr> preStmtInfoes := (preStmtInfoes s1)
                      [slot := ps_with_params n (preStmtInfoes s1 ! slot)] \<rparr>)"
    using assms(3) c
    by (auto simp: rewriteExtendPreStmt_impl_def Let_def split: if_splits option.splits sum.splits prod.splits)
  then show ?thesis
    using wf cache_wf_slot [OF wf(1), of "ps_with_params _ (preStmtInfoes s1 ! slot)" slot] cache_wf_nth [OF wf]
    by auto
qed

lemma stmt_slot_Inr: "cache_wf s \<Longrightarrow> stmt_slot d ob s = Inr slot \<Longrightarrow> slot < PRE_STMT_NUM_MAX"
  by (auto simp: stmt_slot_def Let_def cache_wf_def split: if_splits)

lemma execute_wf:
  assumes "cache_wf s" "rewriteExtendExeStmt fmt inBuf s = (r, s')"
  shows "cache_wf s'"
proof (cases "stmt_slot (si_data inBuf) (si_offset inBuf) s")
  case (Inl e)
  with assms show ?thesis by (simp add: rewriteExtendExeStmt_def)
next
  case (Inr slot)
  have "s' = s \<or> (\<exists>ts. s' = s \<lparr> preStmtInfoes := (preStmtInfoes s)
                      [slot := (preStmtInfoes s ! slot) \<lparr> ps_paramTypes := ts \<rparr>] \<rparr>)"
    using assms(2) Inr
    by (auto simp: rewriteExtendExeStmt_def rewriteExtendExeStmt_impl_def put_stmt_def Let_def
        split: sqlReadWriteType.splits if_splits option.splits sum.splits prod.splits)
  then show ?thesis
    using assms(1) cache_wf_nth [OF assms(1) stmt_slot_Inr [OF assms(1) Inr]]
      cache_wf_slot [OF assms(1), of "(preStmtInfoes s ! slot) \<lparr> ps_paramTypes := _ \<rparr>" slot]
    by auto
qed

lemma close_wf:
  assumes "cache_wf s" "rewriteExtendCloseStmt inBuf s = (r, s')"
  shows "cache_wf s'"
proof (cases "stmt_slot (si_data inBuf) (si_offset inBuf) s")
  case (Inr slot)
  have "s' = s \<or> s' = s \<lparr> preStmtInfoes := (preStmtInfoes s)
                      [slot := (preStmtInfoes s ! slot) \<lparr> ps_isValid := False \<rparr>] \<rparr>"
    using assms(2) Inr by (auto simp: rewriteExtendCloseStmt_def Let_def split: option.splits)
  then show ?thesis
    using assms(1) cache_wf_slot [OF assms(1), of "(preStmtInfoes s ! slot) \<lparr> ps_isValid := False \<rparr>" slot]
    by auto
qed (use assms in \<open>simp add: rewriteExtendCloseStmt_def\<close>)

lemma reset_keeps_slots:
  assumes "preStmtInfoNum s = 0" "resetConnection inBuf s = (r, s')"
  shows "preStmtInfoes s' = preStmtInfoes s \<and> preStmtInfoNum s' = 0"
  using assms by (auto simp: resetConnection_def put_stmt_def Let_def map_nth split: option.splits)

lemma columnInfo_wf:
  assumes "cache_wf s" "mys_setCurrentPreStmtColumnInfo tn ci ct s = (r, s')"
  shows "cache_wf s'"
proof -
  obtain t s1 where g: "getMySQLDataType tn ct s = (t, s1)"
    by (metis prod.exhaust)
  have e: "preStmtInfoes s1 = preStmtInfoes s" "preStmtInfoNum s1 = preStmtInfoNum s"
    using g by (auto simp: getMySQLDataType_def initHaloMySqlDataTypesHashTable_def Let_def
        split: option.splits if_splits)
  have wf: "cache_wf s1" using assms(1) cache_wf_cong [OF e] by simp
  let ?p = "preStmtInfoes s1 ! curExtendPreStmtId s1"
  let ?q = "?p \<lparr> ps_columnNum := ps_columnNum ?p + 1, ps_columnTypes := (ps_columnTypes ?p)[ci := t],
      ps_columnCharacterSet := (ps_columnCharacterSet ?p)[ci := preStmt_charset t (tn ct)] \<rparr>"
  have "cache_wf (s1 \<lparr> preStmtInfoes := (preStmtInfoes s1)[curExtendPreStmtId s1 := ?q] \<rparr>)"
    if "curExtendPreStmtId s1 < length (preStmtInfoes s1)"
    using that cache_wf_nth [OF wf, of "curExtendPreStmtId s1"] wf by (intro cache_wf_slot) (auto simp: cache_wf_def)
  then show ?thesis
    using assms(2) g wf by (auto simp: mys_setCurrentPreStmtColumnInfo_def Let_def split: if_splits)
qed

section \<open>Rewriting a prepare: reference and refinement\<close>

text \<open>What the loop computes, on the statement as a list (with one more byte behind it, which an
  escape at the end copies): the text with every double quotation mark doubled, the number of
  marks added, and the number of question marks outside double quotation marks.\<close>

fun conv_spec :: "bool \<Rightarrow> nat \<Rightarrow> bytes \<Rightarrow> bytes \<times> nat \<times> nat" where
  "conv_spec q 0 src = ([], 0, 0)"
| "conv_spec q (Suc n) [] = ([], 0, 0)"
| "conv_spec q (Suc n) (c # src) =
     (if c = CHR 0x5C then
        (case src of
           [] \<Rightarrow> ([c], 0, 0)
         | c1 # src1 \<Rightarrow> (case conv_spec q (n - 1) src1 of (out, e, p) \<Rightarrow> (c # c1 # out, e, p)))
      else if c = CHR 0x22 then
        (case conv_spec (\<not> q) n src of (out, e, p) \<Rightarrow> (c # c # out, e + 1, p))
      else if c = CHR ''?'' \<and> \<not> q then
        (case conv_spec q n src of (out, e, p) \<Rightarrow> (c # out, e, p + 1))
      else (case conv_spec q n src of (out, e, p) \<Rightarrow> (c # out, e, p)))"

lemma conv_spec_length: "conv_spec q n src = (out, e, p) \<Longrightarrow> length out \<le> Suc n + e"
proof (induction q n src arbitrary: out e p rule: conv_spec.induct)
  case (3 q n c src)
  show ?case
  proof (cases src)
    case Nil
    with 3 show ?thesis by (fastforce split: if_splits prod.splits)
  next
    case (Cons c1 src1)
    obtain o1 e1 p1 o2 e2 p2 o3 e3 p3 where
      r: "conv_spec q (n - 1) src1 = (o1, e1, p1)" "conv_spec (\<not> q) n src = (o2, e2, p2)"
         "conv_spec q n src = (o3, e3, p3)"
      by (metis prod.exhaust)
    have "c = CHR 0x5C \<Longrightarrow> length o1 \<le> Suc (n - 1) + e1"
      using 3(1) [OF _ Cons] r(1) by simp
    then have "c = CHR 0x5C \<Longrightarrow> length o1 \<le> n + e1"
      using r(1) by (cases n) auto
    moreover have "c \<noteq> CHR 0x5C \<Longrightarrow> c = CHR 0x22 \<Longrightarrow> length o2 \<le> Suc n + e2"
      using 3(2) r(2) by simp
    moreover have "c \<noteq> CHR 0x5C \<Longrightarrow> c \<noteq> CHR 0x22 \<Longrightarrow> length o3 \<le> Suc n + e3"
      using 3(3,4) r(3) by blast
    ultimately show ?thesis
      using 3(5) r Cons by (auto split: if_splits)
  qed
qed auto

text \<open>The state of the loop that corresponds to being inside double quotation marks or not.\<close>

definition conv_quotes :: "bool \<Rightarrow> conv \<Rightarrow> bool" where
  "conv_quotes q v \<longleftrightarrow> (if q then cv_mark v = CHR 0x22 \<and> cv_marksNum v = 1 else cv_mark v = CHR '' '' \<and> cv_marksNum v = 0)"

definition conv_done :: "nat \<Rightarrow> conv \<Rightarrow> bytes \<times> nat \<times> nat \<Rightarrow> fault + bool \<times> conv \<Rightarrow> bool" where
  "conv_done nb v sp r \<longleftrightarrow> (case sp of (out, e, p) \<Rightarrow>
     if int e < cv_remain v
     then \<exists>v'. r = Inr (True, v') \<and> cv_data v' = overwrite (cv_data v) (nb + cv_newIndex v) out
            \<and> cv_newIndex v' = cv_newIndex v + length out \<and> cv_paramNum v' = cv_paramNum v + p
     else \<exists>v'. r = Inr (False, v'))"

lemma conv_put_ok:
  "nb + cv_newIndex v < length (cv_data v) \<Longrightarrow>
     conv_put nb c v = Some (v \<lparr> cv_data := overwrite (cv_data v) (nb + cv_newIndex v) [c], cv_newIndex := cv_newIndex v + 1 \<rparr>)"
  by (simp add: conv_put_def mem_write_def)

text \<open>One step of the loop, for a character read in front of the write position.\<close>

definition conv_room :: "nat \<Rightarrow> nat \<Rightarrow> nat \<Rightarrow> nat \<Rightarrow> conv \<Rightarrow> bool" where
  "conv_room ob len nb i v \<longleftrightarrow> ob + len < length (cv_data v) \<and> 0 < cv_remain v
     \<and> cv_remain v = int (ob + i) - int (nb + cv_newIndex v)"

lemma conv_step:
  assumes "conv_room ob len nb i v" "i < len" "conv_quotes q v"
  defines "c \<equiv> cv_data v ! (ob + i)"
  defines "v1 \<equiv> v \<lparr> cv_data := overwrite (cv_data v) (nb + cv_newIndex v) [c], cv_newIndex := cv_newIndex v + 1 \<rparr>"
  defines "c1 \<equiv> cv_data v ! Suc (ob + i)"
  defines "v2 \<equiv> v1 \<lparr> cv_data := overwrite (cv_data v1) (nb + cv_newIndex v1) [c1], cv_newIndex := cv_newIndex v1 + 1 \<rparr>"
  defines "v3 \<equiv> v1 \<lparr> cv_data := overwrite (cv_data v1) (nb + cv_newIndex v1) [c], cv_newIndex := cv_newIndex v1 + 1,
      cv_remain := cv_remain v - 1, cv_mark := (if q then CHR '' '' else CHR 0x22), cv_marksNum := (if q then 0 else 1) \<rparr>"
  shows "convertLoop ob len nb i v =
     (if c = CHR 0x5C then convertLoop ob len nb (i + 2) v2
      else if c = CHR 0x22 then
        (if 1 < cv_remain v then convertLoop ob len nb (i + 1) v3 else Inr (False, v3))
      else if c = CHR ''?'' \<and> \<not> q then convertLoop ob len nb (i + 1) (v1 \<lparr> cv_paramNum := cv_paramNum v + 1 \<rparr>)
      else convertLoop ob len nb (i + 1) v1)"
proof -
  have pos: "nb + cv_newIndex v < ob + i" "ob + i < length (cv_data v)" "Suc (ob + i) < length (cv_data v)"
    using assms(1,2) by (auto simp: conv_room_def)
  have rd: "mem_read (cv_data v) (ob + i) = Some c"
    using pos by (simp add: mem_read_def c_def)
  have p1: "conv_put nb c v = Some v1"
    using pos by (simp add: conv_put_ok v1_def)
  have l1: "length (cv_data v1) = length (cv_data v)" "cv_newIndex v1 = cv_newIndex v + 1"
    using pos by (simp_all add: v1_def)
  have rd1: "mem_read (cv_data v1) (Suc (ob + i)) = Some c1"
    using pos by (simp add: mem_read_def c1_def v1_def)
  have p2: "conv_put nb c1 v1 = Some v2"
    using pos l1 by (simp add: conv_put_ok v2_def)
  have p3: "conv_double nb c (v1 \<lparr> cv_marksNum := (if q then 0 else 1), cv_mark := (if q then CHR '' '' else CHR 0x22) \<rparr>)
      = Some (1 < cv_remain v, v3)"
    using pos l1 by (auto simp: conv_double_def conv_put_ok v3_def v1_def)
  have q1: "cv_mark v1 = cv_mark v" "cv_marksNum v1 = cv_marksNum v" "cv_paramNum v1 = cv_paramNum v"
    by (simp_all add: v1_def)
  note unf = convertLoop.simps [of ob len nb i v]
  consider "c = CHR 0x5C" | "c = CHR 0x22" | "c \<noteq> CHR 0x5C" "c \<noteq> CHR 0x22" by blast
  then show ?thesis
  proof cases
    case 1
    then show ?thesis
      using assms(2) by (simp add: unf rd [unfolded 1] p1 [unfolded 1] rd1 p2)
  next
    case 2
    have "convertLoop ob len nb i v = (case conv_double nb c (v1 \<lparr> cv_marksNum := (if q then 0 else 1),
             cv_mark := (if q then CHR '' '' else CHR 0x22) \<rparr>) of
         None \<Rightarrow> Inl OutOfBounds
       | Some (ok, v3) \<Rightarrow> if ok then convertLoop ob len nb (i + 1) v3 else Inr (False, v3))"
      using assms(2,3) by (cases q) (simp_all add: unf rd [unfolded 2] p1 [unfolded 2] q1 conv_quotes_def Let_def 2)
    then show ?thesis
      unfolding p3 using 2 by simp
  next
    case 3
    then show ?thesis
      using assms(2,3) by (auto simp: unf rd p1 q1 conv_quotes_def)
  qed
qed

text \<open>The source text that is still to be read.\<close>

definition conv_src :: "nat \<Rightarrow> nat \<Rightarrow> nat \<Rightarrow> conv \<Rightarrow> bytes" where
  "conv_src ob len i v = bslice (ob + i) (Suc len - i) (cv_data v)"

lemma conv_src_Cons:
  "i < len \<Longrightarrow> ob + len < length (cv_data v) \<Longrightarrow>
     conv_src ob len i v = cv_data v ! (ob + i) # conv_src ob len (Suc i) v"
  using bslice_Cons [of "ob + i" "cv_data v" "len - i"]
  by (simp add: conv_src_def Suc_diff_le)

lemma conv_src_Cons2:
  "i < len \<Longrightarrow> ob + len < length (cv_data v) \<Longrightarrow>
     conv_src ob len (Suc i) v = cv_data v ! Suc (ob + i) # conv_src ob len (Suc (Suc i)) v"
  using bslice_Cons [of "Suc (ob + i)" "cv_data v" "len - Suc i"]
  by (simp add: conv_src_def Suc_diff_Suc)

lemma conv_src_overwrite:
  "p + length bs \<le> ob + i \<Longrightarrow> ob + i \<le> length (cv_data v) \<Longrightarrow> cv_data v' = overwrite (cv_data v) p bs \<Longrightarrow>
     conv_src ob len i v' = conv_src ob len i v"
  by (simp add: conv_src_def buf_simps)

text \<open>Putting a step in front of the rest of the run.\<close>

lemma conv_done_step:
  assumes "conv_done nb v' (out, e, p) r" "cv_data v' = overwrite (cv_data v) (nb + cv_newIndex v) pre"
    "cv_newIndex v' = cv_newIndex v + length pre" "cv_remain v' = cv_remain v - int k"
    "cv_paramNum v' = cv_paramNum v + j"
    "int e < cv_remain v' \<Longrightarrow> nb + cv_newIndex v + length pre + length out \<le> length (cv_data v)"
  shows "conv_done nb v (pre @ out, e + k, p + j) r"
  using assms overwrite_overwrite_adjacent [of "nb + cv_newIndex v" pre out "cv_data v"]
  by (auto simp: conv_done_def add.assoc)

lemma convertLoop_refines:
  assumes "conv_room ob len nb i v" "conv_quotes q v" "i \<le> Suc len"
  shows "conv_done nb v (conv_spec q (len - i) (conv_src ob len i v)) (convertLoop ob len nb i v)"
  using assms
proof (induction "len - i" arbitrary: i v q rule: less_induct)
  case less
  note room = less.prems(1)
  show ?case
  proof (cases "i < len")
    case False
    have "nb + cv_newIndex v \<le> length (cv_data v)"
      using room less.prems(3) by (auto simp: conv_room_def)
    with False room show ?thesis
      by (auto simp: convertLoop.simps [of ob len nb i v] conv_done_def conv_room_def)
  next
    case True
    define c where "c = cv_data v ! (ob + i)"
    define c1 where "c1 = cv_data v ! Suc (ob + i)"
    let ?p = "nb + cv_newIndex v"
    have pos: "?p < ob + i" "ob + len < length (cv_data v)" "cv_remain v = int (ob + i) - int ?p"
      using room by (auto simp: conv_room_def)
    note step = conv_step [OF room True less.prems(2), folded c_def c1_def]
    have src: "conv_src ob len i v = c # conv_src ob len (Suc i) v"
        "conv_src ob len (Suc i) v = c1 # conv_src ob len (Suc (Suc i)) v"
      using conv_src_Cons [OF True, of ob v] conv_src_Cons2 [OF True, of ob v] pos by (auto simp: c_def c1_def)
    have n: "len - i = Suc (len - Suc i)" using True by simp
    have adv: "conv_done nb v (pre @ out, e + k, p + j) (convertLoop ob len nb i' v')"
      if "i < i'" "i' \<le> Suc len" "cv_data v' = overwrite (cv_data v) ?p pre"
        "cv_newIndex v' = cv_newIndex v + length pre" "cv_remain v' = cv_remain v - int k"
        "cv_paramNum v' = cv_paramNum v + j" "conv_quotes q' v'" "0 < cv_remain v'" "length pre + i = i' + k"
        "conv_spec q' (len - i') (conv_src ob len i' v) = (out, e, p)" for i' v' pre out e k p j q'
    proof -
      have le: "?p + length pre < ob + i'"
        using that pos(3) by linarith
      have ld: "length (cv_data v') = length (cv_data v)"
        using that(2,3) le pos by simp
      have "conv_room ob len nb i' v'"
        using that pos ld le by (auto simp: conv_room_def)
      moreover have "conv_src ob len i' v' = conv_src ob len i' v"
        using that(2,3) le pos by (intro conv_src_overwrite [of ?p pre]) auto
      ultimately have "conv_done nb v' (out, e, p) (convertLoop ob len nb i' v')"
        using less.hyps [of i' v' q'] that True by auto
      moreover have "int e < cv_remain v' \<Longrightarrow> ?p + length pre + length out \<le> length (cv_data v)"
        using conv_spec_length [OF that(10)] that(1,2,5,9) pos by linarith
      ultimately show ?thesis
        using that by (intro conv_done_step [where v' = v'])
    qed
    obtain o1 e1 p1 o2 e2 p2 o3 e3 p3 where
      r1: "conv_spec q (len - Suc i - 1) (conv_src ob len (Suc (Suc i)) v) = (o1, e1, p1)" and
      r2: "conv_spec (\<not> q) (len - Suc i) (conv_src ob len (Suc i) v) = (o2, e2, p2)" and
      r3: "conv_spec q (len - Suc i) (conv_src ob len (Suc i) v) = (o3, e3, p3)"
      by (metis prod.exhaust)
    consider "c = CHR 0x5C" | "c = CHR 0x22" "1 < cv_remain v" | "c = CHR 0x22" "\<not> 1 < cv_remain v"
      | "c \<noteq> CHR 0x5C" "c \<noteq> CHR 0x22" "c = CHR ''?'' \<and> \<not> q" | "c \<noteq> CHR 0x5C" "c \<noteq> CHR 0x22" "\<not> (c = CHR ''?'' \<and> \<not> q)"
      by blast
    then show ?thesis
    proof cases
      case 1
      have "conv_spec q (len - i) (conv_src ob len i v) = ([c, c1] @ o1, e1 + 0, p1 + 0)"
        unfolding n src(1) using 1 r1 src(2) by simp
      moreover have "overwrite (overwrite (cv_data v) ?p [c]) (Suc ?p) [c1] = overwrite (cv_data v) ?p [c, c1]"
        using overwrite_overwrite_adjacent [of ?p "[c]" "[c1]" "cv_data v"] pos True by simp
      ultimately show ?thesis
        unfolding step using 1 True r1 less.prems(2) room
        by (simp only: simp_thms if_True) (rule adv [where q' = q], auto simp: conv_quotes_def conv_room_def)
    next
      case 2
      have ne: "c \<noteq> CHR 0x5C" using 2 by simp
      have sp: "conv_spec q (len - i) (conv_src ob len i v) = ([c, c] @ o2, e2 + 1, p2 + 0)"
        unfolding n src(1) using 2 r2 by simp
      have ow: "overwrite (overwrite (cv_data v) ?p [c]) (Suc ?p) [c] = overwrite (cv_data v) ?p [c, c]"
        using overwrite_overwrite_adjacent [of ?p "[c]" "[c]" "cv_data v"] pos True by simp
      show ?thesis
        unfolding sp step if_not_P [OF ne] if_P [OF 2(1)] if_P [OF 2(2)]
        by (rule adv [where q' = "\<not> q"]) (use 2 True r2 ow in \<open>auto simp: conv_quotes_def\<close>)
    next
      case 3
      have "conv_spec q (len - i) (conv_src ob len i v) = (c # c # o2, e2 + 1, p2)"
        unfolding n src(1) using 3 r2 by simp
      with 3 room show ?thesis
        unfolding step by (simp add: conv_done_def conv_room_def)
    next
      case 4
      have "conv_spec q (len - i) (conv_src ob len i v) = ([c] @ o3, e3 + 0, p3 + 1)"
        unfolding n src(1) using 4 r3 by simp
      then show ?thesis
        unfolding step using 4 True r3 less.prems(2) room
        by (simp only: simp_thms if_True if_False) (rule adv [where q' = q], auto simp: conv_quotes_def conv_room_def)
    next
      case 5
      have "conv_spec q (len - i) (conv_src ob len i v) = ([c] @ o3, e3 + 0, p3 + 0)"
        unfolding n src(1) using 5 r3 by auto
      then show ?thesis
        unfolding step using 5 True r3 less.prems(2) room
        by (simp only: simp_thms if_True if_False) (rule adv [where q' = q], auto simp: conv_quotes_def conv_room_def)
    qed
  qed
qed

section \<open>The life cycle of statements\<close>

text \<open>What can happen to the cache of a session, a prepare being taken only while a slot is
  free; \<open>fmt\<close> and \<open>tn\<close> are the number formatting and the catalog of the operations.\<close>

inductive stmt_step :: "(bytes \<Rightarrow> string) \<Rightarrow> (nat \<Rightarrow> string) \<Rightarrow> session \<Rightarrow> session \<Rightarrow> bool" for fmt tn where
  step_prepare: "\<not> cache_full s \<Longrightarrow> rewriteExtendPreStmt inBuf s = (r, s') \<Longrightarrow> stmt_step fmt tn s s'"
| step_columns: "mys_setCurrentPreStmtColumnInfo tn ci ct s = (r', s') \<Longrightarrow> stmt_step fmt tn s s'"
| step_execute: "rewriteExtendExeStmt fmt inBuf s = (r'', s') \<Longrightarrow> stmt_step fmt tn s s'"
| step_close: "rewriteExtendCloseStmt inBuf s = (r'', s') \<Longrightarrow> stmt_step fmt tn s s'"
| step_reset: "resetConnection inBuf s = (r'', s') \<Longrightarrow> stmt_step fmt tn s s'"

inductive_cases stmt_stepE: "stmt_step fmt tn s s'"

lemma stmt_step_wf: "stmt_step fmt tn s s' \<Longrightarrow> cache_wf s \<Longrightarrow> cache_wf s'"
proof (induction rule: stmt_step.induct)
  case (step_prepare s inBuf r s')
  then show ?case
    by (auto simp: rewriteExtendPreStmt_def split: if_splits intro: prepare_wf)
next
  case (step_reset inBuf s r'' s')
  then have "preStmtInfoes s' = preStmtInfoes s \<and> preStmtInfoNum s' = 0"
    by (auto simp: cache_wf_def dest: reset_keeps_slots)
  with step_reset show ?case by (simp add: cache_wf_def)
qed (auto intro: columnInfo_wf execute_wf close_wf)

inductive stmt_reachable :: "(bytes \<Rightarrow> string) \<Rightarrow> (nat \<Rightarrow> string) \<Rightarrow> session \<Rightarrow> bool" for fmt tn where
  reach_init: "stmt_reachable fmt tn (init_session caps n)"
| reach_step: "stmt_reachable fmt tn s \<Longrightarrow> stmt_step fmt tn s s' \<Longrightarrow> stmt_reachable fmt tn s'"

lemma cache_wf_init: "cache_wf (init_session caps n)"
  by (simp add: cache_wf_def init_session_def initPreStmtInfoes_def init_preStmtInfo_def)

lemma stmt_reachable_wf: "stmt_reachable fmt tn s \<Longrightarrow> cache_wf s"
  by (induction rule: stmt_reachable.induct) (auto intro: cache_wf_init stmt_step_wf)

lemma cache_full_init: "\<not> cache_full (init_session caps n)"
  by (auto simp: cache_full_def list_all_iff init_session_def initPreStmtInfoes_def init_preStmtInfo_def
      PRE_STMT_NUM_MAX_def intro!: bexI [of _ 1])

section \<open>Rewriting a prepare in the buffer\<close>

definition prepare_intro :: "nat \<Rightarrow> bytes" where
  "prepare_intro i = ''prepare '' @ stmt_name i @ '' from '' @ [CHR 0x22]"

lemma length_prepare_intro: "i < 10000 \<Longrightarrow> length (prepare_intro i) = 26"
  by (simp add: prepare_intro_def length_stmt_name)

text \<open>The slot chosen for a prepare and the rest of \<open>rewriteExtendPreStmt_\<close>.\<close>

lemma prepare_unfold:
  assumes "cache_wf s" "\<not> cache_full s" "155 \<le> length (si_data b)"
  shows "\<exists>i s1. 1 \<le> i \<and> i < PRE_STMT_NUM_MAX \<and> \<not> ps_isValid (preStmtInfoes s ! i) \<and> curExtendPreStmtId s1 = i
    \<and> preStmtInfoes s1 = (preStmtInfoes s)[i := (preStmtInfoes s ! i)
          \<lparr> ps_name := stmt_name i, ps_readWriteType := SRWT_UNKNOWN, ps_isValid := True \<rparr>]
    \<and> rewriteExtendPreStmt_impl SRWT_UNKNOWN b s =
       (case convertExtendPreStmt (si_offset b) (si_len b - 1) (int (si_offset b) - 154) 128 26
               (overwrite (si_data b) 128 (prepare_intro i @ [NUL])) of
          Inl e \<Rightarrow> (Inl e, s1)
        | Inr (ok, v) \<Rightarrow>
            if \<not> ok then (Inr (0, b \<lparr> si_offset := 128, si_data := cv_data v \<rparr>), s1)
            else (case mem_write (cv_data v) (128 + cv_newIndex v) [CHR 0x22, NUL] of
                    None \<Rightarrow> (Inl OutOfBounds, s1)
                  | Some d2 \<Rightarrow> (Inr (1, b \<lparr> si_offset := 128, si_data := d2, si_len := cv_newIndex v + 2 \<rparr>),
                       s1 \<lparr> preStmtInfoes := (preStmtInfoes s1)
                              [i := ps_with_params (cv_paramNum v) (preStmtInfoes s1 ! i)] \<rparr>)))"
proof -
  obtain i s1 where i: "cacheExtendPreStmt SRWT_UNKNOWN s = ((1, i), s1)"
    "1 \<le> i" "i < PRE_STMT_NUM_MAX" "\<not> ps_isValid (preStmtInfoes s ! i)" "curExtendPreStmtId s1 = i"
    "preStmtInfoes s1 = (preStmtInfoes s)[i := (preStmtInfoes s ! i)
          \<lparr> ps_name := stmt_name i, ps_readWriteType := SRWT_UNKNOWN, ps_isValid := True \<rparr>]"
    using cacheExtendPreStmt_fresh [OF assms(1,2), of SRWT_UNKNOWN] by auto
  have nm: "ps_name (preStmtInfoes s1 ! i) = stmt_name i"
    using i(3,6) assms(1) by (simp add: cache_wf_def)
  have len: "length (prepare_intro i) = 26"
    using i(3) by (intro length_prepare_intro) (simp add: PRE_STMT_NUM_MAX_def)
  then have tk: "take 26 (''prepare '' @ stmt_name i @ '' from '' @ [CHR 0x22]) = prepare_intro i"
    by (simp add: prepare_intro_def)
  have "rewriteExtendPreStmt_impl SRWT_UNKNOWN b s =
       (case convertExtendPreStmt (si_offset b) (si_len b - 1) (int (si_offset b) - 154) 128 26
               (overwrite (si_data b) 128 (prepare_intro i @ [NUL])) of
          Inl e \<Rightarrow> (Inl e, s1)
        | Inr (ok, v) \<Rightarrow>
            if \<not> ok then (Inr (0, b \<lparr> si_offset := 128, si_data := cv_data v \<rparr>), s1)
            else (case mem_write (cv_data v) (128 + cv_newIndex v) [CHR 0x22, NUL] of
                    None \<Rightarrow> (Inl OutOfBounds, s1)
                  | Some d2 \<Rightarrow> (Inr (1, b \<lparr> si_offset := 128, si_data := d2, si_len := cv_newIndex v + 2 \<rparr>),
                       s1 \<lparr> preStmtInfoes := (preStmtInfoes s1)
                              [i := ps_with_params (cv_paramNum v) (preStmtInfoes s1 ! i)] \<rparr>)))"
    using assms(3) unfolding rewriteExtendPreStmt_impl_def i(1) prod.case Let_def nm tk
    by (simp add: mem_write_def len)
  with i show ?thesis by blast
qed

text \<open>A run over ordinary characters that lie in front of the write position.\<close>

definition plain :: "char \<Rightarrow> bool" where
  "plain c \<longleftrightarrow> c \<noteq> CHR 0x5C \<and> c \<noteq> CHR 0x22 \<and> c \<noteq> CHR ''?''"

lemma convertLoop_plain:
  "i + k \<le> len \<Longrightarrow> ob + i + k \<le> nb + cv_newIndex v \<Longrightarrow> nb + cv_newIndex v + k \<le> length (cv_data v) \<Longrightarrow>
   list_all plain (bslice (ob + i) k (cv_data v)) \<Longrightarrow>
   \<exists>v'. convertLoop ob len nb i v = convertLoop ob len nb (i + k) v' \<and> cv_newIndex v' = cv_newIndex v + k
      \<and> cv_mark v' = cv_mark v \<and> cv_marksNum v' = cv_marksNum v \<and> cv_remain v' = cv_remain v
      \<and> length (cv_data v') = length (cv_data v) \<and> (\<forall>j < nb + cv_newIndex v. cv_data v' ! j = cv_data v ! j)"
proof (induction k arbitrary: i v)
  case 0
  then show ?case by (intro exI [of _ v]) simp
next
  case (Suc k)
  let ?c = "cv_data v ! (ob + i)"
  let ?v1 = "v \<lparr> cv_data := overwrite (cv_data v) (nb + cv_newIndex v) [?c], cv_newIndex := cv_newIndex v + 1 \<rparr>"
  have in_d: "ob + i < length (cv_data v)" "nb + cv_newIndex v < length (cv_data v)" "i < len"
    using Suc.prems by auto
  have pl: "plain ?c" "list_all plain (bslice (Suc (ob + i)) k (cv_data v))"
    using Suc.prems(4) in_d by (simp_all add: bslice_Cons)
  have "convertLoop ob len nb i v = convertLoop ob len nb (i + 1) ?v1"
    using pl(1) in_d by (simp add: convertLoop.simps [of ob len nb i v] mem_read_def conv_put_ok plain_def)
  moreover obtain v' where "convertLoop ob len nb (i + 1) ?v1 = convertLoop ob len nb (i + 1 + k) v'"
      "cv_newIndex v' = cv_newIndex ?v1 + k" "cv_mark v' = cv_mark ?v1" "cv_marksNum v' = cv_marksNum ?v1"
      "cv_remain v' = cv_remain ?v1" "length (cv_data v') = length (cv_data ?v1)"
      "\<forall>j < nb + cv_newIndex ?v1. cv_data v' ! j = cv_data ?v1 ! j"
    using Suc.IH [of "i + 1" ?v1] Suc.prems pl in_d by (auto simp: buf_simps)
  ultimately show ?case
    using in_d by (intro exI [of _ v']) auto
qed

lemma plain_name: "i < 10000 \<Longrightarrow> list_all plain (stmt_name i)"
  using show_nat_pad_digits [of _ 4 i]
  by (auto simp: stmt_name_full list_all_iff plain_def is_digit_def less_eq_char_def dest!: show_nat_pad_digits)

lemma conv_mark_rejected:
  assumes "i < len" "cv_data v ! (ob + i) = CHR 0x22" "ob + i < length (cv_data v)"
    "nb + cv_newIndex v + 1 < length (cv_data v)" "cv_mark v = CHR '' ''" "cv_remain v \<le> 1"
  shows "\<exists>v'. convertLoop ob len nb i v = Inr (False, v')"
  using assms by (simp add: convertLoop.simps [of ob len nb i v] mem_read_def conv_put_ok conv_double_def Let_def)

text \<open>At offset 129 the loop reads the introduction it has just written, up to its quotation mark.\<close>

lemma prepare_intro_plain: "i < 10000 \<Longrightarrow> list_all plain (take 24 (drop 1 (prepare_intro i)))"
  using plain_name [of i] length_stmt_name [of i]
  by (auto simp: prepare_intro_def list_all_iff plain_def dest!: in_set_takeD)

lemma bslice_of_bslice: "j + k \<le> n \<Longrightarrow> bslice (i + j) k d = take k (drop j (bslice i n d))"
  by (simp add: bslice_def drop_take add.commute)

lemma convert_at_129:
  assumes "i < 10000" "180 \<le> length d" "25 \<le> n"
  shows "\<exists>v. convertExtendPreStmt 129 n (-25) 128 26 (overwrite d 128 (prepare_intro i @ [NUL])) = Inr (False, v)"
proof -
  let ?d = "overwrite d 128 (prepare_intro i @ [NUL])"
  let ?v = "\<lparr> cv_data = ?d, cv_newIndex = 26, cv_mark = CHR '' '', cv_marksNum = 0, cv_remain = -25, cv_paramNum = 0 \<rparr>"
  have len: "length (prepare_intro i) = 26" by (rule length_prepare_intro [OF assms(1)])
  have in_d: "bslice 128 27 ?d = prepare_intro i @ [NUL]"
    using bslice_overwrite_same [of 128 "prepare_intro i @ [NUL]" d] assms(2) len by simp
  have sl: "bslice 129 24 ?d = take 24 (drop 1 (prepare_intro i))" "bslice 153 1 ?d = [CHR 0x22]"
    using bslice_of_bslice [of 1 24 27 128 ?d] bslice_of_bslice [of 25 1 27 128 ?d] len length_stmt_name [OF assms(1)]
    unfolding in_d by (simp_all add: prepare_intro_def)
  obtain v' where v': "convertLoop 129 n 128 0 ?v = convertLoop 129 n 128 24 v'" "cv_newIndex v' = 50"
      "cv_mark v' = CHR '' ''" "cv_remain v' = -25" "length (cv_data v') = length d"
      "\<forall>j < 154. cv_data v' ! j = ?d ! j"
    using convertLoop_plain [of 0 24 n 129 128 ?v] assms len sl(1) prepare_intro_plain [OF assms(1)] by auto
  have "cv_data v' ! 153 = CHR 0x22"
    using v'(6) sl(2) assms(2) len by (simp add: bslice_Cons)
  then show ?thesis
    using conv_mark_rejected [of 24 n v' 129 128] v' assms by (simp add: convertExtendPreStmt_def)
qed

section \<open>Rendering the parameters in the buffer\<close>

text \<open>What one parameter means: its text and the number of bytes of the packet it takes.\<close>

definition lenenc_text :: "bool \<Rightarrow> bytes \<Rightarrow> (bytes \<times> nat) option" where
  "lenenc_text quoted inp =
     (case processLenencString inp of
        None \<Rightarrow> None
      | Some (len, ls) \<Rightarrow>
          if ls + len \<le> length inp then
            Some ((if quoted then [CHR 0x27] else []) @ bslice ls len inp @ (if quoted then [CHR 0x27] else []), ls + len)
          else None)"

definition quoted_text :: "(string \<times> nat) option \<Rightarrow> (bytes \<times> nat) option" where
  "quoted_text = map_option (\<lambda>(txt, n). ([CHR 0x27] @ txt @ [CHR 0x27], n))"

definition param_text :: "(bytes \<Rightarrow> string) \<Rightarrow> nat \<Rightarrow> bytes \<Rightarrow> (bytes \<times> nat) option" where
  "param_text fmt ptype inp =
     (case kind_of_param (ptype mod 256) of
        PK_decimal \<Rightarrow> lenenc_text False inp
      | PK_int k \<Rightarrow> if k \<le> length inp then Some (show_param_int ((ptype div 256) mod 256 \<noteq> 0) (take k inp), k) else None
      | PK_float k \<Rightarrow> if k \<le> length inp then Some (fmt (take k inp), k) else None
      | PK_date \<Rightarrow> quoted_text (processDateType inp)
      | PK_time \<Rightarrow> quoted_text (processTimeType inp)
      | PK_datetime \<Rightarrow> quoted_text (processDatetimeTimestampType inp)
      | PK_string \<Rightarrow> lenenc_text True inp
      | PK_none \<Rightarrow> Some ([], 0))"

text \<open>What all parameters mean, from the null bits, the types and the values.\<close>

fun exec_spec :: "(bytes \<Rightarrow> string) \<Rightarrow> bool list \<Rightarrow> nat list \<Rightarrow> bytes \<Rightarrow> (bytes \<times> nat) list option" where
  "exec_spec fmt (u # us) (t # ts) inp =
     (case (if u then Some (''NULL'', 0) else param_text fmt t inp) of
        None \<Rightarrow> None
      | Some (txt, k) \<Rightarrow> map_option (\<lambda>ps. (txt, k) # ps) (exec_spec fmt us ts (drop k inp)))"
| "exec_spec fmt _ _ inp = Some []"

text \<open>The room the in-place loop needs, with the write position \<open>w\<close> and the read position \<open>r\<close> in a
  buffer of \<open>n\<close> bytes: the text never passes the values still to be read, and the null bits (behind
  \<open>lim\<close>) are intact whenever they are read.\<close>

fun exe_room :: "nat \<Rightarrow> nat \<Rightarrow> nat \<Rightarrow> nat \<Rightarrow> (bytes \<times> nat) list \<Rightarrow> bool" where
  "exe_room lim n w r [] \<longleftrightarrow> True"
| "exe_room lim n w r ((txt, k) # ps) \<longleftrightarrow>
     w \<le> lim \<and> w + 1 \<le> r \<and> w + length txt + 1 \<le> r + k \<and> r + k \<le> n \<and> exe_room lim n (w + length txt + 1) (r + k) ps"

definition exe_list :: "(bytes \<times> nat) list \<Rightarrow> bytes" where
  "exe_list ps = concat (map (\<lambda>(txt, _). txt @ '','') ps)"

lemma exe_emit_ok:
  "nb + wo + length txt \<le> length d \<Longrightarrow> exe_emit nb txt k (d, wo, ro) = Inr (overwrite d (nb + wo) txt, wo + length txt, ro + k)"
  by (simp add: exe_emit_def mem_write_def)

lemma processLenencString_pos: "processLenencString inp = Some (len, ls) \<Longrightarrow> 1 \<le> ls"
  by (auto simp: processLenencString_def lenenc_at_def Let_def split: option.splits if_splits)

lemma exe_lenenc_text:
  assumes "lenenc_text q (drop (ob + ro) d) = Some (txt, k)" "nb + wo + 1 \<le> ob + ro" "nb + wo + length txt + 1 \<le> length d"
  shows "exe_lenenc ob nb q (d, wo, ro) = Inr (overwrite d (nb + wo) txt, wo + length txt, ro + k)"
proof -
  let ?q = "if q then [CHR 0x27] else []"
  obtain len ls where l: "processLenencString (drop (ob + ro) d) = Some (len, ls)" "ls + len \<le> length d - (ob + ro)"
    "txt = ?q @ bslice ls len (drop (ob + ro) d) @ ?q" "k = ls + len"
    using assms(1) by (auto simp: lenenc_text_def split: option.splits if_splits)
  have pos: "1 \<le> ls" "ob + ro + ls + len \<le> length d"
    using l(2) processLenencString_pos [OF l(1)] by linarith+
  have sl: "bslice ls len (drop (ob + ro) d) = bslice (ob + (ro + ls)) len d" for ls len
    by (simp add: bslice_def ac_simps)
  have ql: "length ?q \<le> 1" by simp
  have len_txt: "length txt = length ?q + len + length ?q"
    using pos l(3) by (simp add: sl length_bslice)
  have rd: "bslice (ob + (ro + ls)) len (overwrite d (nb + wo) ?q) = bslice (ob + (ro + ls)) len d"
    using assms(2,3) len_txt by (intro bslice_overwrite_after) auto
  have lb: "length (bslice (ob + (ro + ls)) len d) = len"
    using pos by (simp add: length_bslice)
  have w1: "overwrite (overwrite d (nb + wo) ?q) (nb + (wo + length ?q)) (bslice (ob + (ro + ls)) len d)
      = overwrite d (nb + wo) (?q @ bslice (ob + (ro + ls)) len d)"
    using overwrite_overwrite_adjacent [of "nb + wo" ?q "bslice (ob + (ro + ls)) len d" d] assms(3) len_txt lb
    by (simp add: add.assoc)
  have w2: "overwrite (overwrite d (nb + wo) (?q @ bslice (ob + (ro + ls)) len d)) (nb + (wo + length ?q + len)) ?q
      = overwrite d (nb + wo) txt"
    using overwrite_overwrite_adjacent [of "nb + wo" "?q @ bslice (ob + (ro + ls)) len d" ?q d] assms(3) len_txt lb
    by (simp add: add.assoc l(3) sl)
  have e1: "exe_emit nb ?q ls (d, wo, ro) = Inr (overwrite d (nb + wo) ?q, wo + length ?q, ro + ls)"
    using assms(3) len_txt by (intro exe_emit_ok) auto
  have e2: "exe_emit nb (bslice (ob + (ro + ls)) len d) len (overwrite d (nb + wo) ?q, wo + length ?q, ro + ls)
      = Inr (overwrite d (nb + wo) (?q @ bslice (ob + (ro + ls)) len d), wo + length ?q + len, ro + ls + len)"
    using exe_emit_ok [of nb "wo + length ?q" "bslice (ob + (ro + ls)) len d" "overwrite d (nb + wo) ?q" len "ro + ls"]
      assms(3) len_txt lb w1 by simp
  have e3: "exe_emit nb ?q 0 (overwrite d (nb + wo) (?q @ bslice (ob + (ro + ls)) len d), wo + length ?q + len, ro + ls + len)
      = Inr (overwrite d (nb + wo) txt, wo + length txt, ro + k)"
    using exe_emit_ok [of nb "wo + length ?q + len" ?q "overwrite d (nb + wo) (?q @ bslice (ob + (ro + ls)) len d)" 0 "ro + ls + len"]
      assms(3) len_txt lb w2 l(4) by simp
  have "ob + (ro + ls) + len \<le> length (overwrite d (nb + wo) ?q)"
    using pos(2) assms(3) len_txt by simp
  then show ?thesis
    unfolding exe_lenenc_def using l(1) e1 e2 e3 rd by (simp add: add.assoc)
qed

lemma overwrite_over:
  "length z = length z' \<Longrightarrow> i + length txt + length z \<le> length d \<Longrightarrow>
   overwrite (overwrite d i (txt @ z)) (i + length txt) z' = overwrite d i (txt @ z')"
  by (simp add: overwrite_def)

definition then_comma :: "nat \<Rightarrow> fault + exe \<Rightarrow> fault + exe" where
  "then_comma nb r = (case r of Inl e \<Rightarrow> Inl e | Inr st1 \<Rightarrow> exe_emit nb '','' 0 st1)"

lemma then_comma_plain:
  "Suc (nb + wo + length txt) \<le> length d \<Longrightarrow>
   then_comma nb (Inr (overwrite d (nb + wo) txt, wo + length txt, ro))
     = Inr (overwrite d (nb + wo) (txt @ '',''), Suc (wo + length txt), ro)"
  using overwrite_overwrite_adjacent [of "nb + wo" "txt" "'',''" d]
  by (simp add: then_comma_def exe_emit_ok add.assoc)

lemma then_comma_decoded:
  "Suc (nb + wo + length txt) \<le> length d \<Longrightarrow>
   then_comma nb (Inr (overwrite d (nb + wo) (txt @ [NUL]), wo + length txt, ro))
     = Inr (overwrite d (nb + wo) (txt @ '',''), Suc (wo + length txt), ro)"
  using overwrite_over [of "[NUL]" "'',''" "nb + wo" "txt" d]
  by (simp add: then_comma_def exe_emit_ok add.assoc)

lemma exe_decoded_text:
  assumes "quoted_text (dec (drop (ob + ro) d)) = Some (txt, k)" "nb + wo + length txt + 1 \<le> length d"
  shows "exe_decoded ob nb dec (d, wo, ro) = Inr (overwrite d (nb + wo) (txt @ [NUL]), wo + length txt, ro + k)"
proof -
  obtain t where t: "dec (drop (ob + ro) d) = Some (t, k)" "txt = [CHR 0x27] @ t @ [CHR 0x27]"
    using assms(1) by (auto simp: quoted_text_def)
  have "exe_emit nb txt k (d, wo, ro) = Inr (overwrite d (nb + wo) txt, wo + length txt, ro + k)"
    using assms(2) by (intro exe_emit_ok) simp
  moreover have "mem_write (overwrite d (nb + wo) txt) (nb + (wo + length txt)) [NUL] = Some (overwrite d (nb + wo) (txt @ [NUL]))"
    using assms(2) overwrite_overwrite_adjacent [of "nb + wo" "txt" "[NUL]" d] by (simp add: mem_write_def add.assoc)
  ultimately show ?thesis
    unfolding exe_decoded_def t(2) using t(1) by simp
qed

lemma exe_fixed_text:
  assumes "ob + ro + k \<le> length d" "nb + wo + length (f (take k (drop (ob + ro) d))) \<le> length d"
  shows "exe_fixed ob nb k f (d, wo, ro) =
     Inr (overwrite d (nb + wo) (f (take k (drop (ob + ro) d))), wo + length (f (take k (drop (ob + ro) d))), ro + k)"
  using assms by (simp add: exe_fixed_def exe_emit_ok bslice_def)

lemma exe_param_text:
  assumes "param_text fmt t (drop (ob + ro) d) = Some (txt, k)" "nb + wo + 1 \<le> ob + ro"
    "nb + wo + length txt + 1 \<le> length d" "ob + ro \<le> length d"
  shows "then_comma nb (assembleExtendExeStmtParmVal fmt t ob nb (d, wo, ro))
     = Inr (overwrite d (nb + wo) (txt @ '',''), wo + length txt + 1, ro + k)"
proof -
  show ?thesis
  proof (cases "kind_of_param (t mod 256)")
    case PK_none
    then show ?thesis
      using assms then_comma_plain [of nb wo "[]" d ro] by (simp add: assembleExtendExeStmtParmVal_def param_text_def)
  qed (use assms in \<open>auto simp: assembleExtendExeStmtParmVal_def param_text_def Let_def exe_fixed_text
        exe_decoded_text exe_lenenc_text then_comma_plain then_comma_decoded split: if_splits\<close>)
qed

definition null_bits :: "bool \<Rightarrow> bytes \<Rightarrow> nat \<Rightarrow> nat \<Rightarrow> nat \<Rightarrow> bool list" where
  "null_bits no_nulls d ob i n = map (\<lambda>j. \<not> no_nulls \<and> is_null_param d ob j) [i..<n]"

lemma exe_room_bound: "exe_room lim n w r ps \<Longrightarrow> w \<le> n \<Longrightarrow> w + length (exe_list ps) \<le> n"
  by (induction lim n w r ps rule: exe_room.induct) (auto simp: exe_list_def)

lemma drop_overwrite_after:
  "i + length bs \<le> j \<Longrightarrow> i + length bs \<le> length d \<Longrightarrow> drop j (overwrite d i bs) = drop j d"
  by (simp add: overwrite_def)

lemma length_null_bits [simp]: "length (null_bits no_nulls d ob i n) = n - i"
  by (simp add: null_bits_def)

lemma null_bits_overwrite:
  assumes "no_nulls \<or> w + length bs \<le> ob + 9" "w + length bs \<le> length d"
  shows "null_bits no_nulls (overwrite d w bs) ob i n = null_bits no_nulls d ob i n"
  using assms by (auto simp: null_bits_def is_null_param_def)

lemma exe_null_text:
  "Suc (nb + wo + 4) \<le> length d \<Longrightarrow>
   then_comma nb (exe_emit nb ''NULL'' 0 (d, wo, ro)) = Inr (overwrite d (nb + wo) (''NULL'' @ '',''), Suc (wo + 4), ro)"
  using then_comma_plain [of nb wo "''NULL''" d ro] by (simp add: exe_emit_ok)

lemma exeLoop_step:
  "i < n \<Longrightarrow> then_comma nb (if \<not> no_nulls \<and> is_null_param d ob i then exe_emit nb ''NULL'' 0 (d, wo, ro)
               else assembleExtendExeStmtParmVal fmt (types ! i) ob nb (d, wo, ro)) = Inr st \<Longrightarrow>
   exeLoop fmt no_nulls types ob nb n i (d, wo, ro) = exeLoop fmt no_nulls types ob nb n (Suc i) st"
  by (cases "\<not> no_nulls \<and> is_null_param d ob i")
    (auto simp: exeLoop.simps [of fmt _ types ob nb n i] then_comma_def split: sum.splits)

lemma exeLoop_refines:
  assumes "exec_spec fmt (null_bits no_nulls d ob i n) (drop i types) (drop (ob + ro) d) = Some ps"
    and "n \<le> length types" "exe_room lim (length d) (nb + wo) (ob + ro) ps" "no_nulls \<or> lim \<le> ob + 9" "nb + wo \<le> length d"
  shows "exeLoop fmt no_nulls types ob nb n i (d, wo, ro) =
     Inr (overwrite d (nb + wo) (exe_list ps), wo + length (exe_list ps), ro + sum_list (map snd ps))"
  using assms
proof (induction ps arbitrary: i d wo ro)
  case Nil
  then have "n \<le> i"
    by (cases "i < n") (auto simp: null_bits_def upt_conv_Cons Cons_nth_drop_Suc [symmetric] split: option.splits if_splits)
  then show ?case
    using Nil.prems(5) by (simp add: exeLoop.simps [of fmt no_nulls types] exe_list_def)
next
  case (Cons p ps)
  note prems = Cons.prems
  obtain t k where p: "p = (t, k)" by fastforce
  have i: "i < n"
    using Cons.prems(1) by (cases "i < n") (auto simp: null_bits_def)
  let ?u = "\<not> no_nulls \<and> is_null_param d ob i"
  have sp: "(if ?u then Some (''NULL'', 0) else param_text fmt (types ! i) (drop (ob + ro) d)) = Some (t, k)"
    "exec_spec fmt (null_bits no_nulls d ob (Suc i) n) (drop (Suc i) types) (drop (ob + ro + k) d) = Some ps"
    using Cons.prems(1,2) i p
    by (auto simp: null_bits_def upt_conv_Cons Cons_nth_drop_Suc [symmetric] add.commute split: option.splits if_splits)
  have room: "nb + wo + 1 \<le> ob + ro" "nb + wo + length t + 1 \<le> ob + ro + k" "ob + ro + k \<le> length d"
    "exe_room lim (length d) (nb + (wo + length t + 1)) (ob + (ro + k)) ps"
    using Cons.prems(3) p by (simp_all add: add.assoc)
  let ?d = "overwrite d (nb + wo) (t @ '','')"
  have step: "exeLoop fmt no_nulls types ob nb n i (d, wo, ro)
      = exeLoop fmt no_nulls types ob nb n (Suc i) (?d, wo + length t + 1, ro + k)"
  proof (rule exeLoop_step [OF i], cases ?u)
    case True
    then show "then_comma nb (if ?u then exe_emit nb ''NULL'' 0 (d, wo, ro)
        else assembleExtendExeStmtParmVal fmt (types ! i) ob nb (d, wo, ro)) = Inr (?d, wo + length t + 1, ro + k)"
      using sp(1) room exe_null_text [of nb wo d ro] by auto
  next
    case False
    then have "param_text fmt (types ! i) (drop (ob + ro) d) = Some (t, k)"
      using sp(1) by (simp only: if_False)
    from exe_param_text [OF this room(1)] show "then_comma nb (if ?u then exe_emit nb ''NULL'' 0 (d, wo, ro)
        else assembleExtendExeStmtParmVal fmt (types ! i) ob nb (d, wo, ro)) = Inr (?d, wo + length t + 1, ro + k)"
      using False room by auto
  qed
  have len: "length ?d = length d" using room by simp
  have dr: "drop (ob + (ro + k)) ?d = drop (ob + ro + k) d"
    using room drop_overwrite_after [of "nb + wo" "t @ '',''" "ob + ro + k" d] by (simp add: add.assoc)
  have nb: "exec_spec fmt (null_bits no_nulls ?d ob (Suc i) n) (drop (Suc i) types) (drop (ob + (ro + k)) ?d) = Some ps"
  proof (cases ps)
    case Nil
    then have "null_bits no_nulls ?d ob (Suc i) n = []"
      using sp(2) Cons.prems(2)
      by (cases "Suc i < n") (auto simp: null_bits_def upt_conv_Cons Cons_nth_drop_Suc [symmetric] split: option.splits if_splits)
    then show ?thesis using Nil by simp
  next
    case (Cons q qs)
    then have "nb + (wo + length t + 1) \<le> lim" using room(4) by (cases q) auto
    then have "no_nulls \<or> nb + wo + length (t @ '','') \<le> ob + 9"
      using prems(4) by auto
    then show ?thesis
      using sp(2) null_bits_overwrite [of no_nulls "nb + wo" "t @ '',''" ob d "Suc i" n] dr room by simp
  qed
  have "exeLoop fmt no_nulls types ob nb n (Suc i) (?d, wo + length t + 1, ro + k) =
     Inr (overwrite ?d (nb + (wo + length t + 1)) (exe_list ps), wo + length t + 1 + length (exe_list ps),
          ro + k + sum_list (map snd ps))"
    using Cons.IH [OF nb Cons.prems(2)] room Cons.prems(4) len by simp
  moreover have "overwrite ?d (nb + (wo + length t + 1)) (exe_list ps) = overwrite d (nb + wo) (exe_list (p # ps))"
    using overwrite_overwrite_adjacent [of "nb + wo" "t @ '',''" "exe_list ps" d] exe_room_bound [OF room(4)] room
    by (simp add: p exe_list_def add.assoc)
  ultimately show ?case unfolding step by (simp add: p exe_list_def)
qed

fun comma_list :: "bytes list \<Rightarrow> bytes" where
  "comma_list [] = []"
| "comma_list [t] = t"
| "comma_list (t # ts) = t @ '','' @ comma_list ts"

lemma exe_list_comma_list: "ps \<noteq> [] \<Longrightarrow> exe_list ps = comma_list (map fst ps) @ '',''"
proof (induction ps)
  case (Cons p ps)
  then show ?case by (cases p; cases ps) (auto simp: exe_list_def)
qed simp

lemma ps_with_params_sel:
  "ps_paramNum (ps_with_params n p) = n" "ps_nullBitmapLength (ps_with_params n p) = (n + 7) div 8"
  "ps_paramTypeOffset (ps_with_params n p) = 10 + (n + 7) div 8"
  "ps_paramValueOffset1 (ps_with_params n p) = 10 + (n + 7) div 8 + n * 2"
  by (simp_all add: ps_with_params_def Let_def)

lemma exec_spec_extra: "length us \<le> length ts \<Longrightarrow> exec_spec fmt us (ts @ xs) inp = exec_spec fmt us ts inp"
proof (induction us arbitrary: ts inp)
  case (Cons u us)
  then show ?case by (cases ts) (auto split: option.splits)
qed simp

lemma exec_spec_nonempty: "exec_spec fmt us ts inp = Some ps \<Longrightarrow> us \<noteq> [] \<Longrightarrow> ts \<noteq> [] \<Longrightarrow> ps \<noteq> []"
  by (cases us; cases ts) (auto split: option.splits if_splits)

definition execute_intro :: "nat \<Rightarrow> bytes" where
  "execute_intro slot = ''execute '' @ stmt_name slot @ '' using ''"

lemma length_execute_intro: "slot < 10000 \<Longrightarrow> length (execute_intro slot) = 26"
  by (simp add: execute_intro_def length_stmt_name)

text \<open>The parameters of the packet are unchanged by writing in front of offset 129.\<close>

lemma read_param_types_overwrite:
  "i + length bs \<le> a \<Longrightarrow> i + length bs \<le> length d \<Longrightarrow> read_param_types (overwrite d i bs) a n ts = read_param_types d a n ts"
  by (simp add: read_param_types_def bslice_overwrite_after)

lemma read_param_types_app: "read_param_types d a n ts = read_param_types d a n [] @ drop n ts"
  by (simp add: read_param_types_def)

lemma length_read_param_types [simp]: "length (read_param_types d a n []) = n"
  by (simp add: read_param_types_def)

text \<open>The end of the rewriting: the last comma becomes the end of the string.\<close>

lemma execute_text:
  assumes "length intro = 26" "64 + 26 + length cl + 1 \<le> length d"
  shows "mem_write (overwrite (overwrite d 64 (intro @ [NUL])) 90 (cl @ '','')) (90 + length cl) [NUL]
       = Some (overwrite (overwrite d 64 (intro @ [NUL])) 90 (cl @ [NUL]))"
    and "bslice 64 (26 + (length cl + 1)) (overwrite (overwrite d 64 (intro @ [NUL])) 90 (cl @ [NUL])) = intro @ cl @ [NUL]"
proof -
  let ?d1 = "overwrite d 64 (intro @ [NUL])"
  have l: "length ?d1 = length d" using assms by simp
  show "mem_write (overwrite ?d1 90 (cl @ '','')) (90 + length cl) [NUL] = Some (overwrite ?d1 90 (cl @ [NUL]))"
    using overwrite_over [of "'',''" "[NUL]" 90 cl ?d1] l assms by (simp add: mem_write_def)
  have "bslice 64 26 ?d1 = intro"
    using bslice_overwrite_same [of 64 "intro @ [NUL]" d] bslice_split [of 64 26 1 ?d1] assms by simp
  then show "bslice 64 (26 + (length cl + 1)) (overwrite ?d1 90 (cl @ [NUL])) = intro @ cl @ [NUL]"
    using bslice_overwrite_before [of 64 26 90 "cl @ [NUL]" ?d1] bslice_overwrite_same [of 90 "cl @ [NUL]" ?d1] l assms
    unfolding bslice_split [of 64 26] by simp
qed

text \<open>A parameterised slot: its name and the offsets a prepare with \<open>n\<close> parameters has stored.\<close>

definition prepared_slot :: "session \<Rightarrow> nat \<Rightarrow> nat \<Rightarrow> bool" where
  "prepared_slot s slot n \<longleftrightarrow>
     (let p = preStmtInfoes s ! slot in
      ps_readWriteType p = SRWT_UNKNOWN \<and> ps_name p = stmt_name slot \<and> p = ps_with_params n p)"

section \<open>Properties\<close>


lemma free_slot_first: "\<not> ps_isValid (infos ! 1) \<Longrightarrow> free_slot infos = Some 1"
proof -
  assume "\<not> ps_isValid (infos ! 1)"
  moreover have "1 < PRE_STMT_NUM_MAX" by (simp add: PRE_STMT_NUM_MAX_def)
  ultimately show ?thesis
    unfolding free_slot_def upt_conv_Cons [OF \<open>1 < PRE_STMT_NUM_MAX\<close>] by simp
qed

lemma init_slot_1: "\<not> ps_isValid (preStmtInfoes (init_session caps n) ! 1)" "length (preStmtInfoes (init_session caps n)) = 5000"
  by (simp_all add: init_session_def initPreStmtInfoes_def init_preStmtInfo_def PRE_STMT_NUM_MAX_def)

text \<open>A session that has prepared the statement \<open>commit\<close>.\<close>

definition commit_buf :: StringInfo where
  "commit_buf = \<lparr> si_data = replicate 129 NUL @ ''commit'' @ replicate 889 NUL, si_len = 7, si_maxlen = 1024,
     si_cursor = 0, si_offset = 129 \<rparr>"

lemma prepare_commit:
  "rewriteExtendPreStmt commit_buf (init_session caps n) =
     (Inr (2, commit_buf), (init_session caps n) \<lparr> curExtendPreStmtId := 1,
        preStmtInfoes := (preStmtInfoes (init_session caps n))[1 := init_preStmtInfo
          \<lparr> ps_name := stmt_name 1, ps_readWriteType := SRWT_COMMIT, ps_isValid := True \<rparr>] \<rparr>)"
proof -
  have st: "stmt_text commit_buf = ''commit'' @ replicate 889 NUL"
    by (simp add: stmt_text_def commit_buf_def)
  have c: "strncaseeq (stmt_text commit_buf) ''commit'' 6"
    unfolding st by (rule strncaseeq_prefix) simp
  have i: "preStmtInfoes (init_session caps n) ! 1 = init_preStmtInfo"
    by (simp add: init_session_def initPreStmtInfoes_def PRE_STMT_NUM_MAX_def)
  have "cacheExtendPreStmt SRWT_COMMIT (init_session caps n) =
     ((2, 1), (init_session caps n) \<lparr> curExtendPreStmtId := 1,
        preStmtInfoes := (preStmtInfoes (init_session caps n))[1 := init_preStmtInfo
          \<lparr> ps_name := stmt_name 1, ps_readWriteType := SRWT_COMMIT, ps_isValid := True \<rparr>] \<rparr>)"
    unfolding cacheExtendPreStmt_def free_slot_first [OF init_slot_1(1)] using i by (simp add: Let_def)
  then show ?thesis
    unfolding rewriteExtendPreStmt_def if_P [OF c] rewriteExtendPreStmt_impl_def by simp
qed



definition stmt_buf :: "nat \<Rightarrow> bytes \<Rightarrow> StringInfo" where
  "stmt_buf ob txt = \<lparr> si_data = replicate ob NUL @ txt @ replicate 32 NUL, si_len = length txt + 1,
     si_maxlen = ob + length txt + 32, si_cursor = 0, si_offset = ob \<rparr>"

lemma stmt_buf_sel [simp]:
  "si_offset (stmt_buf ob txt) = ob" "si_len (stmt_buf ob txt) = Suc (length txt)"
  "length (si_data (stmt_buf ob txt)) = ob + length txt + 32"
  "bslice ob (Suc (length txt)) (si_data (stmt_buf ob txt)) = txt @ [NUL]"
  "stmt_text (stmt_buf ob txt) = txt @ replicate 32 NUL"
  by (simp_all add: stmt_buf_def bslice_def stmt_text_def)





text \<open>A session with one prepared statement of two parameters in slot 1, and a packet that executes it
  with the \<open>INT\<close> value 7 and the string \<open>a'b\<close>.\<close>

definition prepared_session :: session where
  "prepared_session = (init_session 512 (initNetTransceiver [] []))
     \<lparr> preStmtInfoes := (preStmtInfoes (init_session 512 (initNetTransceiver [] [])))
         [1 := ps_with_params 2 (init_preStmtInfo \<lparr> ps_name := stmt_name 1, ps_isValid := True \<rparr>)] \<rparr>"

definition execute_packet :: bytes where
  "execute_packet = le_enc 4 1 @ le_enc 5 0 @ le_enc 1 0 @ le_enc 1 1 @ le_enc 2 MYS_TYPE_LONG @ le_enc 2 MYS_TYPE_VAR_STRING
     @ le_enc 4 7 @ [CHR 0x03] @ ''a'' @ [CHR 0x27] @ ''b''"

definition two_params :: "(bytes \<times> nat) list" where
  "two_params = [(''7'', 4), ([CHR 0x27] @ ''a'' @ [CHR 0x27] @ ''b'' @ [CHR 0x27], 4)]"

lemma two_params_spec:
  "exec_spec (\<lambda>_. []) (null_bits True (si_data (stmt_buf 129 execute_packet)) 129 0 2)
     (read_param_types (si_data (stmt_buf 129 execute_packet)) 140 2 []) (drop 144 (si_data (stmt_buf 129 execute_packet)))
   = Some two_params"
  by code_simp

lemma two_params_room: "exe_room 184 184 90 144 two_params"
  by code_simp

lemma two_params_nulls: "list_all (\<lambda>c. c = NUL) (bslice 138 1 (si_data (stmt_buf 129 execute_packet)))"
  by code_simp

lemma two_params_head:
  "stmt_id (si_data (stmt_buf 129 execute_packet)) 129 = 1" "si_data (stmt_buf 129 execute_packet) ! 139 \<noteq> NUL"
  "length (si_data (stmt_buf 129 execute_packet)) = 184"
  by code_simp+

lemma two_params_slot: "stmt_slot (si_data (stmt_buf 129 execute_packet)) 129 prepared_session = Inr 1"
  "prepared_slot prepared_session 1 2"
  by (simp_all add: stmt_slot_def two_params_head prepared_session_def PRE_STMT_NUM_MAX_def init_session_def
      initPreStmtInfoes_def prepared_slot_def ps_with_params_def init_preStmtInfo_def)


definition null_packet :: bytes where
  "null_packet = le_enc 4 1 @ le_enc 5 0 @ le_enc 1 1 @ le_enc 1 1
     @ le_enc 2 MYS_TYPE_VAR_STRING @ le_enc 2 MYS_TYPE_VAR_STRING @ le_enc 2 MYS_TYPE_LONG
     @ [CHR 0x3C] @ replicate 60 CHR ''d'' @ le_enc 4 7"

definition d_text :: bytes where
  "d_text = [CHR 0x27] @ replicate 60 CHR ''d'' @ [CHR 0x27]"




end
