(* ===== verification/Rectify.thy ===== *)
theory Rectify
  imports AdapterState
begin

text \<open>
  \<open>rectifyCommand\<close> of \<open>src/backend/adapter/mysql/adapter.c\<close>: the scan every query and
  prepare goes through.  It works in place on the command buffer: comments become spaces, the
  contents of version comments are uncovered, and the two bit literals MySQL clients send as
  quoted control characters become \<open>b'0'\<close> and \<open>b'1'\<close>.

  Positions are indices of the whole buffer; \<open>ob\<close> is where the statement starts.  Every
  access is checked, so a read or write outside the buffer is the fault \<^const>\<open>OutOfBounds\<close>.
\<close>

section \<open>Checked accesses\<close>

definition get_byte :: "bytes \<Rightarrow> nat \<Rightarrow> (char \<Rightarrow> fault + 'a) \<Rightarrow> fault + 'a" where
  "get_byte d p f = (case mem_read d p of None \<Rightarrow> Inl OutOfBounds | Some c \<Rightarrow> f c)"

definition put_bytes :: "bytes \<Rightarrow> nat \<Rightarrow> bytes \<Rightarrow> (bytes \<Rightarrow> fault + 'a) \<Rightarrow> fault + 'a" where
  "put_bytes d p bs f = (case mem_write d p bs of None \<Rightarrow> Inl OutOfBounds | Some d' \<Rightarrow> f d')"

text \<open>A conjunction of comparisons of consecutive bytes, which stops at the first that fails.\<close>

fun match_at :: "bytes \<Rightarrow> nat \<Rightarrow> bytes \<Rightarrow> bool option" where
  "match_at d p [] = Some True"
| "match_at d p (b # bs) =
     (case mem_read d p of None \<Rightarrow> None | Some c \<Rightarrow> if c = b then match_at d (Suc p) bs else Some False)"

definition test_at :: "bytes \<Rightarrow> nat \<Rightarrow> bytes \<Rightarrow> (bool \<Rightarrow> fault + 'a) \<Rightarrow> fault + 'a" where
  "test_at d p bs f = (case match_at d p bs of None \<Rightarrow> Inl OutOfBounds | Some b \<Rightarrow> f b)"

lemma get_byte_Inr_iff: "get_byte d p f = Inr r \<longleftrightarrow> p < length d \<and> f (d ! p) = Inr r"
  by (auto simp: get_byte_def mem_read_def)

lemma put_bytes_Inr_iff:
  "put_bytes d p bs f = Inr r \<longleftrightarrow> p + length bs \<le> length d \<and> f (overwrite d p bs) = Inr r"
  by (auto simp: put_bytes_def mem_write_def)

lemma test_at_Inr_iff: "test_at d p bs f = Inr r \<longleftrightarrow> (\<exists>b. match_at d p bs = Some b \<and> f b = Inr r)"
  by (auto simp: test_at_def split: option.splits)

lemmas access_Inr = get_byte_Inr_iff put_bytes_Inr_iff test_at_Inr_iff

section \<open>The loop\<close>

text \<open>The local variables of the loop, with the buffer and \<open>inBuf->len\<close>.\<close>

record rect =
  rc_data :: bytes
  rc_len :: nat
  rc_i :: nat
  rc_commentType :: nat
  rc_commentStartIndex :: nat
  rc_leftQuotationMark :: char
  rc_quotationNum :: nat
  rc_skipUtf8Verify :: bool

datatype flow = Continue | Return bool

definition rect_count :: "char \<Rightarrow> rect \<Rightarrow> rect" where
  "rect_count c st =
     (if c = rc_leftQuotationMark st then st \<lparr> rc_quotationNum := rc_quotationNum st + 1 \<rparr>
      else if rc_leftQuotationMark st = CHR '' '' then st \<lparr> rc_leftQuotationMark := c, rc_quotationNum := 1 \<rparr>
      else if even (rc_quotationNum st) then st \<lparr> rc_leftQuotationMark := c, rc_quotationNum := 1 \<rparr>
      else st)"

definition rect_quote :: "nat \<Rightarrow> nat \<Rightarrow> char \<Rightarrow> rect \<Rightarrow> fault + flow \<times> rect" where
  "rect_quote ob maxlen c st =
     (let d = rc_data st; i = rc_i st; p = ob + i in
      get_byte d (p - 1) (\<lambda>prev.
        if prev = CHR 0x5C then Inr (Continue, st)
        else test_at d (p + 1) [CHR 0x5C, CHR ''0'', c] (\<lambda>zero.
          if zero then put_bytes d p [CHR ''b'', CHR 0x27, CHR ''0'', CHR 0x27] (\<lambda>d'.
            Inr (Continue, st \<lparr> rc_data := d', rc_i := i + 3 \<rparr>))
          else test_at d (p + 1) [CHR 0x01, c] (\<lambda>one.
            if one then
              (if prev = CHR '' '' then put_bytes d (p - 1) [CHR ''b'', CHR 0x27, CHR ''1'', CHR 0x27] (\<lambda>d'.
                 Inr (Continue, st \<lparr> rc_data := d', rc_i := i + 2 \<rparr>))
               else if 1 < int maxlen - int (ob + rc_len st) then
                 (if length d \<le> ob + rc_len st then Inl OutOfBounds
                  else put_bytes d (p + 1) (bslice p (rc_len st - i + 1) d) (\<lambda>d1.
                    put_bytes d1 p [CHR ''b'', CHR 0x27, CHR ''1'', CHR 0x27] (\<lambda>d2.
                      Inr (Continue, st \<lparr> rc_data := d2, rc_len := rc_len st + 1, rc_i := i + 3 \<rparr>))))
               else Inr (Return False, st))
            else Inr (Continue, rect_count c st)))))"

text \<open>The two inner loops of a version comment, from position \<open>p\<close> up to the end mark at \<open>q\<close>:
  over the spaces in front of the version, and over the version.\<close>

function rect_spaces :: "bytes \<Rightarrow> nat \<Rightarrow> nat \<Rightarrow> fault + nat option" where
  "rect_spaces d p q =
     (case mem_read d p of
        None \<Rightarrow> Inl OutOfBounds
      | Some c \<Rightarrow> if c \<noteq> CHR '' '' then Inr (Some p) else if q \<le> p + 1 then Inr None else rect_spaces d (p + 1) q)"
  by pat_completeness auto
termination by (relation "measure (\<lambda>(_, p, q). q - p)") auto

function rect_version :: "bytes \<Rightarrow> nat \<Rightarrow> nat \<Rightarrow> fault + nat option" where
  "rect_version d p q =
     (case mem_read d p of
        None \<Rightarrow> Inl OutOfBounds
      | Some c \<Rightarrow>
          if c = CHR '','' then Inr (Some p)
          else if c = CHR '' '' \<or> c = CHR 0x0A \<or> c = CHR 0x09 then Inr (Some (p + 1))
          else if q \<le> p + 1 then Inr None else rect_version d (p + 1) q)"
  by pat_completeness auto
termination by (relation "measure (\<lambda>(_, p, q). q - p)") auto

declare rect_spaces.simps [simp del] rect_version.simps [simp del]

definition blank :: "bytes \<Rightarrow> nat \<Rightarrow> nat \<Rightarrow> (bytes \<Rightarrow> fault + 'a) \<Rightarrow> fault + 'a" where
  "blank d p n f = put_bytes d p (replicate n CHR '' '') f"

text \<open>Uncovering the contents of a version comment that starts at \<open>p\<close>, has its version at \<open>v\<close> and
  its end mark at \<open>q\<close>.\<close>

definition rect_uncover :: "nat \<Rightarrow> nat \<Rightarrow> nat \<Rightarrow> rect \<Rightarrow> fault + flow \<times> rect" where
  "rect_uncover p v q st =
     (case rect_version (rc_data st) (v + 1) q of
        Inl e \<Rightarrow> Inl e
      | Inr None \<Rightarrow> Inr (Return False, st)
      | Inr (Some e) \<Rightarrow>
          blank (rc_data st) p (e - p) (\<lambda>d1. blank d1 q 2 (\<lambda>d2.
            Inr (Continue, st \<lparr> rc_data := d2 \<rparr>))))"

definition version_is_8 :: "bytes \<Rightarrow> bool" where
  "version_is_8 ver = (take 1 (dropWhile (\<lambda>x. x = CHR '' '') ver) = ''8'')"

definition rect_bang :: "bytes \<Rightarrow> nat \<Rightarrow> nat \<Rightarrow> nat \<Rightarrow> rect \<Rightarrow> fault + flow \<times> rect" where
  "rect_bang ver p q sp st =
     (let d = rc_data st in
      get_byte d sp (\<lambda>c.
        if c = CHR ''5'' \<or> c = CHR ''4'' then rect_uncover p sp q st
        else if c = CHR ''8'' then
          (if version_is_8 ver then rect_uncover p sp q st
           else blank d p (q + 2 - p) (\<lambda>d1. Inr (Continue, st \<lparr> rc_data := d1 \<rparr>)))
        else if 0 < rc_commentStartIndex st then
          blank d p 3 (\<lambda>d1. blank d1 q 2 (\<lambda>d2. Inr (Continue, st \<lparr> rc_data := d2 \<rparr>)))
        else Inl (PgError ''You have an error in your SQL syntax'')))"

definition rect_close :: "bytes \<Rightarrow> nat \<Rightarrow> rect \<Rightarrow> fault + flow \<times> rect" where
  "rect_close ver ob st0 =
     (let st = st0 \<lparr> rc_commentType := 0 \<rparr>; d = rc_data st; p = ob + rc_commentStartIndex st; q = ob + rc_i st in
      get_byte d (p + 2) (\<lambda>c2.
        if c2 = CHR ''!'' then
          (case rect_spaces d (p + 3) q of
             Inl e \<Rightarrow> Inl e
           | Inr None \<Rightarrow> Inr (Return False, st)
           | Inr (Some sp) \<Rightarrow> rect_bang ver p q sp st)
        else blank d p (q + 2 - p) (\<lambda>d1. Inr (Continue, st \<lparr> rc_data := d1 \<rparr>))))"

definition rect_open :: "nat \<Rightarrow> rect \<Rightarrow> rect" where
  "rect_open t st =
     (if even (rc_quotationNum st)
      then st \<lparr> rc_commentType := t, rc_commentStartIndex := rc_i st, rc_i := rc_i st + 1 \<rparr>
      else st \<lparr> rc_i := rc_i st + 1 \<rparr>)"

text \<open>One iteration without the increment of the \<open>for\<close> statement.\<close>

definition rect_step :: "bytes \<Rightarrow> nat \<Rightarrow> nat \<Rightarrow> rect \<Rightarrow> fault + flow \<times> rect" where
  "rect_step ver ob maxlen st =
     (let d = rc_data st; p = ob + rc_i st in
      get_byte d p (\<lambda>c.
        if rc_commentType st = 0 then
          (if c = CHR 0x27 \<or> c = CHR 0x22 then rect_quote ob maxlen c st
           else if strncaseeq (drop p d) ''_binary'' 7 then
             (if even (rc_quotationNum st) then Inr (Return True, st \<lparr> rc_skipUtf8Verify := True \<rparr>)
              else Inr (Continue, st \<lparr> rc_i := rc_i st + 6 \<rparr>))
           else test_at d p ''/*'' (\<lambda>c1.
             if c1 then Inr (Continue, rect_open 1 st)
             else test_at d p ''--'' (\<lambda>c2.
               if c2 then Inr (Continue, rect_open 2 st) else Inr (Continue, st))))
        else if rc_commentType st = 1 then
          test_at d p ''*/'' (\<lambda>e.
            if e then
              (if even (rc_quotationNum st) then
                 (case rect_close ver ob st of
                    Inr (Continue, st1) \<Rightarrow> Inr (Continue, st1 \<lparr> rc_i := rc_i st1 + 1 \<rparr>)
                  | r \<Rightarrow> r)
               else Inr (Continue, st \<lparr> rc_i := rc_i st + 1 \<rparr>))
            else Inr (Continue, st))
        else Inr (Continue, st)))"

text \<open>Every iteration makes progress, also where the statement grows.\<close>

lemma rect_count_keeps [simp]:
  "rc_data (rect_count c st) = rc_data st" "rc_len (rect_count c st) = rc_len st" "rc_i (rect_count c st) = rc_i st"
  "rc_commentType (rect_count c st) = rc_commentType st" "rc_commentStartIndex (rect_count c st) = rc_commentStartIndex st"
  by (simp_all add: rect_count_def)

lemma rect_quote_progress:
  "rect_quote ob maxlen c st = Inr (Continue, st') \<Longrightarrow> rc_len st' + rc_i st \<le> rc_len st + rc_i st'"
  by (auto simp: rect_quote_def Let_def access_Inr split: if_splits)

lemma rect_uncover_keeps:
  "rect_uncover p v q st = Inr (fl, st') \<Longrightarrow> rc_len st' = rc_len st \<and> rc_i st' = rc_i st"
  by (auto simp: rect_uncover_def blank_def access_Inr split: sum.splits option.splits)

lemma rect_bang_keeps:
  "rect_bang ver p q sp st = Inr (fl, st') \<Longrightarrow> rc_len st' = rc_len st \<and> rc_i st' = rc_i st"
  by (auto simp: rect_bang_def Let_def blank_def access_Inr dest!: rect_uncover_keeps split: if_splits)

lemma rect_close_keeps:
  "rect_close ver ob st = Inr (fl, st') \<Longrightarrow> rc_len st' = rc_len st \<and> rc_i st' = rc_i st"
  by (auto simp: rect_close_def Let_def blank_def access_Inr dest!: rect_bang_keeps
      split: sum.splits option.splits if_splits)

lemma rect_open_progress: "rc_len (rect_open t st) = rc_len st" "rc_i (rect_open t st) = rc_i st + 1"
  by (simp_all add: rect_open_def)

lemma rect_step_progress:
  "rect_step ver ob maxlen st = Inr (Continue, st') \<Longrightarrow> rc_len st' + rc_i st \<le> rc_len st + rc_i st'"
  by (auto simp: rect_step_def Let_def access_Inr rect_open_progress
      dest!: rect_quote_progress rect_close_keeps split: if_splits sum.splits flow.splits)

function rectLoop :: "bytes \<Rightarrow> nat \<Rightarrow> nat \<Rightarrow> rect \<Rightarrow> fault + bool \<times> rect" where
  "rectLoop ver ob maxlen st =
     (if rc_len st \<le> rc_i st then Inr (True, st)
      else
        (case rect_step ver ob maxlen st of
           Inl e \<Rightarrow> Inl e
         | Inr (Return b, st1) \<Rightarrow> Inr (b, st1)
         | Inr (Continue, st1) \<Rightarrow> rectLoop ver ob maxlen (st1 \<lparr> rc_i := rc_i st1 + 1 \<rparr>)))"
  by pat_completeness auto
termination
  by (relation "measure (\<lambda>(_, _, _, st). rc_len st - rc_i st)") (auto dest!: rect_step_progress)

declare rectLoop.simps [simp del]

definition rectifyCommand :: "bytes \<Rightarrow> StringInfo \<Rightarrow> session \<Rightarrow> (bool \<times> StringInfo) sio" where
  "rectifyCommand halo_mysql_version inBuf s =
     (case rectLoop halo_mysql_version (si_offset inBuf) (si_maxlen inBuf)
             \<lparr> rc_data = si_data inBuf, rc_len = si_len inBuf, rc_i = 0, rc_commentType = 0,
               rc_commentStartIndex = 0, rc_leftQuotationMark = CHR '' '', rc_quotationNum = 0,
               rc_skipUtf8Verify = skipUtf8Verify s \<rparr> of
        Inl e \<Rightarrow> (Inl e, s)
      | Inr (ok, st) \<Rightarrow>
          (Inr (ok, inBuf \<lparr> si_data := rc_data st, si_len := rc_len st \<rparr>),
           s \<lparr> skipUtf8Verify := rc_skipUtf8Verify st \<rparr>))"

section \<open>Safety\<close>

text \<open>A computation stays inside the buffer and every result satisfies \<open>P\<close>.\<close>

named_theorems safe_rules \<open>staying inside the buffer\<close>

definition safe :: "fault + 'a \<Rightarrow> ('a \<Rightarrow> bool) \<Rightarrow> bool" where
  "safe r P \<longleftrightarrow> (case r of Inl e \<Rightarrow> e \<noteq> OutOfBounds | Inr x \<Rightarrow> P x)"

lemma safe_Inr [simp]: "safe (Inr x) P \<longleftrightarrow> P x"
  and safe_Inl [simp]: "safe (Inl e) P \<longleftrightarrow> e \<noteq> OutOfBounds"
  by (simp_all add: safe_def)

lemma safe_get [safe_rules]: "p < length d \<Longrightarrow> safe (f (d ! p)) P \<Longrightarrow> safe (get_byte d p f) P"
  by (simp add: get_byte_def mem_read_def)

lemma safe_put [safe_rules]:
  "p + length bs \<le> length d \<Longrightarrow> safe (f (overwrite d p bs)) P \<Longrightarrow> safe (put_bytes d p bs f) P"
  by (simp add: put_bytes_def mem_write_def)

lemma safe_blank [safe_rules]:
  "p + n \<le> length d \<Longrightarrow> safe (f (overwrite d p (replicate n CHR '' ''))) P \<Longrightarrow> safe (blank d p n f) P"
  by (simp add: blank_def safe_put)

text \<open>Comparing consecutive bytes cannot pass a terminator.\<close>

lemma match_at_terminated:
  "p \<le> z \<Longrightarrow> z < length d \<Longrightarrow> d ! z = NUL \<Longrightarrow> NUL \<notin> set bs \<Longrightarrow>
   \<exists>b. match_at d p bs = Some b \<and> (b \<longrightarrow> p + length bs \<le> z \<and> bslice p (length bs) d = bs)"
proof (induction bs arbitrary: p)
  case (Cons b bs)
  show ?case
  proof (cases "d ! p = b")
    case True
    then have "p < z" using Cons.prems by (cases "p = z") auto
    with Cons.IH [of "Suc p"] Cons.prems True show ?thesis by (auto simp: mem_read_def bslice_Cons)
  qed (use Cons.prems in \<open>auto simp: mem_read_def\<close>)
qed (auto simp: bslice_def)

lemma safe_test:
  assumes "p \<le> z" "z < length d" "d ! z = NUL" "NUL \<notin> set bs"
    and "\<And>b. (b \<Longrightarrow> p + length bs \<le> z \<and> bslice p (length bs) d = bs) \<Longrightarrow> safe (f b) P"
  shows "safe (test_at d p bs f) P"
proof -
  obtain b where b: "match_at d p bs = Some b" "b \<longrightarrow> p + length bs \<le> z \<and> bslice p (length bs) d = bs"
    using match_at_terminated [OF assms(1-4)] by blast
  then show ?thesis using assms(5) [of b] by (simp add: test_at_def)
qed

definition rect_buf :: "nat \<Rightarrow> nat \<Rightarrow> rect \<Rightarrow> bool" where
  "rect_buf ob maxlen st \<longleftrightarrow>
     0 < ob \<and> length (rc_data st) = maxlen \<and> 0 < rc_len st \<and> ob + rc_len st \<le> maxlen
     \<and> rc_data st ! (ob + rc_len st - 1) = NUL"

definition rect_inv :: "nat \<Rightarrow> nat \<Rightarrow> rect \<Rightarrow> bool" where
  "rect_inv ob maxlen st \<longleftrightarrow>
     rect_buf ob maxlen st \<and> (rc_commentType st = 1 \<longrightarrow> rc_commentStartIndex st + 2 \<le> rc_i st)"

lemmas rect_inv_defs = rect_inv_def rect_buf_def

lemma rect_inv_buf: "rect_inv ob maxlen st \<Longrightarrow> rect_buf ob maxlen st"
  by (simp add: rect_inv_def)

definition rect_next :: "nat \<Rightarrow> nat \<Rightarrow> flow \<times> rect \<Rightarrow> bool" where
  "rect_next ob maxlen = (\<lambda>(fl, st).
     if fl = Continue then rect_inv ob maxlen (st \<lparr> rc_i := rc_i st + 1 \<rparr>) else rect_buf ob maxlen st)"

lemma rect_next_simps [simp]:
  "rect_next ob maxlen (Return b, st) = rect_buf ob maxlen st"
  "rect_next ob maxlen (Continue, st) = rect_inv ob maxlen (st \<lparr> rc_i := rc_i st + 1 \<rparr>)"
  by (simp_all add: rect_next_def)

lemma rect_inv_data:
  assumes "rect_inv ob maxlen st" "p + length bs < ob + rc_len st"
  shows "rect_inv ob maxlen (st \<lparr> rc_data := overwrite (rc_data st) p bs \<rparr>)"
proof -
  have "overwrite (rc_data st) p bs ! (ob + rc_len st - 1) = rc_data st ! (ob + rc_len st - 1)"
    using assms by (intro overwrite_nth_other) (auto simp: rect_inv_defs)
  then show ?thesis using assms by (auto simp: rect_inv_defs)
qed

lemma rect_inv_i: "rect_inv ob maxlen st \<Longrightarrow> rc_i st \<le> j \<Longrightarrow> rect_inv ob maxlen (st \<lparr> rc_i := j \<rparr>)"
  by (auto simp: rect_inv_defs)

lemma rect_inv_write:
  "rect_inv ob maxlen st \<Longrightarrow> p + length bs < ob + rc_len st \<Longrightarrow> rc_i st \<le> j \<Longrightarrow>
   rect_inv ob maxlen (st \<lparr> rc_data := overwrite (rc_data st) p bs, rc_i := j \<rparr>)"
  using rect_inv_i [OF rect_inv_data] by simp

lemma rect_quote_safe:
  assumes inv: "rect_inv ob maxlen st" and c: "rc_data st ! (ob + rc_i st) = c" "c \<noteq> NUL" and i: "rc_i st < rc_len st"
  shows "safe (rect_quote ob maxlen c st) (rect_next ob maxlen)"
proof -
  let ?d = "rc_data st" and ?p = "ob + rc_i st" and ?z = "ob + rc_len st - 1"
  have z: "?p < ?z" "?z < length ?d" "?d ! ?z = NUL" "length ?d = maxlen" "0 < ob"
  proof -
    have "?p \<noteq> ?z" using c inv by (auto simp: rect_inv_defs)
    then show "?p < ?z" using i by linarith
  qed (use inv in \<open>auto simp: rect_inv_defs\<close>)
  have cont: "rect_inv ob maxlen (st \<lparr> rc_i := rc_i st + 1 \<rparr>)" "rect_inv ob maxlen ((rect_count c st) \<lparr> rc_i := rc_i st + 1 \<rparr>)"
    using inv by (auto simp: rect_inv_defs)
  have ins: "rect_inv ob maxlen (st \<lparr> rc_data := overwrite (overwrite ?d (?p + 1) (bslice ?p (rc_len st - rc_i st + 1) ?d)) ?p bs,
      rc_len := rc_len st + 1, rc_i := rc_i st + 3 + 1 \<rparr>)"
    if "1 < int maxlen - int (ob + rc_len st)" "length bs = 4" "?p + 3 \<le> ?z" for bs
  proof -
    have len: "length (bslice ?p (rc_len st - rc_i st + 1) ?d) = rc_len st - rc_i st + 1"
      using that z i by (intro length_bslice) linarith
    have k: "rc_len st - Suc (rc_i st) < Suc (rc_len st - rc_i st)" by linarith
    let ?d1 = "overwrite ?d (?p + 1) (bslice ?p (rc_len st - rc_i st + 1) ?d)"
    have "?d1 ! (ob + rc_len st) = ?d ! ?z"
      using that z i len k by (simp add: overwrite_def nth_append bslice_def)
    moreover have "overwrite ?d1 ?p bs ! (ob + rc_len st) = ?d1 ! (ob + rc_len st)"
      using that z i len by (intro overwrite_nth_other) auto
    ultimately show ?thesis
      using inv that z i len by (auto simp: rect_inv_defs)
  qed
  show ?thesis
    unfolding rect_quote_def Let_def
    apply (intro safe_get)
    subgoal using z by linarith
    apply (split if_split, intro conjI impI)
    subgoal using cont by simp
    apply (rule safe_test [where z = ?z])
    subgoal using z by linarith
    subgoal by (rule z)
    subgoal by (rule z)
    subgoal using c by simp
    apply (split if_split, intro conjI impI)
    subgoal using z rect_inv_write [OF inv, of ?p "[CHR ''b'', CHR 0x27, CHR ''0'', CHR 0x27]" "4 + rc_i st"]
      by (intro safe_put) auto
    apply (rule safe_test [where z = ?z])
    subgoal using z by linarith
    subgoal by (rule z)
    subgoal by (rule z)
    subgoal using c by simp
    apply (split if_split, intro conjI impI)
    apply (split if_split, intro conjI impI)
    subgoal using z rect_inv_write [OF inv, of "?p - 1" "[CHR ''b'', CHR 0x27, CHR ''1'', CHR 0x27]" "rc_i st + 2 + 1"]
      by (intro safe_put) auto
    apply (split if_split, intro conjI impI)
    apply (split if_split, intro conjI impI)
    subgoal using z i by simp
    subgoal premises prems for zero one
    proof -
      have p3: "?p + 3 \<le> ?z" using prems by simp
      have len: "length (bslice ?p (rc_len st - rc_i st + 1) ?d) = rc_len st - rc_i st + 1"
        using prems z i by (intro length_bslice) linarith
      show ?thesis
        using ins [OF _ _ p3] prems z i len by (intro safe_put) simp_all
    qed
    subgoal using rect_inv_buf [OF inv] by simp
    subgoal using cont by simp
    done
qed

lemma rect_spaces_safe:
  assumes "p \<le> q" "q < length d" "d ! q \<noteq> CHR '' ''"
  shows "safe (rect_spaces d p q) (\<lambda>r. \<forall>e. r = Some e \<longrightarrow> p \<le> e \<and> e \<le> q)"
  using assms
proof (induction "q - p" arbitrary: p)
  case 0
  then show ?case by (simp add: rect_spaces.simps [of d p p] mem_read_def)
next
  case (Suc n)
  then have "safe (rect_spaces d (p + 1) q) (\<lambda>r. \<forall>e. r = Some e \<longrightarrow> p + 1 \<le> e \<and> e \<le> q)"
    by (intro Suc.hyps) auto
  with Suc.prems Suc.hyps(2) show ?case
    by (auto simp: rect_spaces.simps [of d p q] mem_read_def safe_def split: sum.splits)
qed

lemma rect_version_safe:
  assumes "p \<le> q" "q < length d" "d ! q = CHR ''*''"
  shows "safe (rect_version d p q) (\<lambda>r. \<forall>e. r = Some e \<longrightarrow> p \<le> e \<and> e \<le> q)"
  using assms
proof (induction "q - p" arbitrary: p)
  case 0
  then show ?case by (simp add: rect_version.simps [of d p p] mem_read_def)
next
  case (Suc n)
  then have "safe (rect_version d (p + 1) q) (\<lambda>r. \<forall>e. r = Some e \<longrightarrow> p + 1 \<le> e \<and> e \<le> q)"
    by (intro Suc.hyps) auto
  with Suc.prems Suc.hyps(2) show ?case
    by (auto simp: rect_version.simps [of d p q] mem_read_def safe_def split: sum.splits)
qed

text \<open>The end of a comment: what is left after blanking inside the comment satisfies the invariant.\<close>

definition rect_closed :: "nat \<Rightarrow> nat \<Rightarrow> flow \<times> rect \<Rightarrow> bool" where
  "rect_closed ob maxlen = (\<lambda>(fl, st). rect_next ob maxlen (fl, st \<lparr> rc_i := rc_i st + 1 \<rparr>))"

lemma rect_closed_simps [simp]:
  "rect_closed ob maxlen (Return b, st) = rect_buf ob maxlen st"
  "rect_closed ob maxlen (Continue, st) = rect_inv ob maxlen (st \<lparr> rc_i := rc_i st + 2 \<rparr>)"
  by (simp_all add: rect_closed_def rect_buf_def)

lemma rect_blank1_safe:
  assumes inv: "rect_inv ob maxlen st" and n: "p + n < ob + rc_len st"
  shows "safe (blank (rc_data st) p n (\<lambda>d1. Inr (Continue, st \<lparr> rc_data := d1 \<rparr>))) (rect_closed ob maxlen)"
proof -
  have "p + n \<le> length (rc_data st)" using inv n by (auto simp: rect_inv_defs)
  then show ?thesis
    using rect_inv_write [OF inv, of p "replicate n CHR '' ''" "rc_i st + 2"] n by (simp add: safe_blank)
qed

lemma rect_blank2_safe:
  assumes inv: "rect_inv ob maxlen st" and n: "p + n < ob + rc_len st" "q + m < ob + rc_len st"
  shows "safe (blank (rc_data st) p n (\<lambda>d1. blank d1 q m (\<lambda>d2. Inr (Continue, st \<lparr> rc_data := d2 \<rparr>)))) (rect_closed ob maxlen)"
proof -
  let ?st1 = "st \<lparr> rc_data := overwrite (rc_data st) p (replicate n CHR '' '') \<rparr>"
  have l: "p + n \<le> length (rc_data st)" using inv n by (auto simp: rect_inv_defs)
  have "rect_inv ob maxlen ?st1"
    using rect_inv_data [OF inv, of p "replicate n CHR '' ''"] n by simp
  from rect_blank1_safe [OF this, of q m] n show ?thesis by (intro safe_blank [OF l]) simp
qed

lemma rect_uncover_safe:
  assumes inv: "rect_inv ob maxlen st" and c: "rc_data st ! q = CHR ''*''" and q: "q + 2 < ob + rc_len st"
    and p: "p \<le> v" "v < q"
  shows "safe (rect_uncover p v q st) (rect_closed ob maxlen)"
proof -
  have "safe (rect_version (rc_data st) (v + 1) q) (\<lambda>r. \<forall>e. r = Some e \<longrightarrow> v + 1 \<le> e \<and> e \<le> q)"
    using inv q p c by (intro rect_version_safe) (auto simp: rect_inv_defs)
  then show ?thesis
    using q p rect_blank2_safe [OF inv _ q] rect_inv_buf [OF inv]
    by (auto simp: rect_uncover_def safe_def [of "rect_version _ _ _"] split: sum.splits option.splits)
qed

lemma rect_bang_safe:
  assumes inv: "rect_inv ob maxlen st" and c: "rc_data st ! q = CHR ''*''" and q: "q + 2 < ob + rc_len st"
    and sp: "p + 3 \<le> sp" "sp \<le> q"
  shows "safe (rect_bang ver p q sp st) (rect_closed ob maxlen)"
proof -
  have d: "q < length (rc_data st)" using inv q by (auto simp: rect_inv_defs)
  show ?thesis
    using sp q d c rect_uncover_safe [OF inv c q, of p sp] rect_blank1_safe [OF inv, of p "q + 2 - p"]
      rect_blank2_safe [OF inv, of p 3 q 2]
    unfolding rect_bang_def Let_def by (intro safe_get) (cases "sp = q"; auto)+
qed

lemma rect_close_safe:
  assumes inv: "rect_inv ob maxlen st" and t: "rc_commentType st = 1" and q: "q = ob + rc_i st" "q + 2 < ob + rc_len st"
    and c: "rc_data st ! q = CHR ''*''"
  shows "safe (rect_close ver ob st) (rect_closed ob maxlen)"
proof -
  let ?st = "st \<lparr> rc_commentType := 0 \<rparr>" and ?p = "ob + rc_commentStartIndex st"
  have inv': "rect_inv ob maxlen ?st" and pq: "?p + 2 \<le> q" and d: "length (rc_data st) = maxlen" "ob + rc_len st \<le> maxlen"
    using inv t q by (auto simp: rect_inv_defs)
  have "safe (rect_spaces (rc_data st) (?p + 3) q) (\<lambda>r. \<forall>e. r = Some e \<longrightarrow> ?p + 3 \<le> e \<and> e \<le> q)"
    if "rc_data st ! (?p + 2) = CHR ''!''"
  proof (rule rect_spaces_safe)
    show "?p + 3 \<le> q" using pq that c by (cases "?p + 2 = q") auto
  qed (use q d c in auto)
  moreover have "safe (rect_bang ver ?p q sp ?st) (rect_closed ob maxlen)" if "?p + 3 \<le> sp" "sp \<le> q" for sp
    using rect_bang_safe [OF inv' _ _ that] q c by simp
  ultimately show ?thesis
    unfolding rect_close_def Let_def
    using pq q d rect_blank1_safe [OF inv', of ?p "q + 2 - ?p"] rect_inv_buf [OF inv']
    by (intro safe_get) (auto simp: safe_def [of "rect_spaces _ _ _"] split: sum.splits option.splits)
qed

lemma rect_step_safe:
  assumes inv: "rect_inv ob maxlen st" and i: "rc_i st < rc_len st"
  shows "safe (rect_step ver ob maxlen st) (rect_next ob maxlen)"
proof -
  let ?d = "rc_data st" and ?p = "ob + rc_i st" and ?z = "ob + rc_len st - 1"
  have z: "?p \<le> ?z" "?z < length ?d" "?d ! ?z = NUL" "?p < length ?d"
    using inv i by (auto simp: rect_inv_defs)
  note test = safe_test [OF z(1-3)]
  have keep: "rect_inv ob maxlen (st \<lparr> rc_i := rc_i st + 1 + k \<rparr>)" for k
    using rect_inv_i [OF inv] by simp
  have opened: "rect_inv ob maxlen ((rect_open t st) \<lparr> rc_i := rc_i st + 2 \<rparr>)" for t
    using inv by (auto simp: rect_open_def rect_inv_defs)
  have outside: "safe (test_at ?d ?p ''/*'' (\<lambda>c1. if c1 then Inr (Continue, rect_open 1 st)
             else test_at ?d ?p ''--'' (\<lambda>c2. if c2 then Inr (Continue, rect_open 2 st) else Inr (Continue, st))))
       (rect_next ob maxlen)"
    using keep [of 0] opened by (intro test) (auto simp: rect_open_progress intro!: test)
  have close: "safe (test_at ?d ?p ''*/'' (\<lambda>e.
            if e then
              (if even (rc_quotationNum st) then
                 (case rect_close ver ob st of
                    Inr (Continue, st1) \<Rightarrow> Inr (Continue, st1 \<lparr> rc_i := rc_i st1 + 1 \<rparr>)
                  | r \<Rightarrow> r)
               else Inr (Continue, st \<lparr> rc_i := rc_i st + 1 \<rparr>))
            else Inr (Continue, st))) (rect_next ob maxlen)" if t: "rc_commentType st = 1"
  proof (rule test)
    fix e assume e: "e \<Longrightarrow> ?p + length ''*/'' \<le> ?z \<and> bslice ?p (length ''*/'') ?d = ''*/''"
    have "safe (rect_close ver ob st) (rect_closed ob maxlen)" if e
      using e [OF that] z(4) inv by (intro rect_close_safe [OF inv t refl]) (auto simp: bslice_Cons)
    then show "safe (if e then
              (if even (rc_quotationNum st) then
                 (case rect_close ver ob st of
                    Inr (Continue, st1) \<Rightarrow> Inr (Continue, st1 \<lparr> rc_i := rc_i st1 + 1 \<rparr>)
                  | r \<Rightarrow> r)
               else Inr (Continue, st \<lparr> rc_i := rc_i st + 1 \<rparr>))
            else Inr (Continue, st)) (rect_next ob maxlen)"
      using keep [of 0] keep [of 1] by (auto simp: safe_def split: sum.splits flow.splits prod.splits)
  qed simp
  show ?thesis
    unfolding rect_step_def Let_def
    using z(4) rect_quote_safe [OF inv refl _ i] outside close keep [of 0] keep [of 6] rect_inv_buf [OF inv]
    by (intro safe_get) (auto simp: rect_buf_def)
qed

lemma rectLoop_safe: "rect_inv ob maxlen st \<Longrightarrow> safe (rectLoop ver ob maxlen st) (\<lambda>(_, st'). rect_buf ob maxlen st')"
proof (induction ver ob maxlen st rule: rectLoop.induct)
  case (1 ver ob maxlen st)
  show ?case
  proof (cases "rc_len st \<le> rc_i st")
    case True
    then show ?thesis using 1(2) by (simp add: rectLoop.simps [of ver ob maxlen st] rect_inv_defs)
  next
    case False
    then have "safe (rect_step ver ob maxlen st) (rect_next ob maxlen)"
      using 1(2) by (intro rect_step_safe) auto
    then show ?thesis
      using False 1(1) unfolding rectLoop.simps [of ver ob maxlen st]
      by (auto simp: safe_def [of "rect_step _ _ _ _"] split: sum.splits flow.splits)
  qed
qed

section \<open>Comments become spaces\<close>

text \<open>A character that starts neither a literal nor a comment nor \<open>_binary\<close>.\<close>

definition ordinary :: "char \<Rightarrow> bool" where
  "ordinary c \<longleftrightarrow> c \<notin> {CHR 0x27, CHR 0x22, CHR ''_'', CHR ''/'', CHR ''-''}"

lemma c_tolower_underscore: "c_tolower c = CHR ''_'' \<longleftrightarrow> c = CHR ''_''"
proof -
  have "(of_char (char_of ((of_char c :: nat) + 32) :: char) :: nat) = of_char c + 32"
    if "CHR ''A'' \<le> c" "c \<le> CHR ''Z''"
    using that by (simp add: less_eq_char_def of_char_of)
  moreover have "(of_char (CHR ''_'') :: nat) = 95" by simp
  ultimately have "char_of ((of_char c :: nat) + 32) \<noteq> CHR ''_''" if "CHR ''A'' \<le> c" "c \<le> CHR ''Z''"
    using that by (force simp: less_eq_char_def)
  then show ?thesis by (auto simp: c_tolower_def)
qed

lemma not_binary: "c \<noteq> CHR ''_'' \<Longrightarrow> \<not> strncaseeq (c # r) ''_binary'' 7"
  using c_tolower_underscore [of c] by (simp add: numeral_eq_Suc) (simp add: c_tolower_def)

lemma rectLoop_continue:
  "rc_i st < rc_len st \<Longrightarrow> rect_step ver ob maxlen st = Inr (Continue, st1) \<Longrightarrow>
   rectLoop ver ob maxlen st = rectLoop ver ob maxlen (st1 \<lparr> rc_i := rc_i st1 + 1 \<rparr>)"
  by (simp add: rectLoop.simps [of ver ob maxlen st])

lemma rect_step_ordinary:
  assumes "rc_data st = X @ c # Y" "length X = ob + rc_i st" "ordinary c" "rc_commentType st = 0"
  shows "rect_step ver ob maxlen st = Inr (Continue, st)"
  using assms not_binary [of c Y]
  by (simp add: rect_step_def Let_def get_byte_def test_at_def mem_read_def ordinary_def nth_append)

lemma rectLoop_ordinary:
  assumes "rc_data st = X @ pre @ Y" "length X = ob + rc_i st" "list_all ordinary pre" "rc_commentType st = 0"
    "rc_i st + length pre \<le> rc_len st"
  shows "rectLoop ver ob maxlen st = rectLoop ver ob maxlen (st \<lparr> rc_i := rc_i st + length pre \<rparr>)"
  using assms
proof (induction pre arbitrary: X st)
  case (Cons c pre)
  have "rectLoop ver ob maxlen st = rectLoop ver ob maxlen (st \<lparr> rc_i := rc_i st + 1 \<rparr>)"
    using Cons.prems rect_step_ordinary [of st X c "pre @ Y" ob] by (intro rectLoop_continue) auto
  moreover have "rectLoop ver ob maxlen (st \<lparr> rc_i := rc_i st + 1 \<rparr>)
      = rectLoop ver ob maxlen (st \<lparr> rc_i := rc_i st + 1, rc_i := rc_i st + 1 + length pre \<rparr>)"
    using Cons.prems Cons.IH [of "st \<lparr> rc_i := rc_i st + 1 \<rparr>" "X @ [c]"] by simp
  ultimately show ?case by simp
qed simp

lemma rectLoop_comment_body:
  assumes "rc_data st = X @ body @ Y" "length X = ob + rc_i st" "CHR ''*'' \<notin> set body" "rc_commentType st = 1"
    "rc_i st + length body \<le> rc_len st"
  shows "rectLoop ver ob maxlen st = rectLoop ver ob maxlen (st \<lparr> rc_i := rc_i st + length body \<rparr>)"
  using assms
proof (induction body arbitrary: X st)
  case (Cons c body)
  have ne: "c \<noteq> CHR ''*''" using Cons.prems(3) by auto
  have "rect_step ver ob maxlen st = Inr (Continue, st)"
    using Cons.prems(1,2,4) ne by (simp add: rect_step_def Let_def get_byte_def test_at_def mem_read_def nth_append)
  then have "rectLoop ver ob maxlen st = rectLoop ver ob maxlen (st \<lparr> rc_i := rc_i st + 1 \<rparr>)"
    using Cons.prems by (intro rectLoop_continue) auto
  moreover have "rectLoop ver ob maxlen (st \<lparr> rc_i := rc_i st + 1 \<rparr>)
      = rectLoop ver ob maxlen (st \<lparr> rc_i := rc_i st + 1, rc_i := rc_i st + 1 + length body \<rparr>)"
    using Cons.prems Cons.IH [of "st \<lparr> rc_i := rc_i st + 1 \<rparr>" "X @ [c]"] by simp
  ultimately show ?case by simp
qed simp

lemma rectLoop_comment:
  assumes d: "rc_data st = X @ ''/*'' @ body @ ''*/'' @ Y" and X: "length X = ob + rc_i st"
    and b: "CHR ''*'' \<notin> set body" "take 1 body \<noteq> ''!''"
    and t: "rc_commentType st = 0" "even (rc_quotationNum st)" and len: "rc_i st + length body + 4 \<le> rc_len st"
  shows "rectLoop ver ob maxlen st = rectLoop ver ob maxlen
     (st \<lparr> rc_data := X @ replicate (length body + 4) CHR '' '' @ Y, rc_commentStartIndex := rc_i st,
           rc_i := rc_i st + length body + 4 \<rparr>)"
proof -
  let ?i = "rc_i st"
  let ?st1 = "st \<lparr> rc_commentType := 1, rc_commentStartIndex := ?i, rc_i := ?i + 2 \<rparr>"
  let ?st2 = "st \<lparr> rc_commentType := 1, rc_commentStartIndex := ?i, rc_i := ?i + length body + 2 \<rparr>"
  have "rect_step ver ob maxlen st = Inr (Continue, rect_open 1 st)"
    using d X t not_binary [of "CHR ''/''"]
    by (simp add: rect_step_def Let_def get_byte_def test_at_def mem_read_def nth_append)
  then have "rectLoop ver ob maxlen st = rectLoop ver ob maxlen ?st1"
    using rectLoop_continue [of st ver ob maxlen "rect_open 1 st"] len t by (simp add: rect_open_def)
  also have "\<dots> = rectLoop ver ob maxlen ?st2"
    using rectLoop_comment_body [of ?st1 "X @ ''/*''" body "''*/'' @ Y" ob ver maxlen] d X b len by (simp add: add.commute)
  also have "\<dots> = rectLoop ver ob maxlen (st \<lparr> rc_data := X @ replicate (length body + 4) CHR '' '' @ Y,
       rc_commentStartIndex := ?i, rc_i := ?i + length body + 4 \<rparr>)"
  proof -
    let ?d = "rc_data st" and ?q = "ob + (?i + length body + 2)"
    let ?st3 = "st \<lparr> rc_data := X @ replicate (length body + 4) CHR '' '' @ Y, rc_commentStartIndex := ?i,
        rc_i := ?i + length body + 2 \<rparr>"
    have at: "?d ! ?q = CHR ''*''" "?d ! Suc ?q = CHR ''/''" "Suc ?q < length ?d"
      "?d ! (ob + ?i + 2) \<noteq> CHR ''!''" "ob + ?i + 2 < length ?d"
      using d X b by (cases body; simp add: nth_append)+
    have "overwrite ?d (ob + ?i) (replicate (length body + 4) CHR '' '') = X @ replicate (length body + 4) CHR '' '' @ Y"
      using d X by (simp add: overwrite_def drop_Cons' numeral_eq_Suc)
    moreover have "?q + 2 - (ob + ?i) = length body + 4" "ob + ?i + (length body + 4) \<le> length ?d"
      using d X by simp_all
    ultimately have "rect_close ver ob ?st2 = Inr (Continue, ?st3)"
      using at t by (cases st)
        (simp add: rect_close_def Let_def get_byte_def mem_read_def blank_def put_bytes_def mem_write_def add.commute [of "length body" 4])
    then have "rect_step ver ob maxlen ?st2 = Inr (Continue, ?st3 \<lparr> rc_i := ?i + length body + 3 \<rparr>)"
      using at t by (simp add: rect_step_def Let_def get_byte_def test_at_def mem_read_def)
    from rectLoop_continue [OF _ this] len show ?thesis by (simp add: add.commute)
  qed
  finally show ?thesis .
qed

text \<open>A statement made of ordinary text with comments in between.\<close>

definition seg_text :: "bytes \<times> bytes \<Rightarrow> bytes" where
  "seg_text = (\<lambda>(pre, body). pre @ ''/*'' @ body @ ''*/'')"

definition seg_blank :: "bytes \<times> bytes \<Rightarrow> bytes" where
  "seg_blank = (\<lambda>(pre, body). pre @ replicate (length body + 4) CHR '' '')"

definition seg_ok :: "bytes \<times> bytes \<Rightarrow> bool" where
  "seg_ok = (\<lambda>(pre, body). list_all ordinary pre \<and> CHR ''*'' \<notin> set body \<and> take 1 body \<noteq> ''!'')"

lemma length_seg_blank [simp]: "length (seg_blank x) = length (seg_text x)"
  by (cases x) (simp add: seg_blank_def seg_text_def)

lemma rectLoop_segs:
  assumes "rc_data st = X @ concat (map seg_text segs) @ post @ Y" "length X = ob + rc_i st" "list_all seg_ok segs"
    "list_all ordinary post" "rc_commentType st = 0" "even (rc_quotationNum st)"
    "rc_len st = rc_i st + length (concat (map seg_text segs)) + length post"
  shows "\<exists>st'. rectLoop ver ob maxlen st = Inr (True, st') \<and> rc_data st' = X @ concat (map seg_blank segs) @ post @ Y
      \<and> rc_len st' = rc_len st \<and> rc_skipUtf8Verify st' = rc_skipUtf8Verify st"
  using assms
proof (induction segs arbitrary: X st)
  case Nil
  then have "rectLoop ver ob maxlen st = rectLoop ver ob maxlen (st \<lparr> rc_i := rc_i st + length post \<rparr>)"
    by (intro rectLoop_ordinary) auto
  with Nil show ?case by (simp add: rectLoop.simps [of ver ob maxlen "st \<lparr> rc_i := _ \<rparr>"])
next
  case (Cons x segs)
  obtain pre body where x: "x = (pre, body)" by fastforce
  let ?st1 = "st \<lparr> rc_i := rc_i st + length pre \<rparr>"
  let ?st2 = "?st1 \<lparr> rc_data := (X @ pre) @ replicate (length body + 4) CHR '' '' @ concat (map seg_text segs) @ post @ Y,
      rc_commentStartIndex := rc_i ?st1, rc_i := rc_i ?st1 + length body + 4 \<rparr>"
  have "rectLoop ver ob maxlen st = rectLoop ver ob maxlen ?st1"
    using Cons.prems x by (intro rectLoop_ordinary) (auto simp: seg_text_def seg_ok_def)
  also have "\<dots> = rectLoop ver ob maxlen ?st2"
    using Cons.prems x by (intro rectLoop_comment) (auto simp: seg_text_def seg_ok_def)
  finally have step: "rectLoop ver ob maxlen st = rectLoop ver ob maxlen ?st2" .
  have "\<exists>st'. rectLoop ver ob maxlen ?st2 = Inr (True, st')
      \<and> rc_data st' = (X @ seg_blank x) @ concat (map seg_blank segs) @ post @ Y
      \<and> rc_len st' = rc_len ?st2 \<and> rc_skipUtf8Verify st' = rc_skipUtf8Verify ?st2"
    using Cons.prems x by (intro Cons.IH) (auto simp: seg_text_def seg_blank_def)
  with step show ?case by simp
qed

section \<open>Properties\<close>

text \<open>C16.  The scan of a command never leaves the command buffer: for every statement that ends with
  its terminator inside the buffer, whatever bytes it holds, no access is out of bounds, and the
  statement the scan leaves is again terminated inside the buffer.\<close>

theorem rectifyCommand_safe:
  assumes "0 < si_offset b" "0 < si_len b" "length (si_data b) = si_maxlen b" "si_offset b + si_len b \<le> si_maxlen b"
    and "si_data b ! (si_offset b + si_len b - 1) = NUL"
  shows "case rectifyCommand ver b s of
      (Inl e, _) \<Rightarrow> e \<noteq> OutOfBounds
    | (Inr (_, b'), _) \<Rightarrow> length (si_data b') = si_maxlen b \<and> 0 < si_len b' \<and> si_offset b + si_len b' \<le> si_maxlen b
        \<and> si_data b' ! (si_offset b + si_len b' - 1) = NUL"
proof -
  let ?st = "\<lparr> rc_data = si_data b, rc_len = si_len b, rc_i = 0, rc_commentType = 0, rc_commentStartIndex = 0,
      rc_leftQuotationMark = CHR '' '', rc_quotationNum = 0, rc_skipUtf8Verify = skipUtf8Verify s \<rparr>"
  have "rect_inv (si_offset b) (si_maxlen b) ?st"
    using assms by (simp add: rect_inv_defs)
  from rectLoop_safe [OF this, of ver] show ?thesis
    by (auto simp: rectifyCommand_def safe_def rect_buf_def split: sum.splits)
qed

definition quote_buf :: StringInfo where
  "quote_buf = \<lparr> si_data = [NUL, NUL, CHR 0x27, CHR 0x01, CHR 0x27, NUL, NUL, NUL, NUL, NUL], si_len = 4,
      si_maxlen = 10, si_cursor = 0, si_offset = 2 \<rparr>"

theorem rectifyCommand_safe_witness:
  "case rectifyCommand ''5.7'' quote_buf (init_session 0 (initNetTransceiver [] [])) of
      (Inl e, _) \<Rightarrow> e \<noteq> OutOfBounds
    | (Inr (_, b'), _) \<Rightarrow> length (si_data b') = si_maxlen quote_buf \<and> 0 < si_len b'
        \<and> si_offset quote_buf + si_len b' \<le> si_maxlen quote_buf
        \<and> si_data b' ! (si_offset quote_buf + si_len b' - 1) = NUL"
  by (rule rectifyCommand_safe) (simp_all add: quote_buf_def)



end
