(* ===== verification/TableMaint.thy ===== *)
theory TableMaint
  imports Packets
begin

text \<open>
  \<open>simulateChecksumTable\<close> and \<open>simulateAnalyzeCheckOptimizeRepairTable\<close> of
  \<open>src/backend/adapter/mysql/adapter.c\<close>: the table maintenance statements of MySQL, which the
  adapter answers itself.  Both read the table names out of the statement with the same code and
  answer with one canned row per table.  \<open>db\<close> is \<open>MyProcPort->database_name\<close>.
\<close>

section \<open>Reading the statement\<close>

text \<open>The options that end the list of names.\<close>

definition is_option :: "bytes \<Rightarrow> bool" where
  "is_option r \<longleftrightarrow> strncaseeq r '' FOR'' 4 \<or> strncaseeq r '' UPGRADE'' 8 \<or> strncaseeq r '' QUICK'' 6
     \<or> strncaseeq r '' FAST'' 5 \<or> strncaseeq r '' MEDIUM'' 7 \<or> strncaseeq r '' EXTENDED'' 9
     \<or> strncaseeq r '' CHANGED'' 8 \<or> strncaseeq r '' USE_FRM'' 8"

text \<open>The loop over the names: \<open>cur\<close> is the text since \<open>tableNameStartIndex\<close>.  A name that does not
  fit its row of 256 bytes is a write out of bounds.\<close>

definition maint_name :: "bytes \<Rightarrow> bytes \<Rightarrow> bool \<Rightarrow> bytes" where
  "maint_name db cur hasDot =
     (let raw = filter (\<lambda>c. c \<noteq> CHR '' '') cur in if hasDot then raw else db @ ''.'' @ raw)"

fun maintLoop :: "bytes \<Rightarrow> bytes \<Rightarrow> bytes \<Rightarrow> bool \<Rightarrow> bytes list \<Rightarrow> fault + bool \<times> bytes list" where
  "maintLoop db [] cur hasDot names = Inr (True, names)"
| "maintLoop db (c # r) cur hasDot names =
     (if c = CHR '','' \<or> c = CHR '';'' \<or> c = NUL \<or> is_option (c # r) then
        let name = maint_name db cur hasDot; names' = names @ [name] in
        if 256 \<le> length name then Inl OutOfBounds
        else if is_option (c # r) \<or> c = CHR '';'' \<or> c = NUL then Inr (True, names')
        else if 128 \<le> length names' then Inr (False, names')
        else maintLoop db r [] False names'
      else maintLoop db r (cur @ [c]) (hasDot \<or> c = CHR ''.'') names)"

text \<open>The operation is the first word, copied to an array of 128 bytes; the names start behind the
  first \<open>" table "\<close>.\<close>

definition maint_parse :: "bytes \<Rightarrow> bytes \<Rightarrow> fault + (bytes \<times> bytes list) option" where
  "maint_parse db stmt =
     (let t = cstr stmt @ [NUL] in
      case find (\<lambda>i. t ! i = CHR '' '') [0..<length t] of
        None \<Rightarrow> Inr None
      | Some operationLen \<Rightarrow>
          if 128 \<le> operationLen then Inl OutOfBounds
          else if operationLen = 0 then Inr None
          else
            (case find (\<lambda>i. strncaseeq (drop i t) '' table '' 7) [0..<length t] of
               None \<Rightarrow> Inr None
             | Some i \<Rightarrow>
                 (case maintLoop db (drop (i + 7) t) [] False [] of
                    Inl e \<Rightarrow> Inl e
                  | Inr (ok, names) \<Rightarrow> Inr (if ok then Some (take operationLen t, names) else None))))"

section \<open>The replies\<close>

definition maint_value :: "bytes \<Rightarrow> bytes" where
  "maint_value v = le_enc 1 (length v) @ v"

definition simulateMaint ::
  "bytes list \<Rightarrow> (bytes \<Rightarrow> bytes \<Rightarrow> bytes) \<Rightarrow> bytes \<Rightarrow> bytes \<Rightarrow> session \<Rightarrow> bool sio" where
  "simulateMaint packets row db stmt s =
     andThen (on_net (send_all writePacketHeaderPayloadNoFlush packets) s) (\<lambda>_ s1.
     andThen (sendEOFPacketNoFlush s1) (\<lambda>_ s2.
       case maint_parse db stmt of
         Inl e \<Rightarrow> (Inl e, s2)
       | Inr None \<Rightarrow> (Inr False, s2)
       | Inr (Some (operation, names)) \<Rightarrow>
           andThen (on_net (send_all writePacketHeaderPayloadNoFlush (map (row operation) names)) s2) (\<lambda>_ s3.
           andThen (sendEOFPacketFlush s3) (\<lambda>_ s4. (Inr True, s4)))))"

definition checksum_packets :: "bytes list" where
  "checksum_packets =
     [hex_bytes [0x02],
      hex_bytes [0x03, 0x64, 0x65, 0x66, 0x00, 0x00, 0x00, 0x05, 0x54, 0x61, 0x62, 0x6c, 0x65, 0x00,
                 0x0c, 0x21, 0x00, 0x80, 0x04, 0x00, 0x00, 0xfd, 0x00, 0x00, 0x1f, 0x00, 0x00],
      hex_bytes [0x03, 0x64, 0x65, 0x66, 0x00, 0x00, 0x00, 0x08, 0x43, 0x68, 0x65, 0x63, 0x6b, 0x73,
                 0x75, 0x6d, 0x00, 0x0c, 0x3f, 0x00, 0x15, 0x00, 0x00, 0x00, 0x08, 0x80, 0x00, 0x00,
                 0x00, 0x00]]"

definition checksum_row :: "bytes \<Rightarrow> bytes \<Rightarrow> bytes" where
  "checksum_row operation name = maint_value name @ maint_value ''2686538710''"

definition simulateChecksumTable :: "bytes \<Rightarrow> bytes \<Rightarrow> session \<Rightarrow> bool sio" where
  "simulateChecksumTable = simulateMaint checksum_packets checksum_row"

definition analyze_packets :: "bytes list" where
  "analyze_packets =
     [hex_bytes [0x04],
      hex_bytes [0x03, 0x64, 0x65, 0x66, 0x00, 0x00, 0x00, 0x05, 0x54, 0x61, 0x62, 0x6c, 0x65, 0x00,
                 0x0c, 0x21, 0x00, 0x80, 0x01, 0x00, 0x00, 0xfd, 0x00, 0x00, 0x1f, 0x00, 0x00],
      hex_bytes [0x03, 0x64, 0x65, 0x66, 0x00, 0x00, 0x00, 0x02, 0x4f, 0x70, 0x00, 0x0c, 0x21, 0x00,
                 0x1e, 0x00, 0x00, 0x00, 0xfd, 0x00, 0x00, 0x1f, 0x00, 0x00],
      hex_bytes [0x03, 0x64, 0x65, 0x66, 0x00, 0x00, 0x00, 0x08, 0x4d, 0x73, 0x67, 0x5f, 0x74, 0x79,
                 0x70, 0x65, 0x00, 0x0c, 0x21, 0x00, 0x1e, 0x00, 0x00, 0x00, 0xfd, 0x00, 0x00, 0x1f,
                 0x00, 0x00],
      hex_bytes [0x03, 0x64, 0x65, 0x66, 0x00, 0x00, 0x00, 0x08, 0x4d, 0x73, 0x67, 0x5f, 0x74, 0x65,
                 0x78, 0x74, 0x00, 0x0c, 0x21, 0x00, 0x00, 0x00, 0x12, 0x00, 0xfa, 0x00, 0x00, 0x1f,
                 0x00, 0x00]]"

definition analyze_row :: "bytes \<Rightarrow> bytes \<Rightarrow> bytes" where
  "analyze_row operation name =
     maint_value name @ maint_value operation @ maint_value ''status'' @ maint_value ''OK''"

definition simulateAnalyzeCheckOptimizeRepairTable :: "bytes \<Rightarrow> bytes \<Rightarrow> session \<Rightarrow> bool sio" where
  "simulateAnalyzeCheckOptimizeRepairTable = simulateMaint analyze_packets analyze_row"

section \<open>Lemmas\<close>

text \<open>A plain table name, and a list of them as a statement writes it.\<close>

definition plain_name :: "bytes \<Rightarrow> bool" where
  "plain_name n \<longleftrightarrow> n \<noteq> [] \<and> list_all (\<lambda>c. c \<notin> {CHR '','', CHR '';'', NUL, CHR '' '', CHR ''.''}) n"

fun name_list :: "bytes list \<Rightarrow> bytes" where
  "name_list [] = []"
| "name_list [n] = n"
| "name_list (n # ns) = n @ '','' @ name_list ns"

lemma c_tolower_space: "c_tolower c = CHR '' '' \<longleftrightarrow> c = CHR '' ''"
proof -
  have "(of_char (char_of ((of_char c :: nat) + 32) :: char) :: nat) = of_char c + 32"
    if "CHR ''A'' \<le> c" "c \<le> CHR ''Z''"
    using that by (simp add: less_eq_char_def of_char_of)
  moreover have "(of_char (CHR '' '') :: nat) = 32" by simp
  ultimately have "char_of ((of_char c :: nat) + 32) \<noteq> CHR '' ''" if "CHR ''A'' \<le> c" "c \<le> CHR ''Z''"
    using that by (force simp: less_eq_char_def)
  then show ?thesis by (auto simp: c_tolower_def)
qed

lemma not_space_word: "c \<noteq> CHR '' '' \<Longrightarrow> \<not> strncaseeq (c # r) (CHR '' '' # w) (Suc n)"
  using c_tolower_space [of c] by (auto simp: c_tolower_def)

lemma not_option: "c \<noteq> CHR '' '' \<Longrightarrow> \<not> is_option (c # r)"
  by (simp add: is_option_def numeral_eq_Suc not_space_word del: strncaseeq.simps)

lemma maintLoop_name:
  "list_all (\<lambda>c. c \<notin> {CHR '','', CHR '';'', NUL, CHR '' '', CHR ''.''}) n \<Longrightarrow>
   maintLoop db (n @ r) cur dot names = maintLoop db r (cur @ n) dot names"
  by (induction n arbitrary: cur) (simp_all add: not_option)

lemma maint_name_plain: "plain_name n \<Longrightarrow> maint_name db n False = db @ ''.'' @ n"
  by (simp add: maint_name_def plain_name_def filter_True list_all_iff)

lemma maintLoop_names:
  assumes "ns \<noteq> []" "list_all plain_name ns" "\<forall>n \<in> set ns. length db + 1 + length n < 256"
    "length names + length ns \<le> 128"
  shows "maintLoop db (name_list ns @ [NUL]) [] False names = Inr (True, names @ map (\<lambda>n. db @ ''.'' @ n) ns)"
  using assms
proof (induction ns arbitrary: names rule: name_list.induct)
  case (2 n)
  then show ?case
    by (simp add: maintLoop_name plain_name_def [of n] maint_name_plain Let_def)
next
  case (3 n m ns)
  have "maintLoop db (name_list (n # m # ns) @ [NUL]) [] False names
      = maintLoop db (name_list (m # ns) @ [NUL]) [] False (names @ [db @ ''.'' @ n])"
    using 3(3-5) by (simp add: maintLoop_name plain_name_def [of n] maint_name_plain Let_def not_option)
  also have "\<dots> = Inr (True, (names @ [db @ ''.'' @ n]) @ map (\<lambda>n. db @ ''.'' @ n) (m # ns))"
    using 3(3-5) by (intro "3.IH") auto
  finally show ?case by simp
qed simp

lemma find_upt: "k < n \<Longrightarrow> P k \<Longrightarrow> (\<And>j. j < k \<Longrightarrow> \<not> P j) \<Longrightarrow> find P [0..<n] = Some k"
  by (auto simp: find_Some_iff intro!: exI [of _ k])

lemma name_list_no_NUL: "list_all plain_name ns \<Longrightarrow> NUL \<notin> set (name_list ns)"
  by (induction ns rule: name_list.induct) (auto simp: plain_name_def list_all_iff)

lemma maint_parse_names:
  assumes op: "op \<noteq> []" "length op < 128" "CHR '' '' \<notin> set op" "NUL \<notin> set op"
    and ns: "ns \<noteq> []" "list_all plain_name ns" "\<forall>n \<in> set ns. length db + 1 + length n < 256" "length ns \<le> 128"
  shows "maint_parse db (op @ '' table '' @ name_list ns @ NUL # r) = Inr (Some (op, map (\<lambda>n. db @ ''.'' @ n) ns))"
proof -
  let ?w = "'' table ''"
  define t where "t = op @ ?w @ name_list ns @ [NUL]"
  have t: "cstr (op @ ?w @ name_list ns @ NUL # r) @ [NUL] = t"
    using op(4) name_list_no_NUL [OF ns(2)] cstr_append_NUL [of "op @ ?w @ name_list ns" r] by (simp add: t_def)
  have nth: "j < length op \<Longrightarrow> t ! j \<noteq> CHR '' ''" for j
    using op(3) by (auto simp: t_def nth_append in_set_conv_nth)
  have "find (\<lambda>i. t ! i = CHR '' '') [0..<length t] = Some (length op)"
    by (rule find_upt) (use nth in \<open>auto simp: t_def\<close>)
  moreover have "find (\<lambda>i. strncaseeq (drop i t) ?w 7) [0..<length t] = Some (length op)"
  proof (rule find_upt)
    show "strncaseeq (drop (length op) t) ?w 7"
      using strncaseeq_prefix [of 7 ?w "name_list ns @ [NUL]"] by (simp add: t_def)
  next
    fix j assume j: "j < length op"
    then have "drop j t = t ! j # drop (Suc j) t" by (intro Cons_nth_drop_Suc [symmetric]) (simp add: t_def)
    then show "\<not> strncaseeq (drop j t) ?w 7"
      using not_space_word [OF nth [OF j], of "drop (Suc j) t" "''table ''" 6] by (simp add: numeral_eq_Suc del: strncaseeq.simps)
  qed (simp add: t_def)
  moreover have "maintLoop db (drop (length op + 7) t) [] False [] = Inr (True, map (\<lambda>n. db @ ''.'' @ n) ns)"
    using maintLoop_names [OF ns(1-3), of "[]"] ns(4) by (simp add: t_def)
  moreover have "take (length op) t = op" by (simp add: t_def)
  ultimately show ?thesis
    using op(1,2) unfolding maint_parse_def t Let_def by simp
qed

text \<open>The packets of a maintenance reply.\<close>

definition maint_reply :: "bytes list \<Rightarrow> bytes list \<Rightarrow> session \<Rightarrow> bytes list" where
  "maint_reply packets rows s =
     packets @ (if has_cap s MYS_CLT_DEPRECATE_EOF then [] else [eof_payload s]) @ rows @ [eof_payload s]"

lemma replies_then_True:
  assumes "replies s ps m" shows "replies s ps (andThen m (\<lambda>_ s4. (Inr True, s4)))"
  using assms by (cases m) (auto simp: replies_def delivers_def)

lemma simulateMaint_reply:
  assumes s: "sess_ready s" "no_track_overflow s" "strings_fit s"
    and p: "maint_parse db stmt = Inr (Some (op, names))"
  shows "replies s (maint_reply packets (map (row op) names) s) (simulateMaint packets row db stmt s)"
  unfolding simulateMaint_def maint_reply_def p sum.case option.case prod.case
proof (intro replies_andThen replies_packets s(1), goal_cases)
  case (1 s1)
  then show ?case
    using replies_EOFNoFlush [of s1] s same_but_net_facts [of s s1] by (simp split: if_splits)
next
  case (2 s1 s2)
  then show ?case by simp
next
  case (3 s1 s2 s3)
  then show ?case
    using replies_then_True [OF replies_EOF [of s3 True]] s same_but_net_facts [of s s1] same_but_net_facts [of s1 s2]
      same_but_net_facts [of s2 s3] by (simp add: sendEOFPacketFlush_def)
qed

section \<open>Properties\<close>

text \<open>C31.  The maintenance statements answer for every table they name: \<open><op> table t1,t2,...\<close> is
  answered with a complete result set that has exactly one row per table, in order, each name
  qualified with the current database; the checksum is the same constant for every table.\<close>

theorem maintenance_reply:
  assumes "sess_ready s" "no_track_overflow s" "strings_fit s"
    and "op \<noteq> []" "length op < 128" "CHR '' '' \<notin> set op" "NUL \<notin> set op"
    and "ns \<noteq> []" "list_all plain_name ns" "\<forall>n \<in> set ns. length db + 1 + length n < 256" "length ns \<le> 128"
    and "stmt = op @ '' table '' @ name_list ns @ NUL # r"
  shows "replies s (maint_reply analyze_packets (map (\<lambda>n. analyze_row op (db @ ''.'' @ n)) ns) s)
           (simulateAnalyzeCheckOptimizeRepairTable db stmt s)
     \<and> replies s (maint_reply checksum_packets (map (\<lambda>n. maint_value (db @ ''.'' @ n) @ maint_value ''2686538710'') ns) s)
           (simulateChecksumTable db stmt s)"
proof -
  note parse = maint_parse_names [OF assms(4-11), of r, folded assms(12)]
  show ?thesis
    using simulateMaint_reply [OF assms(1-3) parse, of analyze_packets analyze_row]
      simulateMaint_reply [OF assms(1-3) parse, of checksum_packets checksum_row]
    by (simp add: simulateAnalyzeCheckOptimizeRepairTable_def simulateChecksumTable_def checksum_row_def comp_def)
qed

lemma plain_session:
  "sess_ready (init_session 512 (initNetTransceiver [] []))" "no_track_overflow (init_session 512 (initNetTransceiver [] []))"
  "strings_fit (init_session 512 (initNetTransceiver [] []))"
  using sess_ready_init [of "[]" "[]" 512]
  by (simp_all add: wr_ok_def init_session_def strings_fit_def no_track_overflow_def has_cap_def MYS_CLT_SESSION_TRACK_def)

theorem maintenance_reply_witness:
  "replies (init_session 512 (initNetTransceiver [] []))
      (maint_reply analyze_packets [analyze_row ''check'' ''shop.t1'', analyze_row ''check'' ''shop.t2'']
         (init_session 512 (initNetTransceiver [] [])))
      (simulateAnalyzeCheckOptimizeRepairTable ''shop'' (''check table t1,t2'' @ [NUL])
         (init_session 512 (initNetTransceiver [] [])))"
  using maintenance_reply [OF plain_session, of "''check''" "[''t1'', ''t2'']" "''shop''" "''check table t1,t2'' @ [NUL]" "[]"]
  by (simp add: plain_name_def)

end
