(* ===== verification/Session.thy ===== *)
theory Session
  imports PreStmt Rectify TableMaint
begin

text \<open>
  The command loop of a MySQL session: \<open>readCommand\<close>, \<open>processCommand\<close>, \<open>addAdditionalSQL\<close> and
  \<open>endCommand\<close> of \<open>src/backend/adapter/mysql/adapter.c\<close>, which compose the other parts of the adapter,
  and the step of \<open>PostgresMain\<close> (\<open>src/backend/tcop/postgres.c\<close>) that calls them.  What the server does
  with a forwarded statement is a parameter: the completions it reports, and the error that ended it.
\<close>

section \<open>Requests\<close>

definition MYS_REQ_SLEEP :: int where "MYS_REQ_SLEEP = 0"
definition MYS_REQ_QUIT :: int where "MYS_REQ_QUIT = 1"
definition MYS_REQ_USE_DATABASE :: int where "MYS_REQ_USE_DATABASE = 2"
definition MYS_REQ_QUERY :: int where "MYS_REQ_QUERY = 3"
definition MYS_REQ_FIELD_LIST :: int where "MYS_REQ_FIELD_LIST = 4"
definition MYS_REQ_PING :: int where "MYS_REQ_PING = 14"
definition MYS_REQ_PREPARE :: int where "MYS_REQ_PREPARE = 22"
definition MYS_REQ_EXECUTE :: int where "MYS_REQ_EXECUTE = 23"
definition MYS_REQ_CLOSE :: int where "MYS_REQ_CLOSE = 25"
definition MYS_REQ_RESET :: int where "MYS_REQ_RESET = 26"
definition MYS_REQ_RESET_CONN :: int where "MYS_REQ_RESET_CONN = 31"
definition HALO_REQ_QUERY :: int where "HALO_REQ_QUERY = 81"
definition HALO_REQ_QUIT :: int where "HALO_REQ_QUIT = 88"

lemmas req_defs = MYS_REQ_SLEEP_def MYS_REQ_QUIT_def MYS_REQ_USE_DATABASE_def MYS_REQ_QUERY_def
  MYS_REQ_FIELD_LIST_def MYS_REQ_PING_def MYS_REQ_PREPARE_def MYS_REQ_EXECUTE_def MYS_REQ_CLOSE_def
  MYS_REQ_RESET_def MYS_REQ_RESET_CONN_def HALO_REQ_QUERY_def HALO_REQ_QUIT_def

text \<open>The server settings the commands read.\<close>

record env =
  halo_mysql_version :: bytes
  database_name :: bytes
  show_double :: "bytes \<Rightarrow> string"
  max_allowed_packet :: nat

text \<open>The value of a \<open>char\<close> as an \<open>int\<close>.\<close>

definition int_of_char :: "char \<Rightarrow> int" where
  "int_of_char c = (if (of_char c :: int) < 128 then of_char c else of_char c - 256)"

definition readCommand :: "env \<Rightarrow> StringInfo \<Rightarrow> session \<Rightarrow> (int \<times> StringInfo) sio" where
  "readCommand e inBuf s =
     andThen (on_net (readPayload (max_allowed_packet e) (inBuf \<lparr> si_offset := 128 \<rparr>)) s) (\<lambda>inBuf1 s1.
       case mem_read (si_data inBuf1) (si_offset inBuf1) of
         None \<Rightarrow> (Inl OutOfBounds, s1)
       | Some c \<Rightarrow> (Inr (int_of_char c, inBuf1 \<lparr> si_offset := si_offset inBuf1 + 1 \<rparr>), s1))"

section \<open>Statements added in front of the client's\<close>

definition prepend :: "bytes \<Rightarrow> StringInfo \<Rightarrow> (StringInfo \<Rightarrow> session \<Rightarrow> 'a sio) \<Rightarrow> session \<Rightarrow> 'a sio" where
  "prepend sql inBuf f s =
     (let offset = si_offset inBuf - length sql in
      if si_offset inBuf < length sql then (Inl OutOfBounds, s)
      else
        (case mem_write (si_data inBuf) offset sql of
           None \<Rightarrow> (Inl OutOfBounds, s)
         | Some d \<Rightarrow> f (inBuf \<lparr> si_data := d, si_offset := offset, si_len := si_len inBuf + length sql \<rparr>) s))"

definition addAdditionalSQL :: "StringInfo \<Rightarrow> session \<Rightarrow> StringInfo sio" where
  "addAdditionalSQL inBuf s =
     (if RESERVED_FOR_ADDITIONAL_SQL \<le> si_offset inBuf then
        andThen
          (if needAddCommitOrRollbackAfterCurSQL s \<noteq> 2 then
             andThen (if needStartNewTrx s \<and> \<not> trxNotCommit s
                      then prepend ''begin;'' inBuf (\<lambda>b s1. (Inr b, s1 \<lparr> addBeforeBeforeCurSQL := True \<rparr>)) s
                      else (Inr inBuf, s)) (\<lambda>inBuf1 s1.
             if needCommitTrx s1 \<and> trxNotCommit s1
             then prepend ''commit;'' inBuf1 (\<lambda>b s2. (Inr b, s2 \<lparr> addCommitOrRollBackBeforeCurSQL := True \<rparr>)) s1
             else (Inr inBuf1, s1))
           else
             prepend ''begin;'' inBuf (\<lambda>inBuf1 s1.
             prepend ''rollback;'' inBuf1 (\<lambda>b s2. (Inr b, s2 \<lparr> addCommitOrRollBackBeforeCurSQL := True \<rparr>))
               (s1 \<lparr> addBeforeBeforeCurSQL := True \<rparr>)) s)
          (\<lambda>b s3. (Inr b, s3 \<lparr> needCommitTrx := False \<rparr>))
      else (Inl (PgError ''internal error in addAdditionalSQL!''), s))"

section \<open>Commands\<close>

text \<open>The result of \<open>processCommand\<close>: its return value, \<open>*firstChar\<close> and the buffer.\<close>

type_synonym processed = "int \<times> int \<times> StringInfo"

definition sendSyntaxError :: "bytes \<Rightarrow> session \<Rightarrow> 'a sio" where
  "sendSyntaxError command s = (Inl (PgError (''Systax error. '' @ command)), s)"

definition forwarded :: "StringInfo \<Rightarrow> session \<Rightarrow> processed sio" where
  "forwarded inBuf s = (Inr (0, HALO_REQ_QUERY, inBuf), s)"

definition forwardWithSQL :: "StringInfo \<Rightarrow> session \<Rightarrow> processed sio" where
  "forwardWithSQL inBuf s = andThen (addAdditionalSQL inBuf s) forwarded"

definition answered :: "int \<Rightarrow> StringInfo \<Rightarrow> bool sio \<Rightarrow> processed sio" where
  "answered fc inBuf r = andThen r (\<lambda>_ s. (Inr (1, fc, inBuf), s))"

text \<open>\<open>warnErrCode = 0\<close> after an answer.\<close>

definition answeredClear :: "int \<Rightarrow> StringInfo \<Rightarrow> bool sio \<Rightarrow> processed sio" where
  "answeredClear fc inBuf r = andThen r (\<lambda>_ s. (Inr (1, fc, inBuf), s \<lparr> warnErrCode := 0 \<rparr>))"

text \<open>The loop that skips blanks in front of a statement.  It takes the terminator for a blank; \<open>len\<close> may
  become negative.\<close>

definition is_blank0 :: "char \<Rightarrow> bool" where
  "is_blank0 c \<longleftrightarrow> c = CHR '' '' \<or> c = CHR 0x09 \<or> c = CHR 0x0A \<or> c = CHR 0x0D \<or> c = NUL"

function skipBlanks :: "bytes \<Rightarrow> nat \<Rightarrow> int \<Rightarrow> fault + nat \<times> int" where
  "skipBlanks d offset len =
     (if offset < length d then
        (if is_blank0 (d ! offset) then skipBlanks d (offset + 1) (len - 1) else Inr (offset, len))
      else Inl OutOfBounds)"
  by pat_completeness auto
termination by (relation "measure (\<lambda>(d, offset, _). length d - offset)") auto

declare skipBlanks.simps [simp del]

text \<open>\<open>skipSpaces\<close> on the second word.\<close>

function skipSpaces :: "bytes \<Rightarrow> nat \<Rightarrow> fault + nat" where
  "skipSpaces d p =
     (if p < length d then
        (if d ! p = CHR '' '' \<or> d ! p = CHR 0x0A \<or> d ! p = CHR 0x09 then skipSpaces d (p + 1) else Inr p)
      else Inl OutOfBounds)"
  by pat_completeness auto
termination by (relation "measure (\<lambda>(d, p). length d - p)") auto

declare skipSpaces.simps [simp del]

text \<open>The statement is the text at the offset; \<open>origLen\<close> is the length before cleaning.\<close>

definition stmt_at :: "StringInfo \<Rightarrow> bytes" where
  "stmt_at inBuf = cstr (drop (si_offset inBuf) (si_data inBuf))"

definition query_empty :: "int \<Rightarrow> StringInfo \<Rightarrow> session \<Rightarrow> processed sio" where
  "query_empty fc inBuf s = answered fc inBuf (sendErrPacket 1065 ''Query was empty'' ''42000'' s)"

definition process_begin :: "StringInfo \<Rightarrow> session \<Rightarrow> processed sio" where
  "process_begin inBuf s =
     andThen
       (if trxNotCommit s then
          prepend (if needAddCommitOrRollbackAfterCurSQL s = 1 then ''commit;'' else ''rollback;'') inBuf
            (\<lambda>b s1. (Inr b, s1 \<lparr> addCommitOrRollBackBeforeCurSQL := True \<rparr>)) s
        else (Inr inBuf, s))
       (\<lambda>b s1. forwarded b (s1 \<lparr> warnErrCode := 0 \<rparr>))"

text \<open>\<open>systemVarVal\<close> has 1024 bytes; a negative length is a copy of almost the whole address space.\<close>

definition put_systemVarVal :: "bytes \<Rightarrow> nat \<Rightarrow> int \<Rightarrow> session \<Rightarrow> session option" where
  "put_systemVarVal d p n s =
     (if 0 \<le> n \<and> n < 1024 \<and> p + nat n \<le> length d
      then Some (s \<lparr> setUserSystemVar := 2, systemVarVal := cstr (take (nat n) (drop p d)) \<rparr>) else None)"

definition process_use :: "int \<Rightarrow> StringInfo \<Rightarrow> int \<Rightarrow> session \<Rightarrow> processed sio" where
  "process_use fc inBuf len s =
     (if len - 5 \<le> 1024 then
        (case put_systemVarVal (si_data inBuf) (si_offset inBuf + 4) (len - 5) s of
           None \<Rightarrow> (Inl OutOfBounds, s)
         | Some s1 \<Rightarrow> forwarded inBuf s1)
      else answered fc inBuf (sendErrPacket 1049 ''Invalid client data'' ''42000'' s))"

definition process_show :: "int \<Rightarrow> StringInfo \<Rightarrow> session \<Rightarrow> processed sio" where
  "process_show fc inBuf s =
     (case skipSpaces (si_data inBuf) (si_offset inBuf + 5) of
        Inl e \<Rightarrow> (Inl e, s)
      | Inr p \<Rightarrow>
          let secondWord = drop p (si_data inBuf) in
          if strncaseeq secondWord ''grants'' 6 then
            andThen (simulateShowGrants s) (\<lambda>_ s1.
            andThen (addAdditionalSQL inBuf s1) (\<lambda>b s2. (Inr (1, fc, b), s2 \<lparr> warnErrCode := 0 \<rparr>)))
          else if strncaseeq secondWord ''warnings'' 8 \<or> strncaseeq secondWord ''errors'' 6 then
            answered fc inBuf (simulateShowWarnErrReturn s)
          else andThen (addAdditionalSQL inBuf s) (\<lambda>b s1. forwarded b (s1 \<lparr> warnErrCode := 0 \<rparr>)))"

definition process_alter :: "int \<Rightarrow> StringInfo \<Rightarrow> session \<Rightarrow> processed sio" where
  "process_alter fc inBuf s =
     (case skipSpaces (si_data inBuf) (si_offset inBuf + 6) of
        Inl e \<Rightarrow> (Inl e, s)
      | Inr p \<Rightarrow>
          if \<not> strncaseeq (drop p (si_data inBuf)) ''database'' 8
          then forwardWithSQL inBuf (s \<lparr> warnErrCode := 0 \<rparr>)
          else answered fc inBuf
                 (sendErrPacket 1049 ([CHR 0x22] @ ''alter database'' @ [CHR 0x22] @ '' is forbidden in Halo-MySQL'') ''42000'' s))"

definition process_semicolon :: "int \<Rightarrow> int \<Rightarrow> StringInfo \<Rightarrow> int \<Rightarrow> session \<Rightarrow> processed sio" where
  "process_semicolon fc origLen inBuf len s =
     (let t = take (nat len) (drop (si_offset inBuf) (si_data inBuf)) in
      if list_ex (\<lambda>c. c \<noteq> CHR '';'' \<and> c \<noteq> CHR '' '' \<and> c \<noteq> CHR 0x0A \<and> c \<noteq> NUL) t then
        answered fc inBuf (sendErrPacket 1064
          ''You have an error in your SQL syntax; check the manual that corresponds to your MySQL server version for the right syntax to use near ';select 123 as abc' at line 1''
          ''42000'' s)
      else if length t < nat len then (Inl OutOfBounds, s)
      else if len + 4 \<le> origLen then answeredClear fc inBuf (sendOKPacket s)
      else query_empty fc inBuf s)"

definition process_maint :: "int \<Rightarrow> StringInfo \<Rightarrow> bytes \<Rightarrow> bool sio \<Rightarrow> processed sio" where
  "process_maint fc inBuf stmt r =
     andThen r (\<lambda>ok s. if ok then (Inr (1, fc, inBuf), s \<lparr> warnErrCode := 0 \<rparr>) else sendSyntaxError stmt s)"

definition dispatchQuery :: "env \<Rightarrow> int \<Rightarrow> int \<Rightarrow> StringInfo \<Rightarrow> int \<Rightarrow> session \<Rightarrow> processed sio" where
  "dispatchQuery e fc origLen inBuf len s =
     (let stmt = stmt_at inBuf; s0 = s \<lparr> warnErrCode := 0 \<rparr> in
      if strncaseeq stmt ''select'' 6 \<or> strncaseeq stmt ''insert'' 6 \<or> strncaseeq stmt ''replace'' 7
         \<or> strncaseeq stmt ''update'' 6 \<or> strncaseeq stmt ''delete'' 6 then forwardWithSQL inBuf s0
      else if strncaseeq stmt ''begin'' 5 then process_begin inBuf s
      else if strncaseeq stmt ''commit'' 6 \<or> strncaseeq stmt ''rollback'' 8 then forwarded inBuf s0
      else if strncaseeq stmt ''set'' 3 then forwarded inBuf s0
      else if strncaseeq stmt ''use'' 3 then process_use fc inBuf len s
      else if strncaseeq stmt ''show'' 4 then process_show fc inBuf s
      else if strncaseeq stmt ''alter'' 5 then process_alter fc inBuf s
      else if strncaseeq stmt '';'' 1 then process_semicolon fc origLen inBuf len s
      else if strncaseeq stmt ''checksum'' 8 then
        process_maint fc inBuf stmt (simulateChecksumTable (database_name e) stmt s)
      else if strncaseeq stmt ''analyze'' 7 \<or> strncaseeq stmt ''check'' 5 \<or> strncaseeq stmt ''optimize'' 8
              \<or> strncaseeq stmt ''repair'' 6 then
        process_maint fc inBuf stmt (simulateAnalyzeCheckOptimizeRepairTable (database_name e) stmt s)
      else if strncaseeq stmt ''flush'' 5 then answeredClear fc inBuf (sendOKPacket s)
      else if strncaseeq stmt ''reset'' 5 then answeredClear fc inBuf (sendOKPacket s)
      else forwardWithSQL inBuf s0)"

definition processQuery :: "env \<Rightarrow> int \<Rightarrow> StringInfo \<Rightarrow> session \<Rightarrow> processed sio" where
  "processQuery e fc inBuf s =
     (let origLen = int (si_len inBuf) - 1 in
      andThen (rectifyCommand (halo_mysql_version e) inBuf s) (\<lambda>(ok, inBuf1) s1.
        if \<not> ok then sendSyntaxError (stmt_at inBuf1) s1
        else
          (case skipBlanks (si_data inBuf1) (si_offset inBuf1) (int (si_len inBuf1)) of
             Inl f \<Rightarrow> (Inl f, s1)
           | Inr (offset, len) \<Rightarrow>
               let inBuf2 = inBuf1 \<lparr> si_offset := offset, si_len := nat len \<rparr> in
               if len \<le> 0 then
                 (if 4 < origLen then answeredClear fc inBuf2 (sendOKPacket s1) else query_empty fc inBuf2 s1)
               else dispatchQuery e fc origLen inBuf2 len s1)))"

definition processPrepare :: "env \<Rightarrow> int \<Rightarrow> StringInfo \<Rightarrow> session \<Rightarrow> processed sio" where
  "processPrepare e fc inBuf s =
     andThen (rectifyCommand (halo_mysql_version e) inBuf s) (\<lambda>(ok, inBuf1) s1.
       if \<not> ok then sendSyntaxError (stmt_at inBuf1) s1
       else
         andThen (rewriteExtendPreStmt inBuf1 s1) (\<lambda>(ret, inBuf2) s2.
           if ret = 1 then forwardWithSQL inBuf2 (s2 \<lparr> isExtendPreStmt := True, warnErrCode := 0 \<rparr>)
           else if ret = 2 then answered fc inBuf2 (endExtendPreStmt (s2 \<lparr> warnErrCode := 0 \<rparr>))
           else if ret = 3 then
             answered fc inBuf2 (sendErrPacket 1295
               ''This command is not supported in the prepared statement protocol yet'' ''HY000'' s2)
           else sendSyntaxError (cstr (drop (si_offset inBuf1) (si_data inBuf2))) s2))"

definition processUseDatabase :: "int \<Rightarrow> StringInfo \<Rightarrow> session \<Rightarrow> processed sio" where
  "processUseDatabase fc inBuf s =
     (let len = int (si_len inBuf) in
      if len - 1 \<le> 1024 then
        (case put_systemVarVal (si_data inBuf) (si_offset inBuf) (len - 1) s of
           None \<Rightarrow> (Inl OutOfBounds, s)
         | Some s1 \<Rightarrow>
             prepend ''use `'' inBuf (\<lambda>inBuf1 s2.
               case mem_write (si_data inBuf1) (si_offset inBuf1 + si_len inBuf1 - 1) [CHR ''`'', NUL] of
                 None \<Rightarrow> (Inl OutOfBounds, s2)
               | Some d \<Rightarrow> forwardWithSQL (inBuf1 \<lparr> si_data := d, si_len := si_len inBuf1 + 1 \<rparr>) s2) s1)
      else answered fc inBuf (sendErrPacket 1049 ''Invalid client data'' ''42000'' s))"

definition processCommand :: "env \<Rightarrow> int \<Rightarrow> StringInfo \<Rightarrow> session \<Rightarrow> processed sio" where
  "processCommand e firstChar inBuf s =
     (let s0 = s \<lparr> moreResultsFlag := 0, warnings := 0, preOrPostSQLNum := 0, lastInsertIDForPacket := 0,
                   skipUtf8Verify := False, isExtendPreStmt := False, isExtendExeStmt := False,
                   isExtendCloseStmt := False, isResetConnStmt := False \<rparr> in
      if firstChar = MYS_REQ_EXECUTE then
        andThen (rewriteExtendExeStmt (show_double e) inBuf (s0 \<lparr> isExtendExeStmt := True \<rparr>)) (\<lambda>(ok, inBuf1) s1.
          if ok then andThen (addAdditionalSQL inBuf1 s1) (\<lambda>b s2. forwarded b (s2 \<lparr> warnErrCode := 0 \<rparr>))
          else sendSyntaxError ''(null)'' s1)
      else if firstChar = MYS_REQ_QUERY then processQuery e firstChar inBuf s0
      else if firstChar = MYS_REQ_PREPARE then processPrepare e firstChar inBuf s0
      else if firstChar = MYS_REQ_CLOSE then
        andThen (rewriteExtendCloseStmt inBuf s0) (\<lambda>(ok, inBuf1) s1.
          if ok then forwardWithSQL inBuf1 (s1 \<lparr> isExtendCloseStmt := True, warnErrCode := 0 \<rparr>)
          else sendSyntaxError ''(null)'' s1)
      else if firstChar = MYS_REQ_RESET then answeredClear firstChar inBuf (sendOKPacket s0)
      else if firstChar = MYS_REQ_FIELD_LIST then answeredClear firstChar inBuf (simulateShowFieldsReturn s0)
      else if firstChar = MYS_REQ_USE_DATABASE then processUseDatabase firstChar inBuf s0
      else if firstChar = MYS_REQ_SLEEP then answeredClear firstChar inBuf (sendOKPacket s0)
      else if firstChar = MYS_REQ_QUIT then (Inr (0, HALO_REQ_QUIT, inBuf), s0)
      else if firstChar = MYS_REQ_PING then answeredClear firstChar inBuf (sendOKPacket s0)
      else if firstChar = MYS_REQ_RESET_CONN then
        andThen (resetConnection inBuf s0) (\<lambda>(_, inBuf1) s1. forwarded inBuf1 (s1 \<lparr> warnErrCode := 0 \<rparr>))
      else answered firstChar inBuf (sendUnsupportError s0))"

section \<open>Completions\<close>

text \<open>The command tags \<open>endCommand\<close> distinguishes, and one for the rest.\<close>

datatype CommandTag =
    CMDTAG_EXECUTE | CMDTAG_SELECT | CMDTAG_INSERT | CMDTAG_UPDATE | CMDTAG_DELETE | CMDTAG_BEGIN
  | CMDTAG_COMMIT | CMDTAG_ROLLBACK | CMDTAG_PREPARE | CMDTAG_DEALLOCATE | CMDTAG_DEALLOCATE_ALL
  | CMDTAG_TRUNCATE_TABLE | CMDTAG_SAVEPOINT | CMDTAG_RELEASE | CMDTAG_START_TRANSACTION
  | CMDTAG_CALL | CMDTAG_SET | CMDTAG_CREATE_DATABASE | CMDTAG_CREATE_ROLE | CMDTAG_CREATE_SCHEMA
  | CMDTAG_CREATE_TABLE | CMDTAG_CREATE_TABLE_AS | CMDTAG_CREATE_SEQUENCE | CMDTAG_CREATE_FUNCTION
  | CMDTAG_CREATE_PROCEDURE | CMDTAG_CREATE_DOMAIN | CMDTAG_CREATE_TYPE | CMDTAG_CREATE_VIEW
  | CMDTAG_CREATE_INDEX | CMDTAG_CREATE_CONSTRAINT | CMDTAG_CREATE_TRIGGER | CMDTAG_ALTER_DATABASE
  | CMDTAG_ALTER_ROLE | CMDTAG_ALTER_SCHEMA | CMDTAG_ALTER_TABLE | CMDTAG_ALTER_SEQUENCE
  | CMDTAG_ALTER_VIEW | CMDTAG_ALTER_INDEX | CMDTAG_ALTER_SYSTEM | CMDTAG_ALTER_CONSTRAINT
  | CMDTAG_ALTER_TRIGGER | CMDTAG_COMMENT | CMDTAG_DROP_DATABASE | CMDTAG_DROP_ROLE
  | CMDTAG_DROP_SCHEMA | CMDTAG_DROP_TABLE | CMDTAG_DROP_DOMAIN | CMDTAG_DROP_TYPE | CMDTAG_DROP_VIEW
  | CMDTAG_DROP_INDEX | CMDTAG_DROP_CONSTRAINT | CMDTAG_DROP_FUNCTION | CMDTAG_DROP_PROCEDURE
  | CMDTAG_DROP_SEQUENCE | CMDTAG_DROP_TRIGGER | CMDTAG_SELECT_INTO | CMDTAG_OTHER

definition object_tags :: "CommandTag list" where
  "object_tags =
     [CMDTAG_CREATE_DATABASE, CMDTAG_CREATE_ROLE, CMDTAG_CREATE_SCHEMA, CMDTAG_CREATE_TABLE,
      CMDTAG_CREATE_TABLE_AS, CMDTAG_CREATE_SEQUENCE, CMDTAG_CREATE_FUNCTION, CMDTAG_CREATE_PROCEDURE,
      CMDTAG_CREATE_DOMAIN, CMDTAG_CREATE_TYPE, CMDTAG_CREATE_VIEW, CMDTAG_CREATE_INDEX,
      CMDTAG_CREATE_CONSTRAINT, CMDTAG_CREATE_TRIGGER, CMDTAG_ALTER_DATABASE, CMDTAG_ALTER_ROLE,
      CMDTAG_ALTER_SCHEMA, CMDTAG_ALTER_TABLE, CMDTAG_ALTER_SEQUENCE, CMDTAG_ALTER_VIEW,
      CMDTAG_ALTER_INDEX, CMDTAG_ALTER_SYSTEM, CMDTAG_ALTER_CONSTRAINT, CMDTAG_ALTER_TRIGGER,
      CMDTAG_COMMENT, CMDTAG_DROP_DATABASE, CMDTAG_DROP_ROLE, CMDTAG_DROP_SCHEMA, CMDTAG_DROP_TABLE,
      CMDTAG_DROP_DOMAIN, CMDTAG_DROP_TYPE, CMDTAG_DROP_VIEW, CMDTAG_DROP_INDEX, CMDTAG_DROP_CONSTRAINT,
      CMDTAG_DROP_FUNCTION, CMDTAG_DROP_PROCEDURE, CMDTAG_DROP_SEQUENCE, CMDTAG_DROP_TRIGGER,
      CMDTAG_SELECT_INTO]"

definition end_trx :: "session \<Rightarrow> session" where
  "end_trx s = (if autoCommit s = 0 then s \<lparr> needStartNewTrx := True \<rparr> else s) \<lparr> trxNotCommit := False \<rparr>"

definition end_begin :: "session \<Rightarrow> bool sio" where
  "end_begin s =
     andThen (let s1 = s \<lparr> inTransactionFlag := 1 \<rparr> in
              if \<not> addBeforeBeforeCurSQL s then sendOKPacket s1
              else (Inr True, s1 \<lparr> addBeforeBeforeCurSQL := False \<rparr>))
       (\<lambda>r s2. (Inr r, s2 \<lparr> needStartNewTrx := False, trxNotCommit := True \<rparr>))"

definition end_commit :: "nat \<Rightarrow> session \<Rightarrow> bool sio" where
  "end_commit nprocessed s =
     andThen (let s1 = s \<lparr> inTransactionFlag := 0 \<rparr> in
              if \<not> addCommitOrRollBackBeforeCurSQL s then sendOKPacket (s1 \<lparr> affectedRows := int nprocessed \<rparr>)
              else (Inr True, s1 \<lparr> addCommitOrRollBackBeforeCurSQL := False \<rparr>))
       (\<lambda>r s2. (Inr r, end_trx s2))"

definition end_rollback :: "session \<Rightarrow> bool sio" where
  "end_rollback s =
     andThen (let s1 = s \<lparr> inTransactionFlag := 0 \<rparr> in
              if \<not> addCommitOrRollBackBeforeCurSQL s
              then (if \<not> isResetConnStmt s then sendOKPacket s1 else (Inr True, s1))
              else (Inr True, s1 \<lparr> addCommitOrRollBackBeforeCurSQL := False \<rparr>))
       (\<lambda>r s2. (Inr r, end_trx s2 \<lparr> needAddCommitOrRollbackAfterCurSQL := 1 \<rparr>))"

definition end_set :: "nat \<Rightarrow> session \<Rightarrow> bool sio" where
  "end_set nprocessed s =
     andThen
       (if setUserSystemVar s = 0 then
          sendOKPacket (s \<lparr> sessionStateChanged := 0, affectedRows := int nprocessed \<rparr>)
        else if setUserSystemVar s = 1 then
          sendOKPacket (s \<lparr> sessionStateChanged :=
            if isSsTrackStateChangeOn s \<or> inSsTrackSystemVariables s then 0x4000 else 0, sessionStateType := 0 \<rparr>)
        else
          sendOKPacket (s \<lparr> sessionStateChanged :=
            if isSsTrackStateChangeOn s \<or> isSsTrackSchemaOn s then 0x4000 else 0, sessionStateType := 1 \<rparr>))
       (\<lambda>r s1. (Inr r, s1 \<lparr> sessionStateChanged := 0 \<rparr>))"

definition endCommand :: "CommandTag \<Rightarrow> nat \<Rightarrow> session \<Rightarrow> bool sio" where
  "endCommand tag nprocessed s =
     (if tag = CMDTAG_EXECUTE then
        andThen (sendEOFPacketFlush s) (\<lambda>r s1. (Inr r, s1 \<lparr> isExtendExeStmt := False \<rparr>))
      else if tag = CMDTAG_SELECT then
        sendEOFPacketFlush (s \<lparr> foundRows := nprocessed, affectedRows := -1 \<rparr>)
      else if tag \<in> {CMDTAG_INSERT, CMDTAG_UPDATE, CMDTAG_DELETE} then
        sendOKPacket (s \<lparr> foundRows := 1, affectedRows := int nprocessed \<rparr>)
      else if tag = CMDTAG_BEGIN then end_begin s
      else if tag = CMDTAG_COMMIT then end_commit nprocessed s
      else if tag = CMDTAG_ROLLBACK then end_rollback s
      else if tag = CMDTAG_PREPARE then
        (if isExtendPreStmt s then endExtendPreStmt (s \<lparr> isExtendPreStmt := False \<rparr>) else endNormalPreStmt s)
      else if tag = CMDTAG_DEALLOCATE then
        (if isExtendCloseStmt s then (Inr True, s \<lparr> isExtendCloseStmt := False \<rparr>)
         else sendOKPacket (s \<lparr> affectedRows := int nprocessed \<rparr>))
      else if tag = CMDTAG_DEALLOCATE_ALL then sendOKPacket (s \<lparr> isResetConnStmt := False \<rparr>)
      else if tag \<in> {CMDTAG_TRUNCATE_TABLE, CMDTAG_SAVEPOINT, CMDTAG_RELEASE, CMDTAG_START_TRANSACTION} then
        sendOKPacket (s \<lparr> affectedRows := int nprocessed \<rparr>)
      else if tag = CMDTAG_CALL then sendOKPacket s
      else if tag = CMDTAG_SET then end_set nprocessed s
      else if tag \<in> set object_tags then
        (if 0 < preOrPostSQLNum s then (Inr True, s \<lparr> preOrPostSQLNum := preOrPostSQLNum s - 1 \<rparr>)
         else sendOKPacket (s \<lparr> affectedRows := int nprocessed \<rparr>))
      else sendEOFPacketFlush s)"

section \<open>The autocommit variable\<close>

text \<open>\<open>SET autocommit\<close>: the first branch of \<open>applySystemVarValue\<close> in
  \<open>src/backend/adapter/mysql/systemVar.c\<close>.\<close>

definition applyAutocommit :: "bytes \<Rightarrow> session \<Rightarrow> session" where
  "applyAutocommit v s =
     (if strncaseeq v ''1'' 1 \<or> strncaseeq v ''on'' 2 then
        s \<lparr> needCommitTrx := (autoCommit s = 0), needStartNewTrx := False, autoCommit := 2 \<rparr>
      else s \<lparr> needCommitTrx := False, needStartNewTrx := (autoCommit s \<noteq> 0), autoCommit := 0 \<rparr>)"

section \<open>One step of the main loop\<close>

definition ERRCODE_INTERNAL_ERROR :: int where "ERRCODE_INTERNAL_ERROR = MAKE_SQLSTATE ''XX000''"
definition ERRCODE_PROGRAM_LIMIT_EXCEEDED :: int where "ERRCODE_PROGRAM_LIMIT_EXCEEDED = MAKE_SQLSTATE ''54000''"

text \<open>The code and message of the faults that are errors of the server, raised by \<open>elog(ERROR)\<close> or
  \<open>ereport(ERROR)\<close>; the others end the process.  The size of a refused
  enlargement is not part of the fault.  The message for a first packet that is too large, whose
  length is below \<open>2 ^ 24\<close>, is broken over two source lines inside the literal.\<close>

definition tooLargeMessage :: "nat \<Rightarrow> nat \<Rightarrow> bytes" where
  "tooLargeMessage max_allowed n =
     ''The length of payload('' @ show_nat n @ '') from client bigger than''
     @ (if n \<le> SINGLE_PACKET_MAX_PAYLOAD_LENGTH then replicate 13 (CHR '' '') else '' '')
     @ [CHR 0x27] @ ''max_allowed_packet('' @ show_nat max_allowed @ '')'' @ [CHR 0x27]
     @ '' bytes. Connection will be disconnect.''"

definition elogError :: "env \<Rightarrow> fault \<Rightarrow> (int \<times> bytes) option" where
  "elogError e f =
     (case f of
        BadSequence expected n \<Rightarrow> Some (ERRCODE_INTERNAL_ERROR,
          ''The packet sequence number from client is error, except '' @ show_int expected @ '' get '' @ show_nat n @ ''.'')
      | PacketTooLarge n \<Rightarrow> Some (ERRCODE_INTERNAL_ERROR, tooLargeMessage (max_allowed_packet e) n)
      | ClientDisconnectRead \<Rightarrow> Some (ERRCODE_INTERNAL_ERROR, ''Client has disconnect when read.'')
      | ClientDisconnectWrite \<Rightarrow> Some (ERRCODE_INTERNAL_ERROR, ''Client has disconnect when write.'')
      | OutOfMemory \<Rightarrow> Some (ERRCODE_PROGRAM_LIMIT_EXCEEDED, ''out of memory'')
      | InvalidEnlarge \<Rightarrow> Some (ERRCODE_INTERNAL_ERROR, ''invalid string enlargement request size'')
      | PgError m \<Rightarrow> Some (ERRCODE_INTERNAL_ERROR, m)
      | _ \<Rightarrow> None)"

text \<open>The handler at the top of \<open>PostgresMain\<close>: it reports the error and the loop goes on.  The handler
  of the MySQL protocol has no \<open>is_reading_msg\<close>, so that this holds for errors raised while a message is
  read too.\<close>

definition reportError :: "env \<Rightarrow> bool sio \<Rightarrow> bool sio" where
  "reportError e r =
     (case r of
        (Inr x, s) \<Rightarrow> (Inr x, s)
      | (Inl f, s) \<Rightarrow>
          (case elogError e f of
             Some (code, msg) \<Rightarrow> sendErrorMessage code msg s
           | None \<Rightarrow> (Inl f, s)))"

fun endCommands :: "(CommandTag \<times> nat) list \<Rightarrow> session \<Rightarrow> bool sio" where
  "endCommands [] s = (Inr True, s)"
| "endCommands ((tag, n) # qcs) s = andThen (endCommand tag n s) (\<lambda>_. endCommands qcs)"

text \<open>\<open>server\<close>: the completions of the statements of a query string, and the error, with its code and
  message, that ended it if there was one.\<close>

type_synonym server = "bytes \<Rightarrow> session \<Rightarrow> (CommandTag \<times> nat) list \<times> (int \<times> bytes) option"

definition simpleQuery :: "server \<Rightarrow> bytes \<Rightarrow> session \<Rightarrow> bool sio" where
  "simpleQuery server query s =
     (case server query s of
        (qcs, err) \<Rightarrow>
          andThen (endCommands qcs s) (\<lambda>_ s1.
            case err of None \<Rightarrow> (Inr True, s1) | Some (code, msg) \<Rightarrow> sendErrorMessage code msg s1))"

text \<open>One iteration; the result is whether the loop goes on.  A command byte of 255 is the value \<open>EOF\<close>.\<close>

definition mainStep :: "env \<Rightarrow> server \<Rightarrow> session \<Rightarrow> bool sio" where
  "mainStep e server s =
     reportError e (andThen (readCommand e initStringInfo s) (\<lambda>(firstChar, inBuf1) s1.
       if firstChar = -1 then (Inr False, s1)
       else
         andThen (processCommand e firstChar inBuf1 s1) (\<lambda>(ret, firstChar1, inBuf2) s2.
           if ret = 1 then (Inr True, s2)
           else if firstChar1 = HALO_REQ_QUERY then simpleQuery server (stmt_at inBuf2) s2
           else (Inr False, s2))))"

text \<open>The loop for at most so many iterations: \<open>None\<close> if it is still running.\<close>

fun mainLoop :: "nat \<Rightarrow> env \<Rightarrow> server \<Rightarrow> session \<Rightarrow> (fault + unit) option \<times> session" where
  "mainLoop 0 e server s = (None, s)"
| "mainLoop (Suc n) e server s =
     (case mainStep e server s of
        (Inl f, s1) \<Rightarrow> (Some (Inl f), s1)
      | (Inr False, s1) \<Rightarrow> (Some (Inr ()), s1)
      | (Inr True, s1) \<Rightarrow> mainLoop n e server s1)"

end
