(* ===== verification/SessionTrx.thy ===== *)
theory SessionTrx
  imports Session
begin

text \<open>
  The transaction state of a session, over every history of commands, completions and errors: the
  operations of \<open>Session.thy\<close> keep it except for the completions BEGIN, COMMIT and ROLLBACK, and the
  statements added in front of the client's.
\<close>

section \<open>The transaction state\<close>

text \<open>What the operations keep: the transaction state is changed by completions only.\<close>

named_theorems keeps \<open>operations that keep the transaction state\<close>

definition trx :: "session \<Rightarrow> int \<times> bool" where
  "trx s = (inTransactionFlag s, trxNotCommit s)"

definition keeps_trx :: "session \<Rightarrow> 'a sio \<Rightarrow> bool" where
  "keeps_trx s r \<longleftrightarrow> trx (snd r) = trx s"

lemma keeps_andThen [keeps]:
  assumes "keeps_trx s m" "\<And>x s'. m = (Inr x, s') \<Longrightarrow> trx s' = trx s \<Longrightarrow> keeps_trx s (f x s')"
  shows "keeps_trx s (andThen m f)"
  using assms by (cases m rule: prod.exhaust; cases "fst m") (auto simp: keeps_trx_def)

lemma keeps_pair [simp]: "keeps_trx s (r, s') \<longleftrightarrow> trx s' = trx s"
  by (simp add: keeps_trx_def)

lemma keeps_on_net [keeps]: "trx s' = trx s \<Longrightarrow> keeps_trx s (on_net f s')"
  by (simp add: keeps_trx_def on_net_def trx_def split: prod.split)

lemma keeps_if [keeps]: "(b \<Longrightarrow> keeps_trx s m) \<Longrightarrow> (\<not> b \<Longrightarrow> keeps_trx s m') \<Longrightarrow> keeps_trx s (if b then m else m')"
  by simp

lemma trx_simps [simp]:
  "trx (s \<lparr> warnErrCode := c \<rparr>) = trx s" "trx (s \<lparr> serverStatus := i \<rparr>) = trx s"
  "trx (s \<lparr> warnErrMsg := m \<rparr>) = trx s" "trx (s \<lparr> affectedRows := i \<rparr>) = trx s"
  "trx (s \<lparr> skipUtf8Verify := b \<rparr>) = trx s" "trx (s \<lparr> preStmtInfoes := ps \<rparr>) = trx s"
  "trx (s \<lparr> addBeforeBeforeCurSQL := b \<rparr>) = trx s" "trx (s \<lparr> addCommitOrRollBackBeforeCurSQL := b \<rparr>) = trx s"
  "trx (s \<lparr> needCommitTrx := b \<rparr>) = trx s" "trx (s \<lparr> needStartNewTrx := b \<rparr>) = trx s"
  "trx (s \<lparr> isExtendPreStmt := b \<rparr>) = trx s" "trx (s \<lparr> isExtendExeStmt := b \<rparr>) = trx s"
  "trx (s \<lparr> isExtendCloseStmt := b \<rparr>) = trx s" "trx (s \<lparr> isResetConnStmt := b \<rparr>) = trx s"
  "trx (s \<lparr> curExtendPreStmtId := n \<rparr>) = trx s" "trx (s \<lparr> needAddCommitOrRollbackAfterCurSQL := i \<rparr>) = trx s"
  "trx (s \<lparr> sessionStateChanged := i \<rparr>) = trx s" "trx (s \<lparr> sessionStateType := i \<rparr>) = trx s"
  "trx (s \<lparr> foundRows := n \<rparr>) = trx s" "trx (s \<lparr> preOrPostSQLNum := i \<rparr>) = trx s"
  "trx (s \<lparr> moreResultsFlag := i \<rparr>) = trx s" "trx (s \<lparr> warnings := i \<rparr>) = trx s"
  "trx (s \<lparr> lastInsertIDForPacket := n \<rparr>) = trx s" "trx (s \<lparr> setUserSystemVar := i \<rparr>) = trx s"
  "trx (s \<lparr> systemVarVal := v \<rparr>) = trx s" "trx (s \<lparr> autoCommit := i \<rparr>) = trx s"
  "trx (s \<lparr> lastInsertID := n \<rparr>) = trx s" "trx (s \<lparr> preStmtInfoNum := n \<rparr>) = trx s"
  "trx (s \<lparr> mysql_user_variables := t \<rparr>) = trx s" "trx (s \<lparr> s_net := net \<rparr>) = trx s"
  "trx (clear_track s) = trx s"
  by (simp_all add: trx_def clear_track_def)

lemma keeps_sendOKPacket [keeps]: "trx s' = trx s \<Longrightarrow> keeps_trx s (sendOKPacket s')"
  unfolding sendOKPacket_def assembleOKPacketPayload_def Let_def
  by (auto intro!: keeps split: option.split)

lemma keeps_sendEOFPacket [keeps]: "trx s' = trx s \<Longrightarrow> keeps_trx s (sendEOFPacket fl s')"
  unfolding sendEOFPacket_def Let_def by (auto intro!: keeps split: option.split)

lemma keeps_sendErrPacket [keeps]: "trx s' = trx s \<Longrightarrow> keeps_trx s (sendErrPacket c m st s')"
  unfolding sendErrPacket_def Let_def by (auto intro!: keeps)

lemmas keeps_send_defs = sendEOFPacketFlush_def sendEOFPacketNoFlush_def sendUnsupportError_def simulateShowFieldsReturn_def
  endNormalPreStmt_def sendOKPacketSpecialInfo_def

lemma keeps_EOFNoFlush [keeps]: "trx s' = trx s \<Longrightarrow> keeps_trx s (sendEOFPacketNoFlush s')"
  unfolding keeps_send_defs by (auto intro!: keeps)

lemma keeps_simulate [keeps]:
  "trx s' = trx s \<Longrightarrow> keeps_trx s (simulateShowGrants s')"
  "trx s' = trx s \<Longrightarrow> keeps_trx s (simulateShowWarnErrReturn s')"
  unfolding simulateShowGrants_def simulateShowWarnErrReturn_def sendEOFPacketFlush_def
  by (auto intro!: keeps)

lemma keeps_maint [keeps]:
  "trx s' = trx s \<Longrightarrow> keeps_trx s (simulateChecksumTable db stmt s')"
  "trx s' = trx s \<Longrightarrow> keeps_trx s (simulateAnalyzeCheckOptimizeRepairTable db stmt s')"
  unfolding simulateChecksumTable_def simulateAnalyzeCheckOptimizeRepairTable_def simulateMaint_def sendEOFPacketFlush_def
  by (auto intro!: keeps split: sum.split option.split)

lemma keeps_rectify [keeps]: "trx s' = trx s \<Longrightarrow> keeps_trx s (rectifyCommand v b s')"
  unfolding rectifyCommand_def by (auto intro!: keeps split: sum.split)

lemma keeps_put_stmt [keeps]: "trx s' = trx s \<Longrightarrow> keeps_trx s (put_stmt t b s')"
  unfolding put_stmt_def by (auto split: option.split)

lemma keeps_rewrite [keeps]:
  "trx s' = trx s \<Longrightarrow> keeps_trx s (rewriteExtendPreStmt b s')"
  "trx s' = trx s \<Longrightarrow> keeps_trx s (rewriteExtendCloseStmt b s')"
  "trx s' = trx s \<Longrightarrow> keeps_trx s (resetConnection b s')"
  unfolding rewriteExtendPreStmt_def rewriteExtendPreStmt_impl_def cacheExtendPreStmt_def rewriteExtendCloseStmt_def
    resetConnection_def
  by (auto simp: Let_def intro!: keeps split: option.split sum.split prod.split)

lemma keeps_execute [keeps]: "trx s' = trx s \<Longrightarrow> keeps_trx s (rewriteExtendExeStmt fmt b s')"
  unfolding rewriteExtendExeStmt_def rewriteExtendExeStmt_impl_def
  by (auto simp: Let_def intro!: keeps split: option.split sum.split sqlReadWriteType.split)

lemma keeps_endExtendPreStmt [keeps]: "trx s' = trx s \<Longrightarrow> keeps_trx s (endExtendPreStmt s')"
  unfolding endExtendPreStmt_def send_defs_def sendEOFPacketFlush_def by (auto simp: Let_def intro!: keeps)

lemma keeps_prepend [keeps]:
  "trx s' = trx s \<Longrightarrow> (\<And>b s1. trx s1 = trx s \<Longrightarrow> keeps_trx s (f b s1)) \<Longrightarrow> keeps_trx s (prepend q b f s')"
  unfolding prepend_def Let_def by (auto split: option.split)

lemma keeps_addAdditionalSQL [keeps]: "trx s' = trx s \<Longrightarrow> keeps_trx s (addAdditionalSQL b s')"
  unfolding addAdditionalSQL_def by (auto intro!: keeps)

lemma keeps_results [keeps]:
  "trx s' = trx s \<Longrightarrow> keeps_trx s (forwarded b s')"
  "trx s' = trx s \<Longrightarrow> keeps_trx s (forwardWithSQL b s')"
  "keeps_trx s r \<Longrightarrow> keeps_trx s (answered fc b r)"
  "keeps_trx s r \<Longrightarrow> keeps_trx s (answeredClear fc b r)"
  "trx s' = trx s \<Longrightarrow> keeps_trx s (sendSyntaxError t s')"
  "keeps_trx s r \<Longrightarrow> keeps_trx s (process_maint fc b t r)"
  unfolding forwarded_def forwardWithSQL_def answered_def answeredClear_def sendSyntaxError_def process_maint_def
  by (auto intro!: keeps)

lemma keeps_put_systemVarVal: "put_systemVarVal d p n s' = Some s1 \<Longrightarrow> trx s1 = trx s'"
  by (auto simp: put_systemVarVal_def split: if_splits)

lemma keeps_queries [keeps]:
  assumes "trx s' = trx s"
  shows "keeps_trx s (query_empty fc b s')" "keeps_trx s (process_begin b s')" "keeps_trx s (process_use fc b len s')"
    "keeps_trx s (process_show fc b s')" "keeps_trx s (process_alter fc b s')" "keeps_trx s (process_semicolon fc l b len s')"
proof -
  show q: "keeps_trx s (query_empty fc b s')" for fc b
    unfolding query_empty_def by (intro keeps assms)
  show "keeps_trx s (process_begin b s')"
    unfolding process_begin_def by (intro keeps) (simp_all add: assms)
  show "keeps_trx s (process_use fc b len s')"
    unfolding process_use_def using assms keeps_put_systemVarVal
    by (auto intro!: keeps simp del: not_le split: option.split)
  show "keeps_trx s (process_show fc b s')" "keeps_trx s (process_alter fc b s')"
    unfolding process_show_def process_alter_def Let_def
    by (cases "skipSpaces (si_data b) (si_offset b + 5)"; cases "skipSpaces (si_data b) (si_offset b + 6)";
        simp only: sum.case; (intro keeps)?; simp add: assms)+
  show "keeps_trx s (process_semicolon fc l b len s')"
    unfolding process_semicolon_def Let_def by (intro keeps q) (simp_all add: assms)
qed

lemma keeps_dispatch [keeps]:
  assumes "trx s' = trx s" shows "keeps_trx s (dispatchQuery e fc l b len s')"
  unfolding dispatchQuery_def Let_def by (intro keeps; simp only: trx_simps assms)

lemma keeps_processQuery [keeps]:
  assumes "trx s' = trx s" shows "keeps_trx s (processQuery e fc b s')"
  unfolding processQuery_def Let_def
  by (rule keeps_andThen [OF keeps_rectify [OF assms]])
    (auto intro!: keeps simp del: not_le split: sum.split prod.split)

lemma keeps_processPrepare [keeps]:
  assumes "trx s' = trx s" shows "keeps_trx s (processPrepare e fc b s')"
  unfolding processPrepare_def
  by (rule keeps_andThen [OF keeps_rectify [OF assms]]) (auto intro!: keeps split: prod.split)

lemma keeps_processUseDatabase [keeps]:
  assumes "trx s' = trx s" shows "keeps_trx s (processUseDatabase fc b s')"
  unfolding processUseDatabase_def Let_def using assms keeps_put_systemVarVal
  by (auto intro!: keeps simp del: not_le split: option.split)

lemma keeps_processCommand:
  assumes "trx s' = trx s" shows "keeps_trx s (processCommand e fc b s')"
  unfolding processCommand_def Let_def keeps_send_defs
  by (intro keeps; auto intro!: keeps simp: assms split: prod.split)

subsection \<open>Histories\<close>

text \<open>A history of a session: the commands it processes, the completions and errors the server reports,
  and the assignments to \<open>autocommit\<close>, in any order; the list collects the tags of the completions.\<close>

inductive history :: "env \<Rightarrow> session \<Rightarrow> CommandTag list \<Rightarrow> session \<Rightarrow> bool" for e where
  start: "history e s [] s"
| command: "history e s0 tags s \<Longrightarrow> processCommand e fc b s = (Inr r, s') \<Longrightarrow> history e s0 tags s'"
| rejected: "history e s0 tags s \<Longrightarrow> processCommand e fc b s = (Inl (PgError m), s') \<Longrightarrow> history e s0 tags s'"
| complete: "history e s0 tags s \<Longrightarrow> endCommand tag n s = (Inr r, s') \<Longrightarrow> history e s0 (tags @ [tag]) s'"
| failed: "history e s0 tags s \<Longrightarrow> sendErrorMessage c m s = (Inr r, s') \<Longrightarrow> history e s0 tags s'"
| autocommit: "history e s0 tags s \<Longrightarrow> history e s0 tags (applyAutocommit v s)"

text \<open>The transaction automaton of the tags.\<close>

definition trx_tag :: "CommandTag \<Rightarrow> bool \<Rightarrow> bool" where
  "trx_tag tag open_trx =
     (if tag = CMDTAG_BEGIN then True else if tag = CMDTAG_COMMIT \<or> tag = CMDTAG_ROLLBACK then False else open_trx)"

definition trx_tracks :: "session \<Rightarrow> bool \<Rightarrow> bool" where
  "trx_tracks s b \<longleftrightarrow> trx s = (if b then 1 else 0, b)"

lemma trx_tracks_cong: "trx s' = trx s \<Longrightarrow> trx_tracks s' b = trx_tracks s b"
  by (simp add: trx_tracks_def)

lemma keeps_tracks: "keeps_trx s r \<Longrightarrow> r = (x, s') \<Longrightarrow> trx_tracks s' b = trx_tracks s b"
  by (simp add: trx_tracks_def)

lemma keeps_sendErrorMessage [keeps]: "trx s' = trx s \<Longrightarrow> keeps_trx s (sendErrorMessage c m s')"
  unfolding sendErrorMessage_def Let_def by (intro keeps) simp_all

lemma keeps_end_set [keeps]: "keeps_trx s (end_set n s)"
  unfolding end_set_def by (intro keeps) simp_all

lemma keeps_endCommand:
  assumes "tag \<noteq> CMDTAG_BEGIN" "tag \<noteq> CMDTAG_COMMIT" "tag \<noteq> CMDTAG_ROLLBACK"
  shows "keeps_trx s (endCommand tag n s)"
  unfolding endCommand_def keeps_send_defs
  by (simp only: assms if_False) (intro keeps, simp_all only: keeps_pair trx_simps)

lemma andThen_Inr_E:
  assumes "andThen m f = (Inr y, s')"
  obtains x s1 where "m = (Inr x, s1)" "f x s1 = (Inr y, s')"
  using assms by (cases m rule: prod.exhaust; cases "fst m") auto

lemma end_begin_trx: "end_begin s = (Inr r, s') \<Longrightarrow> trx s' = (1, True)"
proof (unfold end_begin_def Let_def, erule andThen_Inr_E)
  let ?s = "s \<lparr> inTransactionFlag := 1 \<rparr>"
  let ?m = "if \<not> addBeforeBeforeCurSQL s then sendOKPacket ?s else (Inr True, ?s \<lparr> addBeforeBeforeCurSQL := False \<rparr>)"
  fix x s1
  have "keeps_trx ?s ?m" by (intro keeps; simp)
  moreover assume m: "?m = (Inr x, s1)" and s': "(Inr x, s1 \<lparr> needStartNewTrx := False, trxNotCommit := True \<rparr>) = (Inr r, s')"
  ultimately have "inTransactionFlag s1 = 1" unfolding m keeps_pair by (simp add: trx_def)
  then show "trx s' = (1, True)" using s' by (auto simp: trx_def)
qed

lemma trx_end_trx: "trx (end_trx s) = (inTransactionFlag s, False)"
  by (simp add: end_trx_def trx_def)

lemma end_commit_trx: "end_commit n s = (Inr r, s') \<Longrightarrow> trx s' = (0, False)"
proof (unfold end_commit_def Let_def, erule andThen_Inr_E)
  let ?s = "s \<lparr> inTransactionFlag := 0 \<rparr>"
  let ?m = "if \<not> addCommitOrRollBackBeforeCurSQL s then sendOKPacket (?s \<lparr> affectedRows := int n \<rparr>)
            else (Inr True, ?s \<lparr> addCommitOrRollBackBeforeCurSQL := False \<rparr>)"
  fix x s1
  have "keeps_trx ?s ?m" by (intro keeps; simp)
  moreover assume m: "?m = (Inr x, s1)" and s': "(Inr x, end_trx s1) = (Inr r, s')"
  ultimately have "inTransactionFlag s1 = 0" unfolding m keeps_pair by (simp add: trx_def)
  then show "trx s' = (0, False)" using s' trx_end_trx [of s1] by simp
qed

lemma end_rollback_trx: "end_rollback s = (Inr r, s') \<Longrightarrow> trx s' = (0, False)"
proof (unfold end_rollback_def Let_def, erule andThen_Inr_E)
  let ?s = "s \<lparr> inTransactionFlag := 0 \<rparr>"
  let ?m = "if \<not> addCommitOrRollBackBeforeCurSQL s
            then (if \<not> isResetConnStmt s then sendOKPacket ?s else (Inr True, ?s))
            else (Inr True, ?s \<lparr> addCommitOrRollBackBeforeCurSQL := False \<rparr>)"
  fix x s1
  have "keeps_trx ?s ?m" by (intro keeps; simp)
  moreover assume m: "?m = (Inr x, s1)"
    and s': "(Inr x, end_trx s1 \<lparr> needAddCommitOrRollbackAfterCurSQL := 1 \<rparr>) = (Inr r, s')"
  ultimately have "inTransactionFlag s1 = 0" unfolding m keeps_pair by (simp add: trx_def)
  moreover have "trx s' = trx (end_trx s1)" using s' trx_simps(16) by blast
  ultimately show "trx s' = (0, False)" using trx_end_trx [of s1] by simp
qed

lemma endCommand_trx:
  assumes "endCommand tag n s = (Inr r, s')" "trx_tracks s b"
  shows "trx_tracks s' (trx_tag tag b)"
proof -
  consider "tag = CMDTAG_BEGIN" | "tag = CMDTAG_COMMIT" | "tag = CMDTAG_ROLLBACK"
    | "tag \<noteq> CMDTAG_BEGIN" "tag \<noteq> CMDTAG_COMMIT" "tag \<noteq> CMDTAG_ROLLBACK" by blast
  then show ?thesis
  proof cases
    case 1
    then show ?thesis using assms end_begin_trx [of s r s'] by (simp add: endCommand_def trx_tracks_def trx_tag_def)
  next
    case 2
    then show ?thesis using assms end_commit_trx [of n s r s'] by (simp add: endCommand_def trx_tracks_def trx_tag_def)
  next
    case 3
    then show ?thesis using assms end_rollback_trx [of s r s'] by (simp add: endCommand_def trx_tracks_def trx_tag_def)
  next
    case 4
    then show ?thesis using assms keeps_tracks [OF keeps_endCommand [OF 4]] by (simp add: trx_tag_def)
  qed
qed

text \<open>C3. The transaction state of the adapter is that of the completions the server reported: whatever
  the client sends, whatever fails and however \<open>autocommit\<close> is changed, the flag reported to the client and
  the internal flag both say that a transaction is open exactly if the last of the completions BEGIN, COMMIT
  and ROLLBACK was a BEGIN.  A START TRANSACTION does not count: it opens a transaction the adapter does not
  know of.\<close>

theorem transaction_state:
  assumes "history e (init_session caps n) tags s"
  shows "trx_tracks s (fold trx_tag tags False)"
  using assms
proof (induction "init_session caps n" tags s rule: history.induct)
  case start
  show ?case by (simp add: trx_tracks_def trx_def init_session_def)
next
  case (command tags s fc b r s')
  then show ?case using keeps_tracks [OF keeps_processCommand [OF refl]] by blast
next
  case (rejected tags s fc b m s')
  then show ?case using keeps_tracks [OF keeps_processCommand [OF refl]] by blast
next
  case (complete tags s tag n r s')
  then show ?case using endCommand_trx by simp
next
  case (failed tags s c m r s')
  then show ?case using keeps_tracks [OF keeps_sendErrorMessage [OF refl]] by blast
next
  case (autocommit tags s v)
  then show ?case using trx_tracks_cong [of "applyAutocommit v s" s] by (simp add: applyAutocommit_def)
qed

definition plain_env :: env where
  "plain_env = \<lparr> halo_mysql_version = ''5.7.32'', database_name = ''shop'', show_double = (\<lambda>_. ''0''),
     max_allowed_packet = 67108864 \<rparr>"

definition plain :: session where
  "plain = init_session 512 (initNetTransceiver [] [])"

text \<open>A session whose answers reach the client; it depends on the connection and the tracking state.\<close>

definition can_answer :: "session \<Rightarrow> bool" where
  "can_answer s \<longleftrightarrow> sess_ready s \<and> strings_fit s \<and> no_track_overflow s"

definition answer_view where
  "answer_view s = (s_net s, frontEndCaps s, sessionTrackInfo s, systemVarName s, systemVarVal s, warnErrMsg s,
     sessionStateChanged s, sessionStateType s, inSsTrackSystemVariables s, isSsTrackSchemaOn s, isSsTrackStateChangeOn s)"

lemma answer_view_fields:
  assumes "answer_view s' = answer_view s"
  shows "s_net s' = s_net s" "frontEndCaps s' = frontEndCaps s" "sessionTrackInfo s' = sessionTrackInfo s"
    "systemVarName s' = systemVarName s" "systemVarVal s' = systemVarVal s" "warnErrMsg s' = warnErrMsg s"
    "sessionStateChanged s' = sessionStateChanged s" "sessionStateType s' = sessionStateType s"
    "inSsTrackSystemVariables s' = inSsTrackSystemVariables s" "isSsTrackSchemaOn s' = isSsTrackSchemaOn s"
    "isSsTrackStateChangeOn s' = isSsTrackStateChangeOn s"
  using assms by (simp_all add: answer_view_def)

lemma sessionTrackBlock_cong:
  assumes "answer_view s' = answer_view s" shows "sessionTrackBlock s' = sessionTrackBlock s"
  unfolding sessionTrackBlock_def sessionStateInfo_def trackedData_def dataOfTheChangedSessionInfo_def sessionStateKind_def
    answer_view_fields [OF assms] ..

lemma can_answer_cong:
  assumes "answer_view s' = answer_view s" shows "can_answer s' = can_answer s"
  unfolding can_answer_def sess_ready_def strings_fit_def no_track_overflow_def has_cap_def
    answer_view_fields [OF assms] sessionTrackBlock_cong [OF assms] ..

lemma plain_can_answer: "can_answer plain"
  using plain_session by (simp add: can_answer_def plain_def)

lemma sendOKPacket_succeeds:
  assumes "can_answer s"
  shows "\<exists>n. sendOKPacket s = (Inr True, (clear_track (s \<lparr> serverStatus := status_word s \<rparr>)) \<lparr> s_net := n \<rparr>)
     \<and> tx_ready n \<and> sent n = wire n
     \<and> (\<exists>p. wire n = wire (s_net s) @ frames (netPacketSeqID (s_net s)) (le_enc 1 0 @ p))"
proof -
  obtain p where "assembleOKEOFCommonPacketPayload s (status_word s) (warnings s) = Some p"
    using common_Some [of s "status_word s" "warnings s"] assms
    by (auto simp: can_answer_def no_track_overflow_def split: if_splits)
  then show ?thesis using sendOKPacket_delivers assms unfolding can_answer_def by blast
qed

lemma begin_succeeds:
  assumes "can_answer s"
  shows "\<exists>s'. endCommand CMDTAG_BEGIN n s = (Inr True, s')"
proof -
  have "can_answer (s \<lparr> inTransactionFlag := 1 \<rparr>)"
    using assms can_answer_cong [of "s \<lparr> inTransactionFlag := 1 \<rparr>" s] by (simp add: answer_view_def)
  then show ?thesis using sendOKPacket_succeeds by (fastforce simp: endCommand_def end_begin_def Let_def)
qed

lemma sendErr_succeeds:
  assumes "sess_ready s"
  shows "\<exists>s'. sendErrPacket c m st s = (Inr True, s')"
proof -
  let ?s = "s \<lparr> warnErrCode := convertErrorCode (haloMysqlErrorCodes s) c, warnErrMsg := take 1023 m \<rparr>"
  have "short_payload (assembleErrorPacketPayload ?s c' st m)" for c'
    by (simp add: assembleErrorPacketPayload_def short_payload_def min_def)
  moreover have "sess_ready ?s" using assms by (simp add: sess_ready_def)
  ultimately show ?thesis
    using on_net_sendInPlace [of ?s _ True] by (fastforce simp: sendErrPacket_def Let_def)
qed

lemma sendErrorMessage_succeeds:
  assumes "sess_ready s" "\<not> isIgnoreStmt s" shows "\<exists>s'. sendErrorMessage c m s = (Inr True, s')"
proof -
  have "sess_ready (s \<lparr> affectedRows := -1 \<rparr>)" using assms(1) by (simp add: sess_ready_def)
  then obtain s' where "sendErrPacket c m ''HY000'' (s \<lparr> affectedRows := -1 \<rparr>) = (Inr True, s')"
    using sendErr_succeeds by blast
  then show ?thesis using assms(2) by (simp add: sendErrorMessage_def Let_def)
qed

theorem transaction_state_witness:
  "\<exists>s. history plain_env plain [CMDTAG_BEGIN] s \<and> trx_tracks s True"
proof -
  obtain s where "endCommand CMDTAG_BEGIN 0 plain = (Inr True, s)"
    using begin_succeeds [OF plain_can_answer] by blast
  then have h: "history plain_env (init_session 512 (initNetTransceiver [] [])) [CMDTAG_BEGIN] s"
    using history.complete [OF history.start, of CMDTAG_BEGIN 0 plain True s plain_env] by (simp add: plain_def)
  show ?thesis using h transaction_state [OF h] by (auto simp: plain_def trx_tag_def)
qed

section \<open>Statements added in front of the client's\<close>

lemma drop_overwrite_here: "i + length bs \<le> length d \<Longrightarrow> drop i (overwrite d i bs) = bs @ drop (i + length bs) d"
  by (simp add: overwrite_def)

definition prepended :: "bytes \<Rightarrow> StringInfo \<Rightarrow> StringInfo" where
  "prepended q b = (let i = si_offset b - length q in
     b \<lparr> si_data := overwrite (si_data b) i q, si_offset := i, si_len := si_len b + length q \<rparr>)"

lemma prepend_eq:
  assumes "length q \<le> si_offset b" "si_offset b \<le> length (si_data b)"
  shows "prepend q b f s = f (prepended q b) s" "length (si_data (prepended q b)) = length (si_data b)"
    "drop (si_offset (prepended q b)) (si_data (prepended q b)) = q @ drop (si_offset b) (si_data b)"
proof -
  have "si_offset b - length q + length q \<le> length (si_data b)" using assms by simp
  then show "prepend q b f s = f (prepended q b) s" "length (si_data (prepended q b)) = length (si_data b)"
    "drop (si_offset (prepended q b)) (si_data (prepended q b)) = q @ drop (si_offset b) (si_data b)"
    using assms by (simp_all add: prepended_def prepend_def mem_write_def drop_overwrite_here Let_def)
qed

lemma prepended_fields [simp]:
  "si_offset (prepended q b) = si_offset b - length q" "si_len (prepended q b) = si_len b + length q"
  by (simp_all add: prepended_def Let_def)

lemma stmt_at_append: "NUL \<notin> set q \<Longrightarrow> drop (si_offset b') (si_data b') = q @ drop (si_offset b) (si_data b) \<Longrightarrow>
  stmt_at b' = q @ stmt_at b"
  by (auto simp: stmt_at_def cstr_def intro: takeWhile_append2)

text \<open>The statements \<open>addAdditionalSQL\<close> adds, and the completions they lead to.\<close>

definition prefix_tags :: "session \<Rightarrow> CommandTag list" where
  "prefix_tags s =
     (if needAddCommitOrRollbackAfterCurSQL s = 2 then [CMDTAG_ROLLBACK, CMDTAG_BEGIN]
      else if needStartNewTrx s \<and> \<not> trxNotCommit s then [CMDTAG_BEGIN]
      else if needCommitTrx s \<and> trxNotCommit s then [CMDTAG_COMMIT] else [])"

definition prefix_sql :: "session \<Rightarrow> bytes" where
  "prefix_sql s =
     (if needAddCommitOrRollbackAfterCurSQL s = 2 then ''rollback;begin;''
      else if needStartNewTrx s \<and> \<not> trxNotCommit s then ''begin;''
      else if needCommitTrx s \<and> trxNotCommit s then ''commit;'' else [])"

definition with_prefix :: "session \<Rightarrow> StringInfo \<Rightarrow> StringInfo" where
  "with_prefix s b =
     (if needAddCommitOrRollbackAfterCurSQL s = 2 then prepended ''rollback;'' (prepended ''begin;'' b)
      else if needStartNewTrx s \<and> \<not> trxNotCommit s then prepended ''begin;'' b
      else if needCommitTrx s \<and> trxNotCommit s then prepended ''commit;'' b else b)"

definition mark_prefix :: "session \<Rightarrow> session" where
  "mark_prefix s = s \<lparr>
     addBeforeBeforeCurSQL := addBeforeBeforeCurSQL s \<or> CMDTAG_BEGIN \<in> set (prefix_tags s),
     addCommitOrRollBackBeforeCurSQL := addCommitOrRollBackBeforeCurSQL s
       \<or> CMDTAG_COMMIT \<in> set (prefix_tags s) \<or> CMDTAG_ROLLBACK \<in> set (prefix_tags s),
     needCommitTrx := False \<rparr>"

lemma stmt_at_prepended:
  assumes "length q \<le> si_offset b" "si_offset b \<le> length (si_data b)" "NUL \<notin> set q"
  shows "stmt_at (prepended q b) = q @ stmt_at b"
  by (rule stmt_at_append [OF assms(3) prepend_eq(3) [OF assms(1,2)]])

lemma addAdditionalSQL_prefix:
  assumes "64 \<le> si_offset b" "si_offset b \<le> length (si_data b)"
  shows "addAdditionalSQL b s = (Inr (with_prefix s b), mark_prefix s)"
    "stmt_at (with_prefix s b) = prefix_sql s @ stmt_at b"
proof -
  let ?b1 = "prepended ''begin;'' b"
  have R: "RESERVED_FOR_ADDITIONAL_SQL \<le> si_offset b" using assms(1) by (simp add: RESERVED_FOR_ADDITIONAL_SQL_def)
  have b1: "si_offset ?b1 = si_offset b - 6" "length (si_data ?b1) = length (si_data b)"
    using prepend_eq(2) [of "''begin;''" b] assms by simp_all
  have pb: "prepend ''begin;'' b = (\<lambda>f. f ?b1)" and pc: "prepend ''commit;'' b = (\<lambda>f. f (prepended ''commit;'' b))"
    and pr: "prepend ''rollback;'' ?b1 = (\<lambda>f. f (prepended ''rollback;'' ?b1))"
    using assms b1 by (auto simp: fun_eq_iff prepend_eq(1))
  show "addAdditionalSQL b s = (Inr (with_prefix s b), mark_prefix s)"
    unfolding addAdditionalSQL_def pb pc pr with_prefix_def mark_prefix_def prefix_tags_def
    using R by (cases "needAddCommitOrRollbackAfterCurSQL s = 2"; cases "needStartNewTrx s"; cases "trxNotCommit s"; cases "needCommitTrx s")
      (simp_all add: pc)
  have "stmt_at ?b1 = ''begin;'' @ stmt_at b" "stmt_at (prepended ''commit;'' b) = ''commit;'' @ stmt_at b"
    "stmt_at (prepended ''rollback;'' ?b1) = ''rollback;'' @ stmt_at ?b1"
    using assms b1 by (intro stmt_at_prepended; simp)+
  then show "stmt_at (with_prefix s b) = prefix_sql s @ stmt_at b"
    by (simp add: with_prefix_def prefix_sql_def)
qed

text \<open>C13. The statements the adapter adds in front of a client's statement to open, commit or restart a
  transaction stay invisible: the buffer then holds exactly them followed by the client's statement, and when
  the server reports their completions nothing is sent, no mark of them is left, and the transaction state is
  the one they lead to.\<close>

theorem prefix_invisible:
  assumes "64 \<le> si_offset b" "si_offset b \<le> length (si_data b)"
    and "\<not> addBeforeBeforeCurSQL s" "\<not> addCommitOrRollBackBeforeCurSQL s"
  shows "\<exists>b' s1 s2. addAdditionalSQL b s = (Inr b', s1) \<and> stmt_at b' = prefix_sql s @ stmt_at b
    \<and> endCommands (map (\<lambda>tag. (tag, 0)) (prefix_tags s)) s1 = (Inr True, s2)
    \<and> s_net s2 = s_net s \<and> \<not> addBeforeBeforeCurSQL s2 \<and> \<not> addCommitOrRollBackBeforeCurSQL s2
    \<and> trxNotCommit s2 = fold trx_tag (prefix_tags s) (trxNotCommit s) \<and> \<not> needCommitTrx s2"
proof -
  have "\<exists>s2. endCommands (map (\<lambda>tag. (tag, 0)) (prefix_tags s)) (mark_prefix s) = (Inr True, s2)
    \<and> s_net s2 = s_net s \<and> \<not> addBeforeBeforeCurSQL s2 \<and> \<not> addCommitOrRollBackBeforeCurSQL s2
    \<and> trxNotCommit s2 = fold trx_tag (prefix_tags s) (trxNotCommit s) \<and> \<not> needCommitTrx s2"
    unfolding mark_prefix_def prefix_tags_def using assms(3,4)
    by (simp add: endCommand_def end_begin_def end_commit_def end_rollback_def end_trx_def trx_tag_def)
  then show ?thesis using addAdditionalSQL_prefix [OF assms(1,2), of s] by blast
qed

definition query_buffer :: "bytes \<Rightarrow> StringInfo" where
  "query_buffer q = \<lparr> si_data = replicate 129 NUL @ q @ replicate (871 - length q) NUL, si_len = length q + 1,
     si_maxlen = 1000, si_cursor = 0, si_offset = 129 \<rparr>"

theorem prefix_invisible_witness:
  "\<exists>b' s1 s2. addAdditionalSQL (query_buffer ''select 1'') (plain \<lparr> needStartNewTrx := True \<rparr>) = (Inr b', s1)
    \<and> stmt_at b' = ''begin;select 1'' \<and> endCommands [(CMDTAG_BEGIN, 0)] s1 = (Inr True, s2)
    \<and> s_net s2 = s_net plain \<and> trxNotCommit s2"
proof -
  let ?s = "plain \<lparr> needStartNewTrx := True \<rparr>" and ?b = "query_buffer ''select 1''"
  have p: "prefix_tags ?s = [CMDTAG_BEGIN]" "prefix_sql ?s = ''begin;''" "stmt_at ?b = ''select 1''"
    by (simp_all add: prefix_tags_def prefix_sql_def plain_def init_session_def stmt_at_def query_buffer_def cstr_def)
  have "64 \<le> si_offset ?b" "si_offset ?b \<le> length (si_data ?b)" "\<not> addBeforeBeforeCurSQL ?s" "\<not> addCommitOrRollBackBeforeCurSQL ?s"
    by (simp_all add: query_buffer_def plain_def init_session_def)
  from prefix_invisible [OF this] show ?thesis unfolding p by (auto simp: trx_tag_def)
qed

text \<open>C33. A statement that fails before its hidden BEGIN leaves the mark of it behind, and the next explicit
  BEGIN of the client is never answered: with \<open>autocommit\<close> off and no transaction open, a statement is
  forwarded with a BEGIN in front; if the server rejects the whole text (a syntax error), the error is
  reported, the client sends BEGIN, which is forwarded as it is, and its completion sends nothing, although
  the client waits for it.\<close>

theorem begin_unanswered:
  assumes "64 \<le> si_offset b" "si_offset b \<le> length (si_data b)" "CMDTAG_BEGIN \<in> set (prefix_tags s)"
    and "addAdditionalSQL b s = (Inr b1, s1)" "sendErrorMessage c m s1 = (Inr r, s2)"
    and "\<not> trxNotCommit s" "process_begin b2 s2 = (Inr (ret, fc, b3), s3)"
  shows "b3 = b2 \<and> ret = 0 \<and> fc = HALO_REQ_QUERY
    \<and> (\<exists>s4. endCommand CMDTAG_BEGIN 0 s3 = (Inr True, s4) \<and> s_net s4 = s_net s3 \<and> s_net s3 = s_net s2)"
proof -
  have s1: "s1 = mark_prefix s" using assms(4) addAdditionalSQL_prefix(1) [OF assms(1,2), of s] by simp
  then have 1: "addBeforeBeforeCurSQL s1" "\<not> trxNotCommit s1" using assms(3,6) by (simp_all add: mark_prefix_def)
  have 2: "addBeforeBeforeCurSQL s2 = addBeforeBeforeCurSQL s1" "trxNotCommit s2 = trxNotCommit s1"
    using assms(5) by (auto simp: sendErrorMessage_def Let_def sendErrPacket_def sendOKPacket_def assembleOKPacketPayload_def
        clear_track_def on_net_def elim!: andThen_Inr_E split: prod.splits option.splits if_splits)
  then have "b3 = b2" "ret = 0" "fc = HALO_REQ_QUERY" "s3 = s2 \<lparr> warnErrCode := 0 \<rparr>"
    using assms(7) 1 by (simp_all add: process_begin_def forwarded_def)
  moreover have "addBeforeBeforeCurSQL s3" using 1 2 calculation by simp
  ultimately show ?thesis by (simp add: endCommand_def end_begin_def)
qed

theorem begin_unanswered_witness:
  "\<exists>b1 s1 s2 s3 s4. addAdditionalSQL (query_buffer ''selec 1'') (plain \<lparr> needStartNewTrx := True \<rparr>) = (Inr b1, s1)
    \<and> sendErrorMessage 0 ''syntax error'' s1 = (Inr True, s2)
    \<and> process_begin (query_buffer ''begin'') s2 = (Inr (0, HALO_REQ_QUERY, query_buffer ''begin''), s3)
    \<and> endCommand CMDTAG_BEGIN 0 s3 = (Inr True, s4) \<and> s_net s4 = s_net s3 \<and> s_net s3 = s_net s2"
proof -
  let ?s = "plain \<lparr> needStartNewTrx := True \<rparr>" and ?b = "query_buffer ''selec 1''"
  have b: "64 \<le> si_offset ?b" "si_offset ?b \<le> length (si_data ?b)" by (simp_all add: query_buffer_def)
  have p: "CMDTAG_BEGIN \<in> set (prefix_tags ?s)" "\<not> trxNotCommit ?s"
    by (simp_all add: prefix_tags_def plain_def init_session_def)
  have a: "addAdditionalSQL ?b ?s = (Inr (with_prefix ?s ?b), mark_prefix ?s)"
    by (rule addAdditionalSQL_prefix(1) [OF b])
  have "sess_ready (mark_prefix ?s)" "\<not> isIgnoreStmt (mark_prefix ?s)"
    using plain_can_answer by (simp_all add: can_answer_def sess_ready_def mark_prefix_def plain_def init_session_def)
  then obtain s2 where e: "sendErrorMessage 0 ''syntax error'' (mark_prefix ?s) = (Inr True, s2)"
    using sendErrorMessage_succeeds by blast
  have "\<not> trxNotCommit s2"
    using e p(2) keeps_sendErrorMessage [OF refl, of "mark_prefix ?s" 0 "''syntax error''"]
    by (auto simp: keeps_trx_def trx_def mark_prefix_def)
  then have g: "process_begin (query_buffer ''begin'') s2
      = (Inr (0, HALO_REQ_QUERY, query_buffer ''begin''), s2 \<lparr> warnErrCode := 0 \<rparr>)"
    by (simp add: process_begin_def forwarded_def)
  show ?thesis using a e g begin_unanswered [OF b p(1) a e p(2) g] by blast
qed

end
