(* ===== verification/SessionLive.thy ===== *)
theory SessionLive
  imports SessionTrx
begin

text \<open>
  Answers: a command that \<open>processCommand\<close> handles itself, without forwarding a statement to the server,
  sends at least one packet, and everything sent has left the buffer.
\<close>

section \<open>Packets sent between two states\<close>

definition talked :: "session \<Rightarrow> bytes list \<Rightarrow> session \<Rightarrow> bool" where
  "talked s ps s' \<longleftrightarrow> sess_ready s' \<and> wire (s_net s') = wire (s_net s) @ frames_all (netPacketSeqID (s_net s)) ps
     \<and> netPacketSeqID (s_net s') = seq_all (netPacketSeqID (s_net s)) ps"

definition flushed :: "session \<Rightarrow> bool" where
  "flushed s \<longleftrightarrow> sent (s_net s) = wire (s_net s)"

definition answers :: "session \<Rightarrow> session \<Rightarrow> bool" where
  "answers s s' \<longleftrightarrow> (\<exists>ps. ps \<noteq> [] \<and> talked s ps s') \<and> flushed s'"

lemma talked_trans: "talked s ps s1 \<Longrightarrow> talked s1 qs s2 \<Longrightarrow> talked s (ps @ qs) s2"
  by (simp add: talked_def frames_all_append seq_all_append)

lemma talked_replies: "replies s ps r \<Longrightarrow> talked s ps (snd r) \<and> same_but_net s (snd r) \<and> fst r = Inr True"
  by (cases r) (auto simp: replies_def delivers_def talked_def)

lemma talked_view: "answer_view s1 = answer_view s \<Longrightarrow> talked s1 = talked s"
  unfolding talked_def [abs_def] using answer_view_fields(1) [of s1 s] by simp

lemma answers_view: "answer_view s1 = answer_view s \<Longrightarrow> answers s1 = answers s"
  unfolding answers_def [abs_def] using talked_view [of s1 s] by simp

lemma answers_net: "s_net s2 = s_net s1 \<Longrightarrow> answers s s1 \<Longrightarrow> answers s s2"
  by (simp add: answers_def talked_def flushed_def sess_ready_def)

section \<open>The senders\<close>

lemma talked_inplace:
  assumes "sess_ready s1" "s_net s1 = s_net s" "short_payload p" "on_net (sendInPlace fl p) s1 = (Inr x, s')"
  shows "talked s [p] s'" "fl \<Longrightarrow> flushed s'"
  using on_net_sendInPlace [OF assms(1,3), of fl] assms(2,4) by (auto simp: talked_def flushed_def)

lemma answers_inplace:
  "sess_ready s1 \<Longrightarrow> s_net s1 = s_net s \<Longrightarrow> short_payload p \<Longrightarrow> on_net (sendInPlace True p) s1 = (Inr x, s') \<Longrightarrow> answers s s'"
  using talked_inplace [of s1 s p True x s'] by (auto simp: answers_def)

lemma answers_OK:
  assumes "can_answer s" "sendOKPacket s = (Inr x, s')" shows "answers s s'"
proof -
  obtain p where p: "assembleOKEOFCommonPacketPayload s (status_word s) (warnings s) = Some p"
    using common_Some [of s "status_word s" "warnings s"] assms(1)
    by (auto simp: can_answer_def no_track_overflow_def split: if_splits)
  have "short_payload (le_enc 1 0 @ p)"
    using common_payload_length [OF p] assms(1) by (simp add: short_payload_def can_answer_def)
  moreover have "on_net (sendInPlace True (le_enc 1 0 @ p)) (clear_track (s \<lparr> serverStatus := status_word s \<rparr>)) = (Inr x, s')"
    using assms(2) p by (simp add: sendOKPacket_def Let_def assembleOKPacketPayload_def)
  ultimately show ?thesis
    using answers_inplace [of "clear_track (s \<lparr> serverStatus := status_word s \<rparr>)" s] assms(1) by (simp add: can_answer_def)
qed

lemma answers_Err:
  assumes "sess_ready s" "sendErrPacket c m st s = (Inr x, s')" shows "answers s s'"
proof -
  have short: "short_payload (assembleErrorPacketPayload s1 c' st m)" for s1 c'
    by (simp add: assembleErrorPacketPayload_def short_payload_def min_def)
  let ?s1 = "s \<lparr> warnErrCode := convertErrorCode (haloMysqlErrorCodes s) c, warnErrMsg := take 1023 m \<rparr>"
  show ?thesis
  proof (rule answers_inplace)
    show "on_net (sendInPlace True (assembleErrorPacketPayload ?s1 (convertErrorCode (haloMysqlErrorCodes s) c) st m)) ?s1 = (Inr x, s')"
      using assms(2) by (simp add: sendErrPacket_def Let_def)
  qed (use short assms(1) in \<open>simp_all add: sess_ready_def\<close>)
qed

text \<open>A reply that ends with an EOF packet.\<close>

lemma talked_EOF:
  assumes "sess_ready s" "no_track_overflow s" "strings_fit s"
  shows "\<exists>s'. sendEOFPacket fl s = (Inr True, s') \<and> talked s [eof_payload s] s' \<and> same_but_net s s' \<and> (fl \<longrightarrow> flushed s')"
  using sendEOFPacket_result [OF assms, of fl] by (auto simp: talked_def delivers_def same_but_net_def flushed_def)

lemma answers_EOF:
  assumes "can_answer s" "sendEOFPacketFlush s = (Inr x, s')" shows "answers s s'"
  using talked_EOF [of s True] assms by (auto simp: can_answer_def answers_def sendEOFPacketFlush_def)

lemma answers_then_EOF:
  assumes "replies s ps m" "can_answer s" "andThen m (\<lambda>_. sendEOFPacketFlush) = (Inr x, s')" shows "answers s s'"
proof -
  obtain s1 where m: "m = (Inr True, s1)" "talked s ps s1" "same_but_net s s1"
    using talked_replies [OF assms(1)] by (cases m) auto
  have "sess_ready s1" "no_track_overflow s1" "strings_fit s1"
    using m same_but_net_facts [OF m(3)] assms(2) by (simp_all add: talked_def can_answer_def)
  from talked_EOF [OF this, of True] show ?thesis
    using assms(3) m talked_trans [OF m(2)] by (auto simp: sendEOFPacketFlush_def answers_def)
qed

lemma andThen_assoc: "andThen (andThen m f) g = andThen m (\<lambda>x s. andThen (f x s) g)"
  by (cases m; cases "fst m") auto

lemma replies_NoFlush:
  assumes "can_answer s" "same_but_net s s1" "sess_ready s1"
  shows "replies s1 (if has_cap s MYS_CLT_DEPRECATE_EOF then [] else [eof_payload s]) (sendEOFPacketNoFlush s1)"
  using replies_EOFNoFlush [of s1] assms same_but_net_facts [OF assms(2)] by (simp add: can_answer_def split: if_splits)

lemma answers_ShowWarn:
  assumes "can_answer s" "warnErrCode s \<le> 65535" "simulateShowWarnErrReturn s = (Inr x, s')" shows "answers s s'"
proof (rule answers_then_EOF [OF _ assms(1)])
  let ?row = "\<lambda>s2. if 0 < warnErrCode s2 then on_net (sendInPlace False (warn_row s2)) s2 else (Inr True, s2)"
  let ?m = "andThen (on_net (send_all writePacketHeaderPayloadNoFlush warn_packets) s) (\<lambda>_ s1.
     andThen (sendEOFPacketNoFlush s1) (\<lambda>_. ?row))"
  show "andThen ?m (\<lambda>_. sendEOFPacketFlush) = (Inr x, s')"
    using assms(3) by (simp add: simulateShowWarnErrReturn_def andThen_assoc warn_row_def cong: if_cong)
  show "replies s (warn_packets @ (if has_cap s MYS_CLT_DEPRECATE_EOF then [] else [eof_payload s])
      @ (if 0 < warnErrCode s then [warn_row s] else [])) ?m"
  proof (intro replies_andThen replies_packets, goal_cases)
    case 1
    show ?case using assms(1) by (simp add: can_answer_def)
  next
    case (2 s1)
    then show ?case using replies_NoFlush [OF assms(1)] by simp
  next
    case (3 s1 s2)
    then have "same_but_net s s2" using same_but_net_trans by blast
    from same_but_net_facts [OF this] have f: "warnErrCode s2 = warnErrCode s" "warn_row s2 = warn_row s" "strings_fit s2"
      using assms(1) by (simp_all add: warn_row_def can_answer_def)
    then show ?case
      using replies_inplace [of s2 "warn_row s2" False] replies_nothing [of s2] 3 warn_row_short [of s2] assms(2) by simp
  qed
qed

lemma send_all_single: "send_all send [p] = send p"
  by (auto simp: fun_eq_iff split: prod.split sum.split)

lemma answers_ShowGrants:
  assumes "can_answer s" "simulateShowGrants s = (Inr x, s')" shows "answers s s'"
proof (rule answers_then_EOF [OF _ assms(1)])
  let ?m = "andThen (on_net (send_all writePacketHeaderPayloadNoFlush grants_packets) s) (\<lambda>_ s1.
     andThen (sendEOFPacketNoFlush s1) (\<lambda>_ s2. on_net (send_all writePacketHeaderPayloadNoFlush [grants_row]) s2))"
  show "andThen ?m (\<lambda>_. sendEOFPacketFlush) = (Inr x, s')"
    using assms(2) by (simp add: simulateShowGrants_def andThen_assoc send_all_single)
  show "replies s (grants_packets @ (if has_cap s MYS_CLT_DEPRECATE_EOF then [] else [eof_payload s]) @ [grants_row]) ?m"
  proof (intro replies_andThen replies_packets, goal_cases)
    case 1
    show ?case using assms(1) by (simp add: can_answer_def)
  next
    case (2 s1)
    then show ?case using replies_NoFlush [OF assms(1)] by simp
  qed
qed

lemma answers_Maint:
  assumes "can_answer s" "simulateMaint packets row db stmt s = (Inr True, s')" shows "answers s s'"
proof -
  let ?head = "andThen (on_net (send_all writePacketHeaderPayloadNoFlush packets) s) (\<lambda>_. sendEOFPacketNoFlush)"
  obtain s1 where h: "?head = (Inr True, s1)" "same_but_net s s1" "sess_ready s1"
    and t1: "talked s (packets @ (if has_cap s MYS_CLT_DEPRECATE_EOF then [] else [eof_payload s])) s1"
  proof -
    have "replies s (packets @ (if has_cap s MYS_CLT_DEPRECATE_EOF then [] else [eof_payload s])) ?head"
      using assms(1) replies_NoFlush [OF assms(1)] by (intro replies_andThen replies_packets) (simp_all add: can_answer_def)
    from talked_replies [OF this] that show ?thesis by (cases ?head) (auto simp: talked_def)
  qed
  have r: "simulateMaint packets row db stmt s = andThen ?head (\<lambda>_ s2.
       case maint_parse db stmt of
         Inl e \<Rightarrow> (Inl e, s2)
       | Inr None \<Rightarrow> (Inr False, s2)
       | Inr (Some (operation, names)) \<Rightarrow>
           andThen (andThen (on_net (send_all writePacketHeaderPayloadNoFlush (map (row operation) names)) s2) (\<lambda>_. sendEOFPacketFlush))
             (\<lambda>_ s4. (Inr True, s4)))"
    unfolding simulateMaint_def andThen_assoc ..
  then obtain operation names where p: "maint_parse db stmt = Inr (Some (operation, names))"
    using assms(2) h by (auto split: sum.splits option.splits)
  then obtain y where e: "andThen (on_net (send_all writePacketHeaderPayloadNoFlush (map (row operation) names)) s1)
      (\<lambda>_. sendEOFPacketFlush) = (Inr y, s')"
    using assms(2) r h by (auto elim!: andThen_Inr_E)
  have "can_answer s1" using assms(1) h same_but_net_facts [OF h(2)] by (simp add: can_answer_def)
  then have "answers s1 s'"
    by (rule answers_then_EOF [OF replies_packets [OF h(3)] _ e])
  then obtain qs where "qs \<noteq> []" "talked s1 qs s'" "flushed s'" unfolding answers_def by blast
  then show ?thesis using talked_trans [OF t1, of qs s'] unfolding answers_def by blast
qed

text \<open>The reply to a prepare: every packet is flushed.\<close>

lemma talked_flush_all:
  assumes "sess_ready s" "flushed s"
  shows "\<exists>s'. on_net (send_all writePacketHeaderPayloadFlush ps) s = (Inr True, s') \<and> talked s ps s' \<and> same_but_net s s' \<and> flushed s'"
proof -
  have "tx_ready n \<Longrightarrow> sent n = wire n \<Longrightarrow> \<exists>n'. send_all writePacketHeaderPayloadFlush ps n = (Inr True, n') \<and> tx_ready n'
      \<and> wire n' = wire n @ frames_all (netPacketSeqID n) ps \<and> netPacketSeqID n' = seq_all (netPacketSeqID n) ps \<and> sent n' = wire n'" for n
  proof (induction ps arbitrary: n)
    case (Cons p ps)
    obtain n1 where n1: "writePacketHeaderPayloadFlush p n = (Inr True, n1)" "tx_ready n1"
      "wire n1 = wire n @ frames (netPacketSeqID n) p" "netPacketSeqID n1 = seq_after (netPacketSeqID n) (length p)"
      using packet_flush_ok [OF Cons.prems(1)] by blast
    have "sent n1 = wire n1"
      using tx_step_packet_flush [OF _ n1(1)] Cons.prems(1) by (simp add: tx_ready_def)
    with Cons.IH [OF n1(2)] n1 show ?case by auto
  qed simp
  from this [of "s_net s"] assms show ?thesis
    by (auto simp: on_net_def talked_def sess_ready_def flushed_def same_but_net_def)
qed

definition flushes :: "session \<Rightarrow> 'a sio \<Rightarrow> bool" where
  "flushes s r \<longleftrightarrow> (\<forall>x s'. r = (Inr x, s') \<longrightarrow> (\<exists>qs. talked s qs s' \<and> same_but_net s s' \<and> flushed s'))"

lemma flushes_nothing: "can_answer s \<Longrightarrow> flushed s \<Longrightarrow> flushes s (Inr x, s)"
  by (auto simp: flushes_def talked_def same_but_net_def can_answer_def intro!: exI [of _ "[]"])

lemma flushes_fault: "flushes s (Inl f, s')"
  by (simp add: flushes_def)

lemma flushes_if: "(b \<Longrightarrow> flushes s m) \<Longrightarrow> (\<not> b \<Longrightarrow> flushes s m') \<Longrightarrow> flushes s (if b then m else m')"
  by simp

lemma flush_send_defs:
  assumes "can_answer s" "flushed s"
  shows "flushes s (send_defs ps s)"
  unfolding flushes_def
proof (intro allI impI)
  fix x s'
  assume sd: "send_defs ps s = (Inr x, s')"
  obtain s1 where 1: "on_net (send_all writePacketHeaderPayloadFlush ps) s = (Inr True, s1)" "talked s ps s1"
    "same_but_net s s1" "flushed s1"
    using talked_flush_all [of s ps] assms(1,2) by (auto simp: can_answer_def)
  show "\<exists>qs. talked s qs s' \<and> same_but_net s s' \<and> flushed s'"
  proof (cases "has_cap s1 MYS_CLT_DEPRECATE_EOF")
    case True
    then have "s' = s1" using sd 1(1) by (simp add: send_defs_def)
    then show ?thesis using 1(2-4) by blast
  next
    case False
    have "sess_ready s1" "no_track_overflow s1" "strings_fit s1"
      using 1(2) same_but_net_facts [OF 1(3)] assms(1) by (simp_all add: talked_def can_answer_def)
    from talked_EOF [OF this, of True] obtain s2 where
      2: "sendEOFPacketFlush s1 = (Inr True, s2)" "talked s1 [eof_payload s1] s2" "same_but_net s1 s2" "flushed s2"
      unfolding sendEOFPacketFlush_def by blast
    have "s' = s2" using False sd 1(1) 2(1) by (simp add: send_defs_def)
    then show ?thesis using talked_trans [OF 1(2) 2(2)] same_but_net_trans [OF 1(3) 2(3)] 2(4) by blast
  qed
qed

lemma can_answer_same: "can_answer s \<Longrightarrow> same_but_net s s' \<Longrightarrow> sess_ready s' \<Longrightarrow> can_answer s'"
  using same_but_net_facts [of s s'] by (simp add: can_answer_def)

lemma answers_endExtendPreStmt:
  assumes "can_answer s" "endExtendPreStmt s = (Inr x, s')" shows "answers s s'"
proof -
  let ?p = "preStmtInfoes s ! curExtendPreStmtId s"
  let ?optional = "has_cap s MYS_CLT_OPTIONAL_RESULTSET_METADATA"
  let ?d1 = "\<lambda>s1. if 0 < ps_paramNum ?p \<and> \<not> ?optional
    then send_defs (replicate (ps_paramNum ?p) (assembleColDefPacketPayload s1 (preStmt_colDef 63 253))) s1 else (Inr True, s1)"
  let ?d2 = "\<lambda>s2. if 0 < ps_columnNum ?p \<and> \<not> ?optional then
      (if 256 < ps_columnNum ?p then (Inl OutOfBounds, s2)
       else send_defs (map (\<lambda>i. assembleColDefPacketPayload s2
              (preStmt_colDef (ps_columnCharacterSet ?p ! i) (ps_columnTypes ?p ! i))) [0..<ps_columnNum ?p]) s2)
    else (Inr True, s2)"
  have "andThen (on_net (writePacketHeaderPayloadFlush (prepare_ok_payload s ?p)) s) (\<lambda>_ s1. andThen (?d1 s1) (\<lambda>_. ?d2)) = (Inr x, s')"
    using assms(2) by (simp add: endExtendPreStmt_def Let_def split: if_splits)
  then obtain x1 s1 x2 s2 where e: "on_net (writePacketHeaderPayloadFlush (prepare_ok_payload s ?p)) s = (Inr x1, s1)"
    "?d1 s1 = (Inr x2, s2)" "?d2 s2 = (Inr x, s')"
    by (elim andThen_Inr_E) blast
  obtain n where n: "writePacketHeaderPayloadFlush (prepare_ok_payload s ?p) (s_net s) = (Inr True, n)" "tx_ready n"
    "wire n = wire (s_net s) @ frames (netPacketSeqID (s_net s)) (prepare_ok_payload s ?p)"
    "netPacketSeqID n = seq_after (netPacketSeqID (s_net s)) (length (prepare_ok_payload s ?p))"
    using packet_flush_ok [of "s_net s"] assms(1) by (auto simp: can_answer_def sess_ready_def)
  have "sent n = wire n"
    using tx_step_packet_flush [OF _ n(1)] assms(1) by (simp add: can_answer_def sess_ready_def tx_ready_def)
  then have 1: "talked s [prepare_ok_payload s ?p] s1" "same_but_net s s1" "flushed s1"
    using e(1) n by (auto simp: on_net_def talked_def flushed_def same_but_net_def)
  have c1: "can_answer s1" using can_answer_same [OF assms(1) 1(2)] 1(1) by (simp add: talked_def)
  have "flushes s1 (?d1 s1)"
    by (intro flushes_if flush_send_defs flushes_nothing flushes_fault c1 1(3))
  then obtain qs where 2: "talked s1 qs s2" "same_but_net s1 s2" "flushed s2"
    using e(2) unfolding flushes_def by blast
  have c2: "can_answer s2" using can_answer_same [OF c1 2(2)] 2(1) by (simp add: talked_def)
  have "flushes s2 (?d2 s2)"
    by (intro flushes_if flush_send_defs flushes_nothing flushes_fault c2 2(3))
  then obtain rs where 3: "talked s2 rs s'" "flushed s'"
    using e(3) unfolding flushes_def by blast
  show ?thesis
    using talked_trans [OF talked_trans [OF 1(1) 2(1)] 3(1)] 3(2) by (auto simp: answers_def)
qed

section \<open>Commands\<close>

text \<open>\<open>heard s r\<close>: if the result \<open>r\<close> says that the command has been answered, then it has.\<close>

definition heard :: "session \<Rightarrow> processed sio \<Rightarrow> bool" where
  "heard s r \<longleftrightarrow> (\<forall>fc b s'. r = (Inr (1, fc, b), s') \<longrightarrow> answers s s')"

named_theorems heard_rules \<open>results of commands\<close>

lemma heard_fault [heard_rules]: "heard s (Inl f, s')"
  by (simp add: heard_def)

lemma heard_forwarded [heard_rules]: "heard s (forwarded b s')"
  by (simp add: heard_def forwarded_def)

lemma heard_syntax [heard_rules]: "heard s (sendSyntaxError t s')"
  by (simp add: heard_def sendSyntaxError_def)

lemma heard_andThen: "(\<And>x s1. m = (Inr x, s1) \<Longrightarrow> heard s (f x s1)) \<Longrightarrow> heard s (andThen m f)"
  by (cases m; cases "fst m") (auto simp: heard_def)

lemma heard_if [heard_rules]: "(c \<Longrightarrow> heard s m) \<Longrightarrow> (\<not> c \<Longrightarrow> heard s m') \<Longrightarrow> heard s (if c then m else m')"
  by simp

lemma heard_answered:
  assumes "\<And>x s1. r = (Inr x, s1) \<Longrightarrow> answers s s1"
  shows "heard s (answered fc b r)" "heard s (answeredClear fc b r)"
  using assms answers_net unfolding heard_def answered_def answeredClear_def
  by (auto elim!: andThen_Inr_E intro: answers_net [rotated])

lemma heard_forwardWithSQL [heard_rules]: "heard s (forwardWithSQL b s')"
  unfolding forwardWithSQL_def by (intro heard_andThen heard_rules)

lemma answers_quiet: "answer_view s1 = answer_view s \<Longrightarrow> answers s1 s' \<Longrightarrow> answers s s'"
  using answers_view by metis

text \<open>Operations that send nothing leave the view alone.\<close>

lemma view_addAdditionalSQL: "addAdditionalSQL b s = (Inr x, s') \<Longrightarrow> s_net s' = s_net s"
  by (auto simp: addAdditionalSQL_def prepend_def Let_def elim!: andThen_Inr_E split: if_splits option.splits)

lemma view_rectify: "rectifyCommand v b s = (r, s') \<Longrightarrow> answer_view s' = answer_view s \<and> warnErrCode s' = warnErrCode s"
  by (auto simp: rectifyCommand_def answer_view_def split: sum.splits)

lemma view_cache: "answer_view (snd (cacheExtendPreStmt w s)) = answer_view s"
  by (simp add: cacheExtendPreStmt_def answer_view_def Let_def split: option.split)

lemma view_preStmtInfoes: "answer_view (s \<lparr> preStmtInfoes := ps \<rparr>) = answer_view s"
  by (simp add: answer_view_def)

lemma view_rewriteImpl: "answer_view (snd (rewriteExtendPreStmt_impl w b s)) = answer_view s"
proof -
  obtain ret slot s1 where c: "cacheExtendPreStmt w s = ((ret, slot), s1)" by (metis surj_pair)
  then have "answer_view s1 = answer_view s" using view_cache [of w s] by simp
  then show ?thesis
    unfolding rewriteExtendPreStmt_impl_def c prod.case Let_def
    by (cases "ret = 1") (simp_all add: view_preStmtInfoes split: option.split sum.split prod.split)
qed

lemma view_rewritePre: "rewriteExtendPreStmt b s = (r, s') \<Longrightarrow> answer_view s' = answer_view s"
  using view_rewriteImpl [of _ b s] by (metis (no_types, lifting) rewriteExtendPreStmt_def snd_conv)

lemma can_answer_upd:
  "can_answer (s \<lparr> warnErrCode := c \<rparr>) = can_answer s"
  by (rule can_answer_cong) (simp add: answer_view_def)

lemma heard_show:
  assumes "can_answer s" "warnErrCode s \<le> 65535" shows "heard s (process_show fc b s)"
proof (cases "skipSpaces (si_data b) (si_offset b + 5)")
  case (Inr p)
  have grants: "heard s (andThen (simulateShowGrants s) (\<lambda>_ s1.
      andThen (addAdditionalSQL b s1) (\<lambda>b s2. (Inr (1, fc, b), s2 \<lparr> warnErrCode := 0 \<rparr>))))"
    unfolding heard_def
    by (auto elim!: andThen_Inr_E dest!: view_addAdditionalSQL answers_ShowGrants [OF assms(1)] intro: answers_net [rotated])
  show ?thesis
    unfolding process_show_def Inr sum.case Let_def
    by (intro heard_rules heard_andThen heard_answered grants answers_ShowWarn [OF assms])
qed (simp add: process_show_def heard_rules)

lemma heard_dispatch:
  assumes "can_answer s" "warnErrCode s \<le> 65535" shows "heard s (dispatchQuery e fc l b len s)"
proof -
  have ok: "heard s (answeredClear fc b (sendOKPacket s))" for fc b
    by (intro heard_answered answers_OK [OF assms(1)])
  have er: "heard s (answered fc b (sendErrPacket c m st s))" for fc b c m st
    using assms(1) by (intro heard_answered answers_Err) (simp_all add: can_answer_def)
  have mt: "heard s (process_maint fc b stmt (simulateMaint packets row db stmt s))" for fc b stmt packets row db
    unfolding heard_def process_maint_def sendSyntaxError_def
    by (auto elim!: andThen_Inr_E dest!: answers_Maint [OF assms(1)] intro: answers_net [rotated] split: if_splits)
  have us: "heard s (process_use fc b len s)"
    unfolding process_use_def by (intro heard_if er) (simp_all add: heard_rules split: option.split)
  have bg: "heard s (process_begin b s)"
    unfolding process_begin_def by (intro heard_andThen heard_rules)
  have al: "heard s (process_alter fc b s)"
    unfolding process_alter_def using er by (simp add: heard_rules split: sum.split)
  have sc: "heard s (process_semicolon fc l b len s)"
    unfolding process_semicolon_def Let_def query_empty_def by (intro heard_rules er ok)
  show ?thesis
    unfolding dispatchQuery_def Let_def simulateChecksumTable_def simulateAnalyzeCheckOptimizeRepairTable_def
    by (intro heard_rules ok mt us bg al sc heard_show assms)
qed

lemma heard_view: "answer_view s1 = answer_view s \<Longrightarrow> heard s1 r \<Longrightarrow> heard s r"
  unfolding heard_def using answers_quiet by blast

lemma heard_ok: "can_answer s \<Longrightarrow> heard s (answeredClear fc b (sendOKPacket s))"
  by (intro heard_answered answers_OK)

lemma heard_err: "can_answer s \<Longrightarrow> heard s (answered fc b (sendErrPacket c m st s))"
  by (intro heard_answered answers_Err) (simp_all add: can_answer_def)

lemma heard_andThen_pair:
  "(\<And>x y s1. m = (Inr (x, y), s1) \<Longrightarrow> heard s (f x y s1)) \<Longrightarrow> heard s (andThen m (\<lambda>(x, y). f x y))"
  by (rule heard_andThen) auto

lemma heard_processQuery:
  assumes "can_answer s" "warnErrCode s \<le> 65535" shows "heard s (processQuery e fc b s)"
  unfolding processQuery_def Let_def
proof (rule heard_andThen_pair, goal_cases)
  case (1 ok b1 s1)
  then have v: "answer_view s1 = answer_view s" and w: "warnErrCode s1 \<le> 65535"
    using view_rectify [OF 1] assms(2) by simp_all
  have c: "can_answer s1" using can_answer_cong [OF v] assms(1) by simp
  show ?case
    by (rule heard_view [OF v])
      (auto simp: query_empty_def split: prod.split sum.split intro!: heard_rules heard_ok heard_err heard_dispatch c w)
qed

lemma heard_rewritten:
  assumes "can_answer s" "answer_view s2 = answer_view s"
  shows "heard s (answered fc b2 (endExtendPreStmt (s2 \<lparr> warnErrCode := 0 \<rparr>)))"
    "heard s (answered fc b2 (sendErrPacket c m st s2))"
proof -
  have v: "answer_view (s2 \<lparr> warnErrCode := 0 \<rparr>) = answer_view s" using assms(2) by (simp add: answer_view_def)
  have c: "can_answer s2" "can_answer (s2 \<lparr> warnErrCode := 0 \<rparr>)"
    using can_answer_cong [OF assms(2)] can_answer_cong [OF v] assms(1) by simp_all
  show "heard s (answered fc b2 (endExtendPreStmt (s2 \<lparr> warnErrCode := 0 \<rparr>)))"
    by (rule heard_view [OF v]) (intro heard_answered answers_endExtendPreStmt c)
  show "heard s (answered fc b2 (sendErrPacket c m st s2))"
    by (rule heard_view [OF assms(2)]) (intro heard_err c)
qed

lemma heard_processPrepare:
  assumes "can_answer s" shows "heard s (processPrepare e fc b s)"
  unfolding processPrepare_def
proof (rule heard_andThen_pair, intro heard_if heard_rules heard_andThen_pair, goal_cases)
  case (1 ok b1 s1 ret b2 s2)
  then show ?case using view_rectify view_rewritePre by (intro heard_rewritten assms) metis
next
  case (2 ok b1 s1 ret b2 s2)
  then show ?case using view_rectify view_rewritePre by (intro heard_rewritten assms) metis
qed

lemma heard_useDatabase:
  assumes "can_answer s" shows "heard s (processUseDatabase fc b s)"
  unfolding processUseDatabase_def Let_def prepend_def
  by (auto split: option.split intro!: heard_rules heard_err assms)

lemma heard_processCommand:
  assumes "can_answer s" "warnErrCode s \<le> 65535" shows "heard s (processCommand e fc b s)"
proof -
  define s0 where "s0 = s \<lparr> moreResultsFlag := 0, warnings := 0, preOrPostSQLNum := 0, lastInsertIDForPacket := 0,
    skipUtf8Verify := False, isExtendPreStmt := False, isExtendExeStmt := False,
    isExtendCloseStmt := False, isResetConnStmt := False \<rparr>"
  have v: "answer_view s0 = answer_view s" and w: "warnErrCode s0 \<le> 65535"
    using assms(2) by (simp_all add: s0_def answer_view_def)
  have c: "can_answer s0" using can_answer_cong [OF v] assms(1) by simp
  have fl: "heard s0 (answeredClear fc b (simulateShowFieldsReturn s0))"
    unfolding simulateShowFieldsReturn_def by (intro heard_answered answers_EOF c)
  have qt: "heard s0 (Inr (0, HALO_REQ_QUIT, b), s0)" by (simp add: heard_def)
  have un: "heard s0 (answered fc b (sendUnsupportError s0))"
    unfolding sendUnsupportError_def by (rule heard_err [OF c])
  show ?thesis
    unfolding processCommand_def Let_def s0_def [symmetric]
    by (rule heard_view [OF v])
      (intro heard_rules heard_andThen_pair heard_andThen heard_processQuery heard_processPrepare heard_useDatabase
        heard_ok fl qt un c w)
qed

lemma sends_EOF: "can_answer s \<Longrightarrow> \<exists>s'. sendEOFPacketFlush s = (Inr True, s')"
  using talked_EOF [of s True] by (auto simp: can_answer_def sendEOFPacketFlush_def)

text \<open>The commands that are neither forwarded nor parsed.\<close>

definition forwarded_commands :: "int set" where
  "forwarded_commands = {MYS_REQ_EXECUTE, MYS_REQ_QUERY, MYS_REQ_PREPARE, MYS_REQ_CLOSE, MYS_REQ_USE_DATABASE, MYS_REQ_QUIT,
     MYS_REQ_RESET_CONN}"

lemma simple_command_returns:
  assumes "can_answer s" "fc \<notin> forwarded_commands"
  shows "\<exists>s'. processCommand e fc b s = (Inr (1, fc, b), s')"
proof -
  define s0 where "s0 = s \<lparr> moreResultsFlag := 0, warnings := 0, preOrPostSQLNum := 0, lastInsertIDForPacket := 0,
    skipUtf8Verify := False, isExtendPreStmt := False, isExtendExeStmt := False,
    isExtendCloseStmt := False, isResetConnStmt := False \<rparr>"
  have "answer_view s0 = answer_view s" by (simp add: s0_def answer_view_def)
  then have c: "can_answer s0" using can_answer_cong assms(1) by metis
  obtain s1 where "sendOKPacket s0 = (Inr True, s1)" using sendOKPacket_succeeds [OF c] by blast
  moreover obtain s2 where "sendEOFPacketFlush s0 = (Inr True, s2)" using sends_EOF [OF c] by blast
  moreover obtain s3 where "sendUnsupportError s0 = (Inr True, s3)"
    using sendErr_succeeds c unfolding can_answer_def sendUnsupportError_def by blast
  ultimately show ?thesis
    using assms(2) unfolding processCommand_def Let_def s0_def [symmetric]
    by (simp add: forwarded_commands_def answered_def answeredClear_def simulateShowFieldsReturn_def)
qed

text \<open>C2. Every command the adapter answers itself is answered: in a session that can send, if
  \<open>processCommand\<close> tells the main loop that nothing is left to do, then at least one complete packet has
  gone out and nothing of it is left in the output buffer; and it does so for every command, known or
  not, that is neither forwarded to the server nor the end of the session.\<close>

theorem every_answer_sent:
  assumes "can_answer s" "warnErrCode s \<le> 65535"
  shows "(processCommand e fc b s = (Inr (1, fc', b'), s') \<longrightarrow> answers s s')
    \<and> (fc \<notin> forwarded_commands \<longrightarrow> (\<exists>s'. processCommand e fc b s = (Inr (1, fc, b), s') \<and> answers s s'))"
  using heard_processCommand [OF assms] simple_command_returns [OF assms(1)] unfolding heard_def by metis

theorem every_answer_sent_witness:
  "\<exists>s'. processCommand plain_env MYS_REQ_PING (query_buffer []) plain = (Inr (1, MYS_REQ_PING, query_buffer []), s')
     \<and> answers plain s'"
proof -
  have "warnErrCode plain \<le> 65535" "MYS_REQ_PING \<notin> forwarded_commands"
    by (simp_all add: plain_def init_session_def forwarded_commands_def MYS_REQ_PING_def MYS_REQ_EXECUTE_def MYS_REQ_QUERY_def
        MYS_REQ_PREPARE_def MYS_REQ_CLOSE_def MYS_REQ_USE_DATABASE_def MYS_REQ_QUIT_def MYS_REQ_RESET_CONN_def)
  then show ?thesis using every_answer_sent [OF plain_can_answer] by blast
qed

end
