(* ===== verification/MainLoop.thy ===== *)
theory MainLoop
  imports SessionLive
begin

text \<open>
  The main loop over the bytes of a connection: commands that are sent back to back are answered one by one,
  in order; what happens when the client stops sending, or sends a packet that is too large.
\<close>

section \<open>Writers do not read\<close>

named_theorems rd_keeps \<open>operations that leave the input alone\<close>

lemma rd_flush [rd_keeps]: "rd_script (snd (flushWBuff s)) = rd_script s"
proof (induction s rule: flushWBuff.induct)
  case (1 s)
  show ?case
    by (subst flushWBuff.simps) (use 1 in \<open>auto split: wr_ret.split prod.split\<close>)
qed

lemma rd_flush_eq [rd_keeps]: "flushWBuff s = (r, s') \<Longrightarrow> rd_script s' = rd_script s"
  using rd_flush [of s] by simp

lemma rd_writeBytes: "rd_script (snd (writeBytes b s)) = rd_script s"
proof (induction b s rule: writeBytes.induct)
  case (1 b s)
  show ?case
    by (subst writeBytes.simps) (use 1 in \<open>auto simp: Let_def split: prod.split sum.split option.split if_splits dest!: rd_flush_eq\<close>)
qed

lemma rd_writeBytes_eq [rd_keeps]: "writeBytes b s = (r, s') \<Longrightarrow> rd_script s' = rd_script s"
  using rd_writeBytes [of b s] by simp

lemma rd_sendInPlace [rd_keeps]: "sendInPlace fl p s = (r, s') \<Longrightarrow> rd_script s' = rd_script s"
  by (auto simp: sendInPlace_def getWriteBufForHeaderPayload_def getWriteBuf_def putAt_def writePacketHeaderNoFlush_def
      finishWriteToBufNoFlush_def finishWriteToBufFlush_def Let_def split: prod.splits sum.splits option.splits if_splits
      dest!: rd_flush_eq rd_writeBytes_eq)


section \<open>One answer\<close>

text \<open>\<open>answers1 s r\<close>: the operation succeeds, sends one packet that has left the buffer, reads nothing and
  leaves a session that can answer.\<close>

definition answers1 :: "session \<Rightarrow> bool sio \<Rightarrow> bool" where
  "answers1 s r \<longleftrightarrow> (\<exists>s' p. r = (Inr True, s') \<and> can_answer s' \<and> isIgnoreStmt s' = isIgnoreStmt s
     \<and> rd_script (s_net s') = rd_script (s_net s)
     \<and> sent (s_net s') = wire (s_net s) @ frames (netPacketSeqID (s_net s)) p \<and> wire (s_net s') = sent (s_net s'))"

lemma answers1_inplace:
  assumes "can_answer s1" "s_net s1 = s_net s" "isIgnoreStmt s1 = isIgnoreStmt s" "short_payload p"
  shows "answers1 s (on_net (sendInPlace True p) s1)"
proof -
  obtain n where n: "on_net (sendInPlace True p) s1 = (Inr True, s1 \<lparr> s_net := n \<rparr>)" "tx_ready n"
    "wire n = wire (s_net s1) @ frames (netPacketSeqID (s_net s1)) p" "sent n = wire n"
    using on_net_sendInPlace [of s1 p True] assms(1,4) by (auto simp: can_answer_def)
  have "rd_script n = rd_script (s_net s1)"
    using n(1) rd_sendInPlace [of True p "s_net s1"] by (auto simp: on_net_def split: prod.splits dest: arg_cong [where f = s_net])
  moreover have "can_answer (s1 \<lparr> s_net := n \<rparr>)"
    using assms(1) n(2) by (simp add: can_answer_def sess_ready_def)
  ultimately show ?thesis
    using n assms(2,3) unfolding answers1_def by (intro exI [of _ "s1 \<lparr> s_net := n \<rparr>"] exI [of _ p]) simp
qed

lemma cleared_lengths:
  "length (dataOfTheChangedSessionInfo (clear_track s)) \<le> 2" "length stateChangeMark \<le> 3"
  by (simp_all add: dataOfTheChangedSessionInfo_def clear_track_def assembleLenencString_def val_or_null_def
      assembleLenencUnsignedLong_def stateChangeMark_def)

lemma cleared_block: "sessionTrackBlock (clear_track s) \<noteq> None"
proof -
  let ?t = "trackedData (clear_track s)"
  have t: "length ?t \<le> 5" using cleared_lengths(1) [of s] cleared_lengths(2) by (simp add: trackedData_def Let_def)
  have "length (sessionStateKind (clear_track s)) \<le> 9"
    using length_lenenc [of "nat (sessionStateType (clear_track s))"] by (simp add: sessionStateKind_def)
  moreover have "length (assembleLenencString2 ?t (int (length ?t))) \<le> 14" using length_lenenc_string2 [of ?t] t by simp
  ultimately have "length (sessionStateInfo (clear_track s)) \<le> 26"
    using cleared_lengths(2) by (simp add: sessionStateInfo_def)
  then show ?thesis using t by (simp add: sessionTrackBlock_def Let_def)
qed

lemma cleared_can_answer: "can_answer s \<Longrightarrow> can_answer (clear_track (s \<lparr> serverStatus := w \<rparr>))"
  using cleared_block by (simp add: can_answer_def no_track_overflow_def strings_fit_def sess_ready_def) (simp add: clear_track_def)

lemma answers1_OK:
  assumes "can_answer s" shows "answers1 s (sendOKPacket s)"
proof -
  obtain p where p: "assembleOKEOFCommonPacketPayload s (status_word s) (warnings s) = Some p"
    using common_Some [of s "status_word s" "warnings s"] assms
    by (auto simp: can_answer_def no_track_overflow_def split: if_splits)
  have "short_payload (le_enc 1 0 @ p)"
    using common_payload_length [OF p] assms by (simp add: short_payload_def can_answer_def)
  then have "answers1 s (on_net (sendInPlace True (le_enc 1 0 @ p)) (clear_track (s \<lparr> serverStatus := status_word s \<rparr>)))"
    using assms by (intro answers1_inplace cleared_can_answer) (simp_all add: clear_track_def)
  then show ?thesis using p by (simp add: sendOKPacket_def Let_def assembleOKPacketPayload_def)
qed

lemma track_warn: "sessionTrackBlock (s \<lparr> warnErrCode := c, warnErrMsg := m \<rparr>) = sessionTrackBlock s"
proof -
  let ?s = "s \<lparr> warnErrCode := c, warnErrMsg := m \<rparr>"
  have "dataOfTheChangedSessionInfo ?s = dataOfTheChangedSessionInfo s" "sessionStateKind ?s = sessionStateKind s"
    by (auto simp: dataOfTheChangedSessionInfo_def sessionStateKind_def)
  moreover from this have "trackedData ?s = trackedData s" by (simp add: trackedData_def)
  ultimately show ?thesis by (simp add: sessionTrackBlock_def sessionStateInfo_def)
qed

lemma answers1_Err:
  assumes "can_answer s" shows "answers1 s (sendErrPacket c m st s)"
proof -
  let ?s = "s \<lparr> warnErrCode := convertErrorCode (haloMysqlErrorCodes s) c, warnErrMsg := take 1023 m \<rparr>"
  have "short_payload (assembleErrorPacketPayload ?s c' st m)" for c'
    by (simp add: assembleErrorPacketPayload_def short_payload_def min_def)
  moreover have "sessionTrackBlock ?s = sessionTrackBlock s"
    by (rule track_warn)
  then have "can_answer ?s"
    using assms by (auto simp: can_answer_def sess_ready_def strings_fit_def no_track_overflow_def has_cap_def min_def)
  ultimately show ?thesis
    unfolding sendErrPacket_def Let_def by (intro answers1_inplace) simp_all
qed

lemma answers1_EOF:
  assumes "can_answer s" shows "answers1 s (sendEOFPacketFlush s)"
proof -
  obtain p where p: "assembleEOFPacketPayload s (warnings s) (status_word s) = Some p" "short_payload p"
    using assembleEOF_short [of s] assms unfolding can_answer_def by blast
  have "answer_view (s \<lparr> serverStatus := status_word s \<rparr>) = answer_view s" by (simp add: answer_view_def)
  then have "can_answer (s \<lparr> serverStatus := status_word s \<rparr>)" using can_answer_cong assms by blast
  from answers1_inplace [OF this _ _ p(2), of s] show ?thesis
    using p(1) by (simp add: sendEOFPacketFlush_def sendEOFPacket_def Let_def)
qed

lemma answers1_view:
  assumes "answer_view s0 = answer_view s" "isIgnoreStmt s0 = isIgnoreStmt s" "answers1 s0 r"
  shows "answers1 s r"
  using assms answer_view_fields(1) [OF assms(1)] by (simp add: answers1_def)

lemma answers1_clear: "answers1 s (Inr True, s') \<Longrightarrow> answers1 s (Inr True, s' \<lparr> warnErrCode := c \<rparr>)"
  by (auto simp: answers1_def can_answer_upd)

text \<open>The commands that are not forwarded.\<close>

lemma simple_command:
  assumes "can_answer s" "fc \<notin> forwarded_commands"
  shows "\<exists>s'. processCommand e fc b s = (Inr (1, fc, b), s') \<and> answers1 s (Inr True, s')"
proof -
  define s0 where "s0 = s \<lparr> moreResultsFlag := 0, warnings := 0, preOrPostSQLNum := 0, lastInsertIDForPacket := 0,
    skipUtf8Verify := False, isExtendPreStmt := False, isExtendExeStmt := False,
    isExtendCloseStmt := False, isResetConnStmt := False \<rparr>"
  have v: "answer_view s0 = answer_view s" "isIgnoreStmt s0 = isIgnoreStmt s" by (simp_all add: s0_def answer_view_def)
  have c: "can_answer s0" using can_answer_cong [OF v(1)] assms(1) by simp
  obtain s1 where 1: "sendOKPacket s0 = (Inr True, s1)" "answers1 s (Inr True, s1)"
    using answers1_view [OF v answers1_OK [OF c]] by (metis answers1_def)
  obtain s2 where 2: "sendEOFPacketFlush s0 = (Inr True, s2)" "answers1 s (Inr True, s2)"
    using answers1_view [OF v answers1_EOF [OF c]] by (metis answers1_def)
  obtain s3 where 3: "sendUnsupportError s0 = (Inr True, s3)" "answers1 s (Inr True, s3)"
    using answers1_view [OF v answers1_Err [OF c]] unfolding sendUnsupportError_def by (metis answers1_def)
  show ?thesis
    using assms(2) 1 2 3 answers1_clear [of s _ 0] unfolding processCommand_def Let_def s0_def [symmetric]
    by (simp add: forwarded_commands_def answered_def answeredClear_def simulateShowFieldsReturn_def)
qed

section \<open>Reading one command\<close>

lemma readPayload_short:
  assumes "stream (rd_script s) = frames 0 p @ rest" "length p \<le> m" "length p + 128 < 1024"
  shows "\<exists>b es. readPayload m (initStringInfo \<lparr> si_offset := 128 \<rparr>) s = (Inr b, s \<lparr> rd_script := es, netPacketSeqID := 1 \<rparr>)
    \<and> stream es = rest \<and> si_offset b = 128 \<and> 128 < length (si_data b) \<and> take (length p) (drop 128 (si_data b)) = p"
proof -
  let ?s = "s \<lparr> netPacketSeqID := 0 \<rparr>" and ?b = "resetStringInfo (initStringInfo \<lparr> si_offset := 128 \<rparr>)"
  obtain es where h: "readAndProcessPacketHeader ?s = (Inr (Some (length p)), ?s \<lparr> rd_script := es, netPacketSeqID := 1 \<rparr>)"
      "stream es = p @ rest"
    using readAndProcessPacketHeader_ok [of ?s "length p" 0 "p @ rest"] assms
    by (auto simp: frames.simps [of 0 p] SINGLE_PACKET_MAX_PAYLOAD_LENGTH_def)
  let ?s1 = "?s \<lparr> rd_script := es, netPacketSeqID := 1 \<rparr>"
  obtain es1 where rd: "readBytes (length p) es = (p, True, es1)"
    using readBytes_ok [of "length p" es] h(2) by (cases "readBytes (length p) es") auto
  have es1: "stream es1 = rest" using readBytes_ok(3) [OF rd] h(2) by simp
  have b: "length (si_data ?b) = 1024" "si_offset ?b = 128" "si_len ?b = 0" "si_maxlen ?b = 1024"
    by (simp_all add: resetStringInfo_def initStringInfo_def)
  let ?b1 = "?b \<lparr> si_data := overwrite (si_data ?b) 128 p, si_len := length p \<rparr>"
  have r: "readPacketPayload ?b (length p) ?s1 = (Inr (True, ?b1), ?s1 \<lparr> rd_script := es1 \<rparr>)"
    using assms(3) rd b by (simp add: readPacketPayload_def mem_write_def)
  let ?d = "overwrite (overwrite (si_data ?b) 128 p) (length p + 128) [NUL]"
  have "readPayload m (initStringInfo \<lparr> si_offset := 128 \<rparr>) s
      = (Inr (?b1 \<lparr> si_data := ?d \<rparr>), s \<lparr> rd_script := es1, netPacketSeqID := 1 \<rparr>)"
    using h(1) r assms b by (simp add: readPayload_def readAndProcessPacket_def SINGLE_PACKET_MAX_PAYLOAD_LENGTH_def mem_write_def)
  moreover have "take (length p) (drop 128 ?d) = p"
    using assms(3) b by (simp add: overwrite_def take_drop [symmetric])
  ultimately show ?thesis using b es1 assms(3) by (intro exI conjI) auto
qed

section \<open>Steps of the loop\<close>

lemma can_answer_read:
  assumes "can_answer s" "0 \<le> q" "q \<le> 255"
  shows "can_answer (s \<lparr> s_net := (s_net s) \<lparr> rd_script := es, netPacketSeqID := q \<rparr> \<rparr>)"
  using assms by (simp add: can_answer_def sess_ready_def tx_ready_def net_wf_def wr_ok_def)

lemma wire_read [simp]: "wire (n \<lparr> rd_script := es, netPacketSeqID := q \<rparr>) = wire n"
  by (simp add: wire_def pending_def)

text \<open>A step that answers one command, and what is left of the input.\<close>

definition step_answers :: "env \<Rightarrow> server \<Rightarrow> session \<Rightarrow> bytes \<Rightarrow> int \<Rightarrow> session \<Rightarrow> bytes \<Rightarrow> bool" where
  "step_answers e server s rest q s' p \<longleftrightarrow> mainStep e server s = (Inr True, s') \<and> can_answer s' \<and> isIgnoreStmt s' = isIgnoreStmt s
     \<and> stream (rd_script (s_net s')) = rest \<and> sent (s_net s') = wire (s_net s) @ frames q p \<and> wire (s_net s') = sent (s_net s')"

definition answered_commands :: "int set" where
  "answered_commands = UNIV - forwarded_commands - {-1}"

lemma mainStep_command:
  assumes "can_answer s" "stream (rd_script (s_net s)) = frames 0 (c # args) @ rest"
    and "int_of_char c \<in> answered_commands" "length (c # args) \<le> max_allowed_packet e" "length (c # args) < 896"
  shows "\<exists>s' p. step_answers e server s rest 1 s' p"
proof -
  let ?p = "c # args"
  obtain b es where r: "readPayload (max_allowed_packet e) (initStringInfo \<lparr> si_offset := 128 \<rparr>) (s_net s)
      = (Inr b, (s_net s) \<lparr> rd_script := es, netPacketSeqID := 1 \<rparr>)" "stream es = rest" "si_offset b = 128"
      "128 < length (si_data b)" "take (length ?p) (drop 128 (si_data b)) = ?p"
    using readPayload_short [OF assms(2,4)] assms(5) by auto
  let ?s1 = "s \<lparr> s_net := (s_net s) \<lparr> rd_script := es, netPacketSeqID := 1 \<rparr> \<rparr>" and ?b = "b \<lparr> si_offset := 129 \<rparr>"
  have "si_data b ! 128 = c" using r(4,5) by (metis Cons_nth_drop_Suc length_Cons list.inject take_Suc_Cons)
  then have rc: "readCommand e initStringInfo s = (Inr (int_of_char c, ?b), ?s1)"
    using r by (simp add: readCommand_def on_net_def mem_read_def)
  have c1: "can_answer ?s1" using can_answer_read [OF assms(1)] by simp
  obtain s' where s': "processCommand e (int_of_char c) ?b ?s1 = (Inr (1, int_of_char c, ?b), s')" "answers1 ?s1 (Inr True, s')"
    using simple_command [OF c1, of "int_of_char c" e ?b] assms(3) by (auto simp: answered_commands_def)
  have "mainStep e server s = (Inr True, s')"
    using assms(3) unfolding mainStep_def rc by (simp add: s'(1) reportError_def answered_commands_def)
  then show ?thesis using s'(2) r(2) by (auto simp: step_answers_def answers1_def)
qed

lemma mainStep_error:
  assumes "can_answer s" "\<not> isIgnoreStmt s" "elogError e f = Some (code, msg)"
    and "readPayload (max_allowed_packet e) (initStringInfo \<lparr> si_offset := 128 \<rparr>) (s_net s)
      = (Inl f, (s_net s) \<lparr> rd_script := es, netPacketSeqID := q \<rparr>)" "stream es = rest" "0 \<le> q" "q \<le> 255"
  shows "\<exists>s' p. step_answers e server s rest q s' p"
proof -
  let ?s1 = "s \<lparr> s_net := (s_net s) \<lparr> rd_script := es, netPacketSeqID := q \<rparr> \<rparr>" and ?c = "\<lambda>s. s \<lparr> affectedRows := -1 \<rparr>"
  have v: "answer_view (?c s) = answer_view s" for s by (simp add: answer_view_def)
  have c1: "can_answer ?s1" using can_answer_read [OF assms(1,6,7)] .
  then have "can_answer (?c ?s1)" using can_answer_cong [OF v] by simp
  then obtain s2 where s2: "sendErrPacket code msg ''HY000'' (?c ?s1) = (Inr True, s2)" "answers1 ?s1 (Inr True, s2)"
    using answers1_view [OF v _ answers1_Err, of ?s1 code msg "''HY000''"] by (auto simp: answers1_def)
  define s3 where "s3 = (if auto_rollback_tx_on_error s2 \<and> inTransactionFlag s2 = 1
    then s2 \<lparr> needStartNewTrx := True, needAddCommitOrRollbackAfterCurSQL := 2 \<rparr> else s2)"
  have "mainStep e server s = (Inr True, s3)"
    using assms(2-4) s2(1) by (simp add: mainStep_def readCommand_def on_net_def reportError_def sendErrorMessage_def s3_def)
  moreover have "answer_view s3 = answer_view s2" "isIgnoreStmt s3 = isIgnoreStmt s2" by (simp_all add: s3_def answer_view_def)
  moreover from this have "can_answer s3 = can_answer s2" "s_net s3 = s_net s2" using can_answer_cong answer_view_fields(1) by blast+
  ultimately show ?thesis
    using s2(2) assms(5) by (auto simp: step_answers_def answers1_def)
qed

lemma mainStep_eof:
  assumes "can_answer s" "\<not> isIgnoreStmt s" "stream (rd_script (s_net s)) = []"
  shows "\<exists>s' p. step_answers e server s [] 0 s' p"
proof -
  obtain bs ok es where rd: "readBytes EACH_PACKET_HEARDER_LENGTH (rd_script (s_net s)) = (bs, ok, es)"
    by (cases "readBytes EACH_PACKET_HEARDER_LENGTH (rd_script (s_net s))") auto
  then have "\<not> ok" "stream es = []"
    using readBytes_ok [OF rd] assms(3) by (simp_all add: EACH_PACKET_HEARDER_LENGTH_def)
  then have r: "readPayload (max_allowed_packet e) (initStringInfo \<lparr> si_offset := 128 \<rparr>) (s_net s)
      = (Inl ClientDisconnectRead, (s_net s) \<lparr> rd_script := es, netPacketSeqID := 0 \<rparr>)"
    using rd by (simp add: readPayload_def readAndProcessPacket_def readAndProcessPacketHeader_def Let_def)
  show ?thesis
    using mainStep_error [OF assms(1,2) _ r \<open>stream es = []\<close>] by (simp add: elogError_def)
qed

lemma mainStep_oversized:
  assumes "can_answer s" "\<not> isIgnoreStmt s" "max_allowed_packet e < n" "n < 256 ^ 3"
    and "stream (rd_script (s_net s)) = header n 0 @ rest"
  shows "\<exists>s' p. step_answers e server s rest 1 s' p"
proof -
  obtain es where h: "readAndProcessPacketHeader ((s_net s) \<lparr> netPacketSeqID := 0 \<rparr>)
      = (Inr (Some n), (s_net s) \<lparr> rd_script := es, netPacketSeqID := 1 \<rparr>)" "stream es = rest"
    using readAndProcessPacketHeader_ok [of "(s_net s) \<lparr> netPacketSeqID := 0 \<rparr>" n 0 rest] assms(4,5) by auto
  have r: "readPayload (max_allowed_packet e) (initStringInfo \<lparr> si_offset := 128 \<rparr>) (s_net s)
      = (Inl (PacketTooLarge n), (s_net s) \<lparr> rd_script := es, netPacketSeqID := 1 \<rparr>)"
    using h(1) assms(3) by (simp add: readPayload_def readAndProcessPacket_def)
  show ?thesis
    using mainStep_error [OF assms(1,2) _ r h(2)] by (simp add: elogError_def)
qed

section \<open>The loop\<close>

lemma mainLoop_add:
  "mainLoop (m + n) e server s = (case mainLoop m e server s of (None, s1) \<Rightarrow> mainLoop n e server s1 | (Some r, s1) \<Rightarrow> (Some r, s1))"
  by (induction m arbitrary: s) (auto split: prod.split sum.split bool.split)

definition answered_payload :: "env \<Rightarrow> bytes \<Rightarrow> bool" where
  "answered_payload e p \<longleftrightarrow> p \<noteq> [] \<and> int_of_char (hd p) \<in> answered_commands \<and> length p \<le> max_allowed_packet e \<and> length p < 896"

lemma mainStep_payload:
  assumes "can_answer s" "stream (rd_script (s_net s)) = frames 0 p @ rest" "answered_payload e p"
  shows "\<exists>s' p'. step_answers e server s rest 1 s' p'"
  using assms mainStep_command [OF assms(1), of "hd p" "tl p" rest e server] by (cases p) (auto simp: answered_payload_def)

lemma mainLoop_commands:
  assumes "can_answer s" "stream (rd_script (s_net s)) = concat (map (frames 0) cmds) @ rest" "list_all (answered_payload e) cmds"
  shows "\<exists>s' ps. mainLoop (length cmds) e server s = (None, s') \<and> length ps = length cmds \<and> can_answer s'
    \<and> isIgnoreStmt s' = isIgnoreStmt s \<and> stream (rd_script (s_net s')) = rest
    \<and> wire (s_net s') = wire (s_net s) @ concat (map (frames 1) ps)
    \<and> (cmds \<noteq> [] \<longrightarrow> sent (s_net s') = wire (s_net s'))"
  using assms
proof (induction cmds arbitrary: s)
  case (Cons p cmds)
  obtain s1 p1 where "step_answers e server s (concat (map (frames 0) cmds) @ rest) 1 s1 p1"
    using mainStep_payload [OF Cons.prems(1), of p "concat (map (frames 0) cmds) @ rest" e server] Cons.prems(2,3) by auto
  then have 1: "mainStep e server s = (Inr True, s1)" "can_answer s1" "isIgnoreStmt s1 = isIgnoreStmt s"
    "stream (rd_script (s_net s1)) = concat (map (frames 0) cmds) @ rest"
    "wire (s_net s1) = wire (s_net s) @ frames 1 p1" "sent (s_net s1) = wire (s_net s1)"
    by (simp_all add: step_answers_def)
  obtain s' ps where 2: "mainLoop (length cmds) e server s1 = (None, s')" "length ps = length cmds" "can_answer s'"
    "isIgnoreStmt s' = isIgnoreStmt s1" "stream (rd_script (s_net s')) = rest"
    "wire (s_net s') = wire (s_net s1) @ concat (map (frames 1) ps)" "cmds \<noteq> [] \<longrightarrow> sent (s_net s') = wire (s_net s')"
    using Cons.IH [OF 1(2,4)] Cons.prems(3) by auto
  have "sent (s_net s') = wire (s_net s')" using 1(6) 2(1,7) by (cases "cmds = []") simp_all
  moreover have "mainLoop (length (p # cmds)) e server s = (None, s')" using 1(1) 2(1) by simp
  moreover have "wire (s_net s') = wire (s_net s) @ concat (map (frames 1) (p1 # ps))" using 1(5) 2(6) by simp
  ultimately show ?case using 2(2-5) 1(3) by (metis length_Cons)
qed simp

lemma mainStep_quit:
  assumes "stream (rd_script (s_net s)) = frames 0 [CHR 0x01] @ rest" "1 \<le> max_allowed_packet e"
  shows "\<exists>s'. mainStep e server s = (Inr False, s') \<and> wire (s_net s') = wire (s_net s) \<and> sent (s_net s') = sent (s_net s)"
proof -
  obtain b es where r: "readPayload (max_allowed_packet e) (initStringInfo \<lparr> si_offset := 128 \<rparr>) (s_net s)
      = (Inr b, (s_net s) \<lparr> rd_script := es, netPacketSeqID := 1 \<rparr>)" "si_offset b = 128"
      "128 < length (si_data b)" "take 1 (drop 128 (si_data b)) = [CHR 0x01]"
    using readPayload_short [OF assms(1), of "max_allowed_packet e"] assms(2) by auto
  have "si_data b ! 128 = CHR 0x01"
    using r(3,4) by (metis Cons_nth_drop_Suc One_nat_def list.inject take0 take_Suc_Cons)
  then have "readCommand e initStringInfo s
      = (Inr (MYS_REQ_QUIT, b \<lparr> si_offset := 129 \<rparr>), s \<lparr> s_net := (s_net s) \<lparr> rd_script := es, netPacketSeqID := 1 \<rparr> \<rparr>)"
    using r by (simp add: readCommand_def on_net_def mem_read_def int_of_char_def MYS_REQ_QUIT_def)
  then show ?thesis
    by (simp add: mainStep_def reportError_def processCommand_def Let_def req_defs)
qed


definition plain_on :: "bytes \<Rightarrow> session" where
  "plain_on bs = plain \<lparr> s_net := (s_net plain) \<lparr> rd_script := [Data bs], netPacketSeqID := 0 \<rparr> \<rparr>"

lemma plain_on_facts:
  "can_answer (plain_on bs)" "stream (rd_script (s_net (plain_on bs))) = bs" "\<not> isIgnoreStmt (plain_on bs)" "wire (s_net (plain_on bs)) = []"
  using can_answer_read [OF plain_can_answer, of 0 "[Data bs]"]
  by (simp_all add: plain_on_def) (simp_all add: plain_def init_session_def initNetTransceiver_def wire_def pending_def bslice_def)

lemma ping_payload: "1 \<le> max_allowed_packet e \<Longrightarrow> answered_payload e [CHR 0x0E]"
  by (simp add: answered_payload_def answered_commands_def forwarded_commands_def req_defs int_of_char_def)

definition idle_server :: server where "idle_server = (\<lambda>_ _. ([], None))"


text \<open>C36. A session whose client stops sending without a QUIT does not end: the failed read is an ordinary
  error, it is reported by an error packet, and the loop reads again.  As long as the socket takes the
  packets (the client has only closed its sending side, say) the loop goes on for ever and sends one packet
  per iteration.\<close>

theorem disconnect_never_ends:
  assumes "can_answer s" "\<not> isIgnoreStmt s" "stream (rd_script (s_net s)) = []"
  shows "\<exists>s' ps. mainLoop n e server s = (None, s') \<and> length ps = n
    \<and> wire (s_net s') = wire (s_net s) @ concat (map (frames 0) ps)"
proof -
  have "\<exists>s' ps. mainLoop n e server s = (None, s') \<and> length ps = n \<and> wire (s_net s') = wire (s_net s) @ concat (map (frames 0) ps)"
    if "can_answer s" "\<not> isIgnoreStmt s" "stream (rd_script (s_net s)) = []" for s
    using that
  proof (induction n arbitrary: s)
    case (Suc n)
    obtain s1 p where 1: "step_answers e server s [] 0 s1 p" using mainStep_eof [OF Suc.prems] by blast
    then obtain s' ps where "mainLoop n e server s1 = (None, s')" "length ps = n"
        "wire (s_net s') = wire (s_net s1) @ concat (map (frames 0) ps)"
      using Suc.IH [of s1] Suc.prems(2) by (auto simp: step_answers_def)
    with 1 show ?case by (intro exI [of _ s'] exI [of _ "p # ps"]) (simp add: step_answers_def)
  qed simp
  then show ?thesis using assms .
qed

theorem disconnect_never_ends_witness:
  "\<exists>s' ps. mainLoop 1000 plain_env idle_server (plain_on []) = (None, s') \<and> length ps = 1000
    \<and> wire (s_net s') = concat (map (frames 0) ps)"
  using disconnect_never_ends [of "plain_on []" 1000 plain_env idle_server] plain_on_facts [of "[]"] by auto

text \<open>C37. The payload of a command that is too large is executed: the adapter reads the header, reports the
  error and announces the end of the connection, but the loop goes on and takes the payload for packets.
  If it begins with the framing of a command, that command is answered.\<close>

theorem oversized_payload_executed:
  assumes "can_answer s" "\<not> isIgnoreStmt s" "max_allowed_packet e < n" "n < 256 ^ 3" "answered_payload e p"
    and "stream (rd_script (s_net s)) = header n 0 @ frames 0 p @ rest"
  shows "\<exists>s' p1 p2. mainLoop 2 e server s = (None, s') \<and> stream (rd_script (s_net s')) = rest
    \<and> sent (s_net s') = wire (s_net s) @ frames 1 p1 @ frames 1 p2"
proof -
  obtain s1 p1 where 1: "step_answers e server s (frames 0 p @ rest) 1 s1 p1"
    using mainStep_oversized [OF assms(1-4,6)] by blast
  then have "can_answer s1" "stream (rd_script (s_net s1)) = frames 0 p @ rest" by (simp_all add: step_answers_def)
  then obtain s' p2 where "step_answers e server s1 rest 1 s' p2" using mainStep_payload [OF _ _ assms(5)] by blast
  with 1 show ?thesis by (intro exI [of _ s'] exI [of _ p1] exI [of _ p2]) (simp add: step_answers_def numeral_2_eq_2)
qed

theorem oversized_payload_executed_witness:
  "\<exists>s' p1 p2. mainLoop 2 (plain_env \<lparr> max_allowed_packet := 1048576 \<rparr>) idle_server
      (plain_on (header 16777214 0 @ frames 0 [CHR 0x0E])) = (None, s')
    \<and> sent (s_net s') = frames 1 p1 @ frames 1 p2"
proof -
  let ?e = "plain_env \<lparr> max_allowed_packet := 1048576 \<rparr>"
  have "max_allowed_packet ?e < 16777214" "(16777214 :: nat) < 256 ^ 3" "answered_payload ?e [CHR 0x0E]"
    by (simp_all add: ping_payload)
  from oversized_payload_executed [OF plain_on_facts(1,3) this, of "header 16777214 0 @ frames 0 [CHR 0x0E]" "[]" idle_server]
  show ?thesis unfolding plain_on_facts(2,4) by auto
qed

end
