(* ===== verification/Sha1.thy ===== *)
theory Sha1
  imports MysPrelude
begin

text \<open>
  SHA-1 as \<open>src/common/sha1.c\<close> computes it, on a little-endian machine: the context with its block buffer,
  the 80 rounds over a circular schedule of 16 words, the padding; and the equivalence with the definition of
  the standard, which pads the whole message, splits it into blocks and expands each block to 80 words.
\<close>

unbundle bit_operations_syntax

section \<open>The code\<close>

type_synonym u32 = "32 word"

definition K_table :: "u32 list" where "K_table = [0x5a827999, 0x6ed9eba1, 0x8f1bbcdc, 0xca62c1d6]"
definition K :: "nat \<Rightarrow> u32" where "K t = K_table ! (t div 20)"

definition F0 :: "u32 \<Rightarrow> u32 \<Rightarrow> u32 \<Rightarrow> u32" where "F0 b c d = (b AND c) OR (NOT b AND d)"
definition F1 :: "u32 \<Rightarrow> u32 \<Rightarrow> u32 \<Rightarrow> u32" where "F1 b c d = (b XOR c) XOR d"
definition F2 :: "u32 \<Rightarrow> u32 \<Rightarrow> u32 \<Rightarrow> u32" where "F2 b c d = ((b AND c) OR (b AND d)) OR (c AND d)"
definition F3 :: "u32 \<Rightarrow> u32 \<Rightarrow> u32 \<Rightarrow> u32" where "F3 b c d = (b XOR c) XOR d"

definition S :: "nat \<Rightarrow> u32 \<Rightarrow> u32" where "S n x = push_bit n x OR drop_bit (32 - n) x"

record pg_sha1_ctx =
  sh_h :: "u32 list"
  sh_c :: "64 word"
  sh_m :: bytes
  sh_count :: nat

text \<open>The bytes of each word of the buffer are swapped in place; then the buffer is read as words.\<close>

definition swap4 :: "bytes \<Rightarrow> bytes" where
  "swap4 m = concat (map (\<lambda>i. rev (bslice (4 * i) 4 m)) [0..<16])"

definition b32 :: "bytes \<Rightarrow> u32 list" where
  "b32 m = map (\<lambda>i. of_nat (le_dec (bslice (4 * i) 4 m))) [0..<16]"

type_synonym vars = "u32 \<times> u32 \<times> u32 \<times> u32 \<times> u32"

text \<open>The body of the four loops; each has its function, and the first expands the schedule only from the
  17th round on.\<close>

definition F :: "nat \<Rightarrow> u32 \<Rightarrow> u32 \<Rightarrow> u32 \<Rightarrow> u32" where
  "F t = (if t < 20 then F0 else if t < 40 then F1 else if t < 60 then F2 else F3)"

definition sha1_round :: "nat \<Rightarrow> u32 list \<times> vars \<Rightarrow> u32 list \<times> vars" where
  "sha1_round t = (\<lambda>(W, a, b, c, d, e).
     let s = t mod 16;
         W1 = (if 16 \<le> t
               then W[s := S 1 (W ! ((s + 13) mod 16) XOR W ! ((s + 8) mod 16) XOR W ! ((s + 2) mod 16) XOR W ! s)]
               else W);
         tmp = S 5 a + F t b c d + e + W1 ! s + K t in
     (W1, tmp, a, S 30 b, c, d))"

definition sha1_step :: "pg_sha1_ctx \<Rightarrow> pg_sha1_ctx" where
  "sha1_step ctx =
     (let H = sh_h ctx in
      case snd (fold sha1_round [0..<80] (b32 (swap4 (sh_m ctx)), H ! 0, H ! 1, H ! 2, H ! 3, H ! 4)) of
        (a, b, c, d, e) \<Rightarrow>
          ctx \<lparr> sh_h := [H ! 0 + a, H ! 1 + b, H ! 2 + c, H ! 3 + d, H ! 4 + e], sh_m := replicate 64 NUL \<rparr>)"

definition PUTPAD :: "char \<Rightarrow> pg_sha1_ctx \<Rightarrow> pg_sha1_ctx" where
  "PUTPAD x ctx =
     (let ctx1 = ctx \<lparr> sh_m := overwrite (sh_m ctx) (sh_count ctx mod 64) [x], sh_count := (sh_count ctx + 1) mod 64 \<rparr> in
      if sh_count ctx1 mod 64 = 0 then sha1_step ctx1 else ctx1)"

definition sha1_pad :: "pg_sha1_ctx \<Rightarrow> pg_sha1_ctx" where
  "sha1_pad ctx =
     (let ctx1 = PUTPAD (CHR 0x80) ctx;
          padstart = sh_count ctx1 mod 64;
          padlen = 64 - padstart;
          ctx2 = (if padlen < 8
                  then sha1_step (ctx1 \<lparr> sh_m := overwrite (sh_m ctx1) padstart (replicate padlen NUL),
                                         sh_count := (sh_count ctx1 + padlen) mod 64 \<rparr>)
                  else ctx1);
          padstart2 = sh_count ctx2 mod 64;
          padlen2 = 64 - padstart2;
          ctx3 = ctx2 \<lparr> sh_m := overwrite (sh_m ctx2) padstart2 (replicate (padlen2 - 8) NUL),
                        sh_count := (sh_count ctx2 + (padlen2 - 8)) mod 64 \<rparr> in
      fold PUTPAD (rev (le_enc 8 (unat (sh_c ctx3)))) ctx3)"

definition sha1_result :: "pg_sha1_ctx \<Rightarrow> bytes" where
  "sha1_result ctx = concat (map (\<lambda>x. rev (le_enc 4 (unat x))) (sh_h ctx))"

definition pg_sha1_init :: pg_sha1_ctx where
  "pg_sha1_init = \<lparr> sh_h = [0x67452301, 0xefcdab89, 0x98badcfe, 0x10325476, 0xc3d2e1f0], sh_c = 0,
     sh_m = replicate 64 NUL, sh_count = 0 \<rparr>"

function pg_sha1_update :: "pg_sha1_ctx \<Rightarrow> bytes \<Rightarrow> pg_sha1_ctx" where
  "pg_sha1_update ctx data =
     (if data = [] then ctx
      else
        let gapstart = sh_count ctx mod 64;
            gaplen = 64 - gapstart;
            copysiz = (if gaplen < length data then gaplen else length data);
            ctx1 = ctx \<lparr> sh_m := overwrite (sh_m ctx) gapstart (take copysiz data),
                         sh_count := (sh_count ctx + copysiz) mod 64,
                         sh_c := sh_c ctx + of_nat (copysiz * 8) \<rparr>;
            ctx2 = (if sh_count ctx1 mod 64 = 0 then sha1_step ctx1 else ctx1) in
        pg_sha1_update ctx2 (drop copysiz data))"
  by pat_completeness auto
termination
  by (relation "measure (\<lambda>(_, data). length data)") auto

declare pg_sha1_update.simps [simp del]

definition pg_sha1_final :: "pg_sha1_ctx \<Rightarrow> bytes" where
  "pg_sha1_final ctx = sha1_result (sha1_pad ctx)"

section \<open>The standard\<close>

text \<open>The definition of FIPS 180: the functions and constants by round, the schedule of 80 words, the
  compression of a block, the padded message.\<close>

definition rotl :: "nat \<Rightarrow> u32 \<Rightarrow> u32" where "rotl n x = word_rotl n x"

definition f_spec :: "nat \<Rightarrow> u32 \<Rightarrow> u32 \<Rightarrow> u32 \<Rightarrow> u32" where
  "f_spec t x y z =
     (if t < 20 then (x AND y) XOR (NOT x AND z)
      else if 40 \<le> t \<and> t < 60 then (x AND y) XOR (x AND z) XOR (y AND z)
      else x XOR y XOR z)"

definition k_spec :: "nat \<Rightarrow> u32" where
  "k_spec t = (if t < 20 then 0x5a827999 else if t < 40 then 0x6ed9eba1 else if t < 60 then 0x8f1bbcdc else 0xca62c1d6)"

fun sched :: "u32 list \<Rightarrow> nat \<Rightarrow> u32" where
  "sched M t = (if t < 16 then M ! t
                else rotl 1 (sched M (t - 3) XOR sched M (t - 8) XOR sched M (t - 14) XOR sched M (t - 16)))"

declare sched.simps [simp del]

definition round_spec :: "u32 list \<Rightarrow> nat \<Rightarrow> vars \<Rightarrow> vars" where
  "round_spec M t = (\<lambda>(a, b, c, d, e). (rotl 5 a + f_spec t b c d + e + k_spec t + sched M t, a, rotl 30 b, c, d))"

definition be_words :: "bytes \<Rightarrow> u32 list" where
  "be_words B = map (\<lambda>i. of_nat (le_dec (rev (bslice (4 * i) 4 B)))) [0..<16]"

definition compress :: "bytes \<Rightarrow> u32 list \<Rightarrow> u32 list" where
  "compress B H = (case fold (round_spec (be_words B)) [0..<80] (H ! 0, H ! 1, H ! 2, H ! 3, H ! 4) of
     (a, b, c, d, e) \<Rightarrow> [a + H ! 0, b + H ! 1, c + H ! 2, d + H ! 3, e + H ! 4])"

function blocks :: "bytes \<Rightarrow> u32 list \<Rightarrow> u32 list" where
  "blocks x H = (if length x < 64 then H else blocks (drop 64 x) (compress (take 64 x) H))"
  by pat_completeness auto
termination by (relation "measure (\<lambda>(x, _). length x)") auto

declare blocks.simps [simp del]

definition padded :: "bytes \<Rightarrow> bytes" where
  "padded x = x @ [CHR 0x80] @ replicate ((119 - length x mod 64) mod 64) NUL @ rev (le_enc 8 (8 * length x))"

definition IV :: "u32 list" where "IV = [0x67452301, 0xefcdab89, 0x98badcfe, 0x10325476, 0xc3d2e1f0]"

definition sha1 :: "bytes \<Rightarrow> bytes" where
  "sha1 x = concat (map (\<lambda>w. rev (le_enc 4 (unat w))) (blocks (padded x) IV))"

section \<open>The rounds\<close>

lemma S_rotl: assumes "0 < n" "n < 32" shows "S n x = rotl n x"
proof (rule bit_word_eqI)
  fix i assume "i < LENGTH(32)"
  then have i: "i < 32" by simp
  have over: "\<not> bit x (32 - n + i)" if "n \<le> i"
    using that assms bit_imp_le_length [of x "32 - n + i"] by auto
  have m: "(i + 32 - n) mod 32 = (if n \<le> i then i - n else 32 - n + i)"
  proof (cases "n \<le> i")
    case True
    then have "i + 32 - n = (i - n) + 32" by simp
    moreover have "i - n < 32" using i by simp
    ultimately show ?thesis using True by (metis mod_add_self2 mod_less)
  next
    case False
    then have "i + 32 - n < 32" "i + 32 - n = 32 - n + i" using assms by simp_all
    then show ?thesis using False by simp
  qed
  have "bit (rotl n x) i = bit x ((i + 32 - n) mod 32)"
    using i assms by (simp add: rotl_def bit_word_rotl_iff)
  then show "bit (S n x) i = bit (rotl n x) i"
    using i assms over unfolding m by (auto simp: S_def bit_or_iff bit_push_bit_iff bit_drop_bit_eq)
qed

lemma F_spec: "F t b c d = f_spec t b c d"
  by (rule bit_word_eqI)
    (auto simp: F_def f_spec_def F0_def F1_def F2_def F3_def bit_or_iff bit_and_iff bit_xor_iff bit_not_iff)

lemma K_spec: "t < 80 \<Longrightarrow> K t = k_spec t"
proof -
  assume "t < 80"
  then consider "t div 20 = 0" "t < 20" | "t div 20 = 1" "20 \<le> t" "t < 40" | "t div 20 = 2" "40 \<le> t" "t < 60"
    | "t div 20 = 3" "60 \<le> t"
    by fastforce
  then show ?thesis by cases (simp_all add: K_def K_table_def k_spec_def)
qed

text \<open>After \<open>t\<close> rounds the circular buffer holds the last 16 words of the schedule.\<close>

definition ring :: "u32 list \<Rightarrow> nat \<Rightarrow> u32 list \<Rightarrow> bool" where
  "ring M t W \<longleftrightarrow> length W = 16 \<and> (if t \<le> 16 then W = M else (\<forall>j. t \<le> j + 16 \<and> j < t \<longrightarrow> W ! (j mod 16) = sched M j))"

lemma ring_mod:
  assumes "16 \<le> (t :: nat)"
  shows "(t mod 16 + 13) mod 16 = (t - 3) mod 16" "(t mod 16 + 8) mod 16 = (t - 8) mod 16" "(t mod 16 + 2) mod 16 = (t - 14) mod 16"
    "t mod 16 = (t - 16) mod 16"
proof -
  obtain k where t: "t = k + 16" using assms by (metis le_add_diff_inverse2)
  show "(t mod 16 + 13) mod 16 = (t - 3) mod 16" "(t mod 16 + 8) mod 16 = (t - 8) mod 16"
    "(t mod 16 + 2) mod 16 = (t - 14) mod 16" "t mod 16 = (t - 16) mod 16"
    unfolding t by (simp_all add: mod_simps ac_simps)
qed

lemma ring_get: "ring M t W \<Longrightarrow> length M = 16 \<Longrightarrow> t \<le> j + 16 \<Longrightarrow> j < t \<Longrightarrow> j < 16 \<or> 16 < t \<Longrightarrow> W ! (j mod 16) = sched M j"
  by (cases "t \<le> 16") (auto simp: ring_def sched.simps [of M j])

lemma round_ring:
  assumes "ring M t W" "length M = 16" "t < 80"
  shows "\<exists>W'. sha1_round t (W, v) = (W', round_spec M t v) \<and> ring M (Suc t) W'"
proof -
  obtain a b c d e where v: "v = (a, b, c, d, e)" by (metis surj_pair)
  define W1 where "W1 = (if 16 \<le> t
    then W[t mod 16 := S 1 (W ! ((t mod 16 + 13) mod 16) XOR W ! ((t mod 16 + 8) mod 16) XOR W ! ((t mod 16 + 2) mod 16) XOR W ! (t mod 16))]
    else W)"
  have len: "length W = 16" using assms(1) by (simp add: ring_def)
  have new: "W1 ! (t mod 16) = sched M t"
  proof (cases "16 \<le> t")
    case True
    have g: "W ! (j mod 16) = sched M j" if "j \<in> {t - 3, t - 8, t - 14, t - 16}" for j
    proof -
      have "t \<le> j + 16" "j < t" "j < 16 \<or> 16 < t" using that True by auto
      then show ?thesis using ring_get [OF assms(1,2)] by blast
    qed
    have "S 1 (W ! ((t mod 16 + 13) mod 16) XOR W ! ((t mod 16 + 8) mod 16) XOR W ! ((t mod 16 + 2) mod 16) XOR W ! (t mod 16)) = sched M t"
      unfolding ring_mod(1-3) [OF True] using g [of "t - 3"] g [of "t - 8"] g [of "t - 14"] g [of "t - 16"] ring_mod(4) [OF True] True
      by (simp add: S_rotl sched.simps [of M t])
    then show ?thesis using True len by (simp add: W1_def)
  next
    case False
    then show ?thesis using assms(1) by (simp add: W1_def ring_def sched.simps [of M t])
  qed
  have "ring M (Suc t) W1"
  proof (cases "16 \<le> t")
    case True
    have "W1 ! (j mod 16) = sched M j" if j: "Suc t \<le> j + 16" "j < Suc t" for j
    proof (cases "j = t")
      case False
      have "j mod 16 \<noteq> t mod 16"
      proof
        assume "j mod 16 = t mod 16"
        then have "16 dvd t - j" using j by (metis less_Suc_eq_le mod_eq_dvd_iff_nat)
        then show False using False j dvd_imp_le [of 16 "t - j"] by simp
      qed
      moreover have "j < 16 \<or> 16 < t" using j False True by auto
      ultimately show ?thesis using j False True ring_get [OF assms(1,2), of j] by (simp add: W1_def)
    qed (use new in simp)
    then show ?thesis using True len by (simp add: ring_def W1_def)
  qed (use assms(1,2) in \<open>simp add: ring_def W1_def\<close>)
  moreover have "sha1_round t (W, v) = (W1, round_spec M t v)"
    using new assms(3) unfolding sha1_round_def v W1_def [symmetric] Let_def prod.case round_spec_def
    by (simp add: W1_def [symmetric] S_rotl F_spec K_spec ac_simps)
  ultimately show ?thesis by blast
qed

lemma rounds:
  assumes "length M = 16" "n \<le> 80"
  shows "\<exists>W. fold sha1_round [0..<n] (M, v) = (W, fold (round_spec M) [0..<n] v) \<and> ring M n W"
  using assms(2)
proof (induction n)
  case (Suc n)
  then obtain W where "fold sha1_round [0..<n] (M, v) = (W, fold (round_spec M) [0..<n] v)" "ring M n W" by auto
  then show ?case using round_ring [OF _ assms(1), of n W] Suc.prems by auto
qed (use assms(1) in \<open>simp add: ring_def\<close>)

section \<open>Blocks\<close>

lemma bslice_swap4: "i < 16 \<Longrightarrow> length m = 64 \<Longrightarrow> bslice (4 * i) 4 (swap4 m) = rev (bslice (4 * i) 4 m)"
proof -
  assume i: "i < 16" and m: "length m = 64"
  let ?f = "\<lambda>i. rev (bslice (4 * i) 4 m)"
  have len: "length (concat (map ?f [a..<b])) = 4 * (b - a)" if "b \<le> 16" for a b
    using that m by (induction b) (auto simp: Suc_diff_le not_le)
  have "[0..<16] = [0..<i] @ i # [Suc i..<16]" using i by (metis less_imp_le_nat upt_conv_Cons upt_add_eq_append zero_le le_add_diff_inverse add_0)
  then have "swap4 m = concat (map ?f [0..<i]) @ ?f i @ concat (map ?f [Suc i..<16])" by (simp add: swap4_def)
  moreover have "length (concat (map ?f [0..<i])) = 4 * i" using len [of i 0] i by simp
  moreover have "length (?f i) = 4" using i m by simp
  ultimately show ?thesis by (simp add: bslice_def)
qed

lemma b32_swap4: "length m = 64 \<Longrightarrow> b32 (swap4 m) = be_words m"
  by (auto simp: b32_def be_words_def bslice_swap4)

lemma step_compress:
  assumes "length (sh_m ctx) = 64"
  shows "sha1_step ctx = ctx \<lparr> sh_h := compress (sh_m ctx) (sh_h ctx), sh_m := replicate 64 NUL \<rparr>"
proof -
  let ?H = "sh_h ctx" and ?M = "be_words (sh_m ctx)"
  let ?v = "(?H ! 0, ?H ! 1, ?H ! 2, ?H ! 3, ?H ! 4)"
  have "length ?M = 16" by (simp add: be_words_def)
  then have r: "snd (fold sha1_round [0..<80] (?M, ?v)) = fold (round_spec ?M) [0..<80] ?v"
    using rounds [of ?M 80 ?v] by auto
  show ?thesis
    unfolding sha1_step_def b32_swap4 [OF assms] Let_def r compress_def
    by (cases "fold (round_spec ?M) [0..<80] ?v") (simp add: ac_simps)
qed

lemma blocks_append:
  "64 dvd length x \<Longrightarrow> blocks (x @ y) H = blocks y (blocks x H)"
proof (induction x H rule: blocks.induct)
  case (1 x H)
  show ?case
  proof (cases "length x < 64")
    case True
    with 1 have "x = []" by (metis dvd_imp_le length_greater_0_conv not_le)
    then show ?thesis by (simp add: blocks.simps [of "[]"])
  next
    case False
    have "64 dvd length (drop 64 x)" using 1(2) by simp
    with 1(1) False show ?thesis
      by (simp add: blocks.simps [of "x @ y"] blocks.simps [of x])
  qed
qed

lemma blocks_one: "length B = 64 \<Longrightarrow> blocks B H = compress B H"
  by (subst blocks.simps) (simp add: blocks.simps [of "[]"])

lemma blocks_short: "length y < 64 \<Longrightarrow> blocks y H = H"
  by (simp add: blocks.simps)

section \<open>The buffer\<close>

text \<open>The context after the bytes \<open>x\<close>.\<close>

definition absorbed :: "pg_sha1_ctx \<Rightarrow> bytes \<Rightarrow> bool" where
  "absorbed ctx x \<longleftrightarrow> length (sh_m ctx) = 64 \<and> sh_count ctx = length x mod 64
     \<and> take (sh_count ctx) (sh_m ctx) = drop (64 * (length x div 64)) x \<and> sh_h ctx = blocks x IV"

lemma absorbed_init: "absorbed pg_sha1_init []"
  by (simp add: absorbed_def pg_sha1_init_def IV_def blocks.simps)

lemma blocks_prefix: "blocks x H = blocks (take (64 * (length x div 64)) x) H"
proof -
  have "64 * (length x div 64) \<le> length x" by simp
  then have "length (take (64 * (length x div 64)) x) = 64 * (length x div 64)" by (simp only: length_take min_absorb2)
  then have "64 dvd length (take (64 * (length x div 64)) x)" by (simp only: dvd_triv_left)
  moreover have "length (drop (64 * (length x div 64)) x) < 64" by (simp add: minus_mult_div_eq_mod)
  ultimately show ?thesis
    using blocks_append [of "take (64 * (length x div 64)) x" "drop (64 * (length x div 64)) x" H] by (simp add: blocks_short)
qed

lemma block_count:
  fixes n k :: nat
  shows "n mod 64 + k < 64 \<Longrightarrow> (n + k) div 64 = n div 64" "n mod 64 + k < 64 \<Longrightarrow> (n + k) mod 64 = n mod 64 + k"
    "n mod 64 + k = 64 \<Longrightarrow> n + k = 64 * (n div 64 + 1)"
proof -
  define q r where "q = n div 64" and "r = n mod 64"
  have n: "n = 64 * q + r" by (simp add: q_def r_def)
  show "n mod 64 + k < 64 \<Longrightarrow> (n + k) div 64 = n div 64" "n mod 64 + k < 64 \<Longrightarrow> (n + k) mod 64 = n mod 64 + k"
    unfolding r_def [symmetric] q_def [symmetric] unfolding n by (simp_all add: add.assoc)
  show "n mod 64 + k = 64 \<Longrightarrow> n + k = 64 * (n div 64 + 1)"
    unfolding r_def [symmetric] q_def [symmetric] unfolding n by simp
qed

text \<open>Storing \<open>bs\<close> behind what the buffer holds, with the step of the full buffer, absorbs \<open>bs\<close>.\<close>

lemma absorb:
  assumes "absorbed ctx x" "length x mod 64 + length bs \<le> 64"
    and "m' = overwrite (sh_m ctx) (sh_count ctx mod 64) bs" "ctx1 = ctx \<lparr> sh_m := m', sh_count := (sh_count ctx + length bs) mod 64, sh_c := c \<rparr>"
  shows "length x mod 64 + length bs < 64 \<Longrightarrow> absorbed ctx1 (x @ bs)"
    and "length x mod 64 + length bs = 64 \<Longrightarrow> absorbed (sha1_step ctx1) (x @ bs)"
proof -
  define k q where "k = length x mod 64" and "q = 64 * (length x div 64)"
  have a: "length (sh_m ctx) = 64" "sh_count ctx = k" "take k (sh_m ctx) = drop q x" "sh_h ctx = blocks x IV" "k < 64"
    using assms(1) by (auto simp: absorbed_def k_def q_def)
  have len: "length x = q + k" by (simp add: k_def q_def)
  have kb: "k + length bs \<le> 64" using assms(2) by (simp add: k_def)
  have m': "length m' = 64" "take (k + length bs) m' = drop q x @ bs"
    using assms(3) a len kb by (simp_all add: overwrite_def)
  have full: "length (take q x) = q" "64 dvd length (take q x)" "take q (x @ bs) = take q x" using len by (simp_all add: q_def)
  {
    assume lt: "length x mod 64 + length bs < 64"
    have d: "64 * (length (x @ bs) div 64) = q" "length (x @ bs) mod 64 = k + length bs"
      using block_count(1,2) [OF lt] by (simp_all add: k_def q_def)
    have "blocks (x @ bs) IV = blocks x IV"
      using blocks_prefix [of "x @ bs" IV] blocks_prefix [of x IV] unfolding d q_def [symmetric] by (simp only: full(3))
    then show "absorbed ctx1 (x @ bs)"
      using a m' lt len unfolding absorbed_def d assms(4) k_def [symmetric] by simp
  next
    assume eq: "length x mod 64 + length bs = 64"
    then have k: "k + length bs = 64" by (simp add: k_def)
    have B: "m' = drop q x @ bs" using m' unfolding k by simp
    then have "x @ bs = take q x @ m'" by simp
    then have "blocks (x @ bs) IV = compress m' (sh_h ctx)"
      using blocks_append [OF full(2), of m' IV] blocks_one [OF m'(1)] blocks_prefix [of x IV] a(4) by (simp add: q_def)
    moreover have "length (x @ bs) = 64 * (length x div 64 + 1)" using block_count(3) [OF eq] by simp
    then have "length (x @ bs) mod 64 = 0" "64 * (length (x @ bs) div 64) = length (x @ bs)" by (simp_all only: mod_mult_self1_is_0 nonzero_mult_div_cancel_left)
    then have "length (x @ bs) mod 64 = 0" "drop (64 * (length (x @ bs) div 64)) (x @ bs) = []" by (simp_all only: drop_all order_refl)
    ultimately show "absorbed (sha1_step ctx1) (x @ bs)"
      using m'(1) unfolding absorbed_def assms(4) by (simp add: step_compress a(2) k)
  }
qed

lemma step_c: "length (sh_m ctx) = 64 \<Longrightarrow> sh_c (sha1_step ctx) = sh_c ctx"
  by (simp add: step_compress)

lemma PUTPAD_absorbs:
  assumes "absorbed ctx x"
  shows "absorbed (PUTPAD b ctx) (x @ [b])" "sh_c (PUTPAD b ctx) = sh_c ctx"
proof -
  define c1 where "c1 = ctx \<lparr> sh_m := overwrite (sh_m ctx) (sh_count ctx mod 64) [b], sh_count := (sh_count ctx + 1) mod 64 \<rparr>"
  have k: "sh_count ctx = length x mod 64" "length x mod 64 < 64" "length (sh_m ctx) = 64"
    using assms by (simp_all add: absorbed_def)
  have ab: "length x mod 64 + 1 < 64 \<Longrightarrow> absorbed c1 (x @ [b])" "length x mod 64 + 1 = 64 \<Longrightarrow> absorbed (sha1_step c1) (x @ [b])"
    using absorb [OF assms _ refl, of "[b]" c1 "sh_c ctx"] by (simp_all add: c1_def)
  have P: "PUTPAD b ctx = (if (length x mod 64 + 1) mod 64 = 0 then sha1_step c1 else c1)"
    by (simp add: PUTPAD_def Let_def c1_def k(1))
  have "length (sh_m c1) = 64" using k by (simp add: c1_def)
  then show "sh_c (PUTPAD b ctx) = sh_c ctx" unfolding P by (simp add: step_c) (simp add: c1_def)
  show "absorbed (PUTPAD b ctx) (x @ [b])"
  proof (cases "length x mod 64 + 1 = 64")
    case False
    then have "length x mod 64 + 1 < 64" using k(2) by simp
    then show ?thesis unfolding P using ab(1) by simp
  qed (simp add: P ab(2))
qed

lemma PUTPADs_absorb: "absorbed ctx x \<Longrightarrow> absorbed (fold PUTPAD bs ctx) (x @ bs)"
proof (induction bs arbitrary: ctx x)
  case (Cons b bs)
  from Cons.IH [OF PUTPAD_absorbs(1) [OF Cons.prems]] show ?case by simp
qed simp

lemma update_absorbs:
  "absorbed ctx x \<Longrightarrow> absorbed (pg_sha1_update ctx y) (x @ y) \<and> sh_c (pg_sha1_update ctx y) = sh_c ctx + of_nat (8 * length y)"
proof (induction "length y" arbitrary: ctx x y rule: less_induct)
  case less
  show ?case
  proof (cases "y = []")
    case False
    let ?k = "length x mod 64"
    define n where "n = (if 64 - sh_count ctx mod 64 < length y then 64 - sh_count ctx mod 64 else length y)"
    define c1 where "c1 = ctx \<lparr> sh_m := overwrite (sh_m ctx) (sh_count ctx mod 64) (take n y),
        sh_count := (sh_count ctx + n) mod 64, sh_c := sh_c ctx + of_nat (n * 8) \<rparr>"
    define c2 where "c2 = (if sh_count c1 mod 64 = 0 then sha1_step c1 else c1)"
    have k: "sh_count ctx = ?k" "?k < 64" "length (sh_m ctx) = 64" using less.prems by (simp_all add: absorbed_def)
    have n: "n \<le> length y" "0 < n" "?k + n \<le> 64" using False k by (auto simp: n_def)
    have u: "pg_sha1_update ctx y = pg_sha1_update c2 (drop n y)"
      unfolding pg_sha1_update.simps [of ctx y] Let_def n_def [symmetric] c1_def [symmetric] c2_def [symmetric]
      using False by simp
    have ab: "?k + n < 64 \<Longrightarrow> absorbed c1 (x @ take n y)" "?k + n = 64 \<Longrightarrow> absorbed (sha1_step c1) (x @ take n y)"
      using absorb [OF less.prems _ refl, of "take n y" c1 "sh_c ctx + of_nat (n * 8)"] n by (simp_all add: c1_def)
    have z: "sh_count c1 mod 64 = (?k + n) mod 64" by (simp add: c1_def k(1))
    have c2: "absorbed c2 (x @ take n y)"
      unfolding c2_def z using ab n by (cases "?k + n = 64") simp_all
    have "length (sh_m c1) = 64" using k n by (simp add: c1_def)
    then have "sh_c c2 = sh_c ctx + of_nat (8 * n)" unfolding c2_def by (simp add: step_c) (simp add: c1_def)
    moreover have "length (drop n y) < length y" using n False by simp
    moreover have "8 * length y = 8 * n + 8 * length (drop n y)" using n by simp
    ultimately show ?thesis
      using less.hyps [of "drop n y", OF _ c2] unfolding u by (simp only: of_nat_add append_assoc append_take_drop_id add.assoc)
  qed (use less.prems in \<open>simp add: pg_sha1_update.simps\<close>)
qed

lemma le_enc_mod: "le_enc k (n mod 256 ^ k) = le_enc k n"
proof -
  have "le_enc k n = le_enc k (le_dec (le_enc k n))" using le_enc_le_dec [of "le_enc k n"] by simp
  then show ?thesis by (simp add: le_dec_le_enc)
qed

lemma length_bytes: "le_enc 8 (unat (of_nat n :: 64 word)) = le_enc 8 n"
  using le_enc_mod [of 8 n] by (simp add: unat_of_nat take_bit_eq_mod)

lemma pad_zeros:
  fixes n :: nat
  defines "r \<equiv> Suc n mod 64"
  defines "n1 \<equiv> (if 64 - r < 8 then 64 - r else 0)"
  shows "n1 + (56 - (Suc n + n1) mod 64) = (119 - n mod 64) mod 64"
proof -
  define q k where "q = n div 64" and "k = n mod 64"
  have n: "n = 64 * q + k" "k < 64" by (simp_all add: q_def k_def)
  consider "k = 63" | "k \<le> 55" | "56 \<le> k" "k \<le> 62" using n(2) by linarith
  then show ?thesis
  proof cases
    case 1
    then show ?thesis using n(1) by (simp add: n1_def r_def)
  next
    case 2
    have "Suc n = 64 * q + (k + 1)" using n by simp
    then have "r = k + 1" "Suc n mod 64 = k + 1" using 2 by (simp_all add: r_def)
    moreover have "(119 - k) mod 64 = 55 - k"
    proof -
      have "119 - k = (55 - k) + 64" using 2 by simp
      moreover have "55 - k < 64" by simp
      ultimately show ?thesis by (metis mod_add_self2 mod_less)
    qed
    ultimately show ?thesis using 2 by (simp add: n1_def flip: k_def)
  next
    case 3
    have "Suc n = 64 * q + (k + 1)" using n by simp
    then have r: "r = k + 1" using 3 by (simp add: r_def)
    then have "n1 = 63 - k" using 3 by (simp add: n1_def)
    moreover from this have "Suc n + n1 = 64 * (q + 1)" using n 3 by simp
    moreover have "119 - k < 64" using 3 by simp
    ultimately show ?thesis using 3 by (simp flip: k_def)
  qed
qed

text \<open>The padding, from the context of the whole message.\<close>

lemma pad_absorbs:
  assumes "absorbed ctx x" "sh_c ctx = of_nat (8 * length x)"
  shows "sh_h (sha1_pad ctx) = blocks (padded x) IV"
proof -
  let ?x1 = "x @ [CHR 0x80]" and ?r = "length (x @ [CHR 0x80]) mod 64"
  define c1 where "c1 = PUTPAD (CHR 0x80) ctx"
  have a1: "absorbed c1 ?x1" "sh_c c1 = of_nat (8 * length x)"
    using PUTPAD_absorbs [OF assms(1)] assms(2) by (simp_all add: c1_def)
  have k1: "sh_count c1 = ?r" "length (sh_m c1) = 64" "?r < 64" using a1(1) by (simp_all add: absorbed_def)
  define c2 where "c2 = (if 64 - sh_count c1 mod 64 < 8
     then sha1_step (c1 \<lparr> sh_m := overwrite (sh_m c1) (sh_count c1 mod 64) (replicate (64 - sh_count c1 mod 64) NUL),
            sh_count := (sh_count c1 + (64 - sh_count c1 mod 64)) mod 64 \<rparr>) else c1)"
  define n1 where "n1 = (if 64 - ?r < 8 then 64 - ?r else 0)"
  have n1: "(if 64 - Suc (length x) mod 64 < 8 then 64 - Suc (length x) mod 64 else 0) = n1" by (simp add: n1_def)
  let ?x2 = "?x1 @ replicate n1 NUL"
  have a2: "absorbed c2 ?x2 \<and> sh_c c2 = of_nat (8 * length x)"
  proof (cases "64 - ?r < 8")
    case True
    define d where "d = c1 \<lparr> sh_m := overwrite (sh_m c1) (sh_count c1 mod 64) (replicate (64 - ?r) NUL),
        sh_count := (sh_count c1 + (64 - ?r)) mod 64 \<rparr>"
    have "c2 = sha1_step d" using True k1(1) by (simp add: c2_def d_def)
    moreover have "absorbed (sha1_step d) (?x1 @ replicate (64 - ?r) NUL)"
      using absorb(2) [OF a1(1) _ refl, of "replicate (64 - ?r) NUL" d "sh_c c1"] k1(3) by (simp add: d_def)
    moreover have "sh_c (sha1_step d) = sh_c c1" using k1 by (subst step_c) (simp_all add: d_def)
    ultimately show ?thesis using True a1(2) by (simp add: n1_def)
  qed (use a1 k1 in \<open>simp add: c2_def n1_def\<close>)
  have r2: "length ?x2 mod 64 \<le> 56"
  proof (cases "64 - ?r < 8")
    case True
    then have "?r + n1 = 64" using k1(3) by (simp add: n1_def)
    then show ?thesis using block_count(3) [of "length ?x1" n1] by (metis length_append length_replicate mod_mult_self1_is_0 zero_le)
  qed (simp add: n1_def)
  define n2 where "n2 = 56 - length ?x2 mod 64"
  define c3 where "c3 = c2 \<lparr> sh_m := overwrite (sh_m c2) (sh_count c2 mod 64) (replicate n2 NUL), sh_count := (sh_count c2 + n2) mod 64 \<rparr>"
  have "absorbed c3 (?x2 @ replicate n2 NUL)"
    using absorb(1) [OF conjunct1 [OF a2] _ refl, of "replicate n2 NUL" c3 "sh_c c2"] r2 by (simp add: c3_def n2_def)
  moreover have c3c: "sh_c c3 = of_nat (8 * length x)" using a2 by (simp add: c3_def)
  ultimately have f: "absorbed (fold PUTPAD (rev (le_enc 8 (unat (sh_c c3)))) c3)
      (?x2 @ replicate n2 NUL @ rev (le_enc 8 (8 * length x)))"
    using PUTPADs_absorb [of c3 "?x2 @ replicate n2 NUL"] unfolding c3c length_bytes by simp
  have c2k: "sh_count c2 mod 64 = length ?x2 mod 64" "64 - sh_count c2 mod 64 - 8 = n2"
    using a2 by (simp_all add: absorbed_def n2_def)
  have "sha1_pad ctx = fold PUTPAD (rev (le_enc 8 (unat (sh_c c3)))) c3"
    unfolding sha1_pad_def Let_def c1_def [symmetric] c2_def [symmetric] c2k(2) c3_def [symmetric] ..
  moreover have "n1 + n2 = (119 - length x mod 64) mod 64" using pad_zeros [of "length x"] unfolding n1 n2_def by simp
  then have "replicate ((119 - length x mod 64) mod 64) NUL = replicate n1 NUL @ replicate n2 NUL" by (metis replicate_add)
  then have "?x2 @ replicate n2 NUL @ rev (le_enc 8 (8 * length x)) = padded x" by (simp add: padded_def)
  ultimately show ?thesis using f by (simp add: absorbed_def)
qed

lemma sha1_chunks:
  "pg_sha1_final (fold (\<lambda>chunk ctx. pg_sha1_update ctx chunk) chunks pg_sha1_init) = sha1 (concat chunks)"
proof -
  have "absorbed (fold (\<lambda>chunk ctx. pg_sha1_update ctx chunk) chunks ctx) (x @ concat chunks)
      \<and> sh_c (fold (\<lambda>chunk ctx. pg_sha1_update ctx chunk) chunks ctx) = of_nat (8 * length (x @ concat chunks))"
    if "absorbed ctx x" "sh_c ctx = of_nat (8 * length x)" for ctx x
    using that
  proof (induction chunks arbitrary: ctx x)
    case (Cons y ys)
    from Cons.IH [of "pg_sha1_update ctx y" "x @ y"] show ?case
      using update_absorbs [OF Cons.prems(1), of y] Cons.prems(2) by (simp add: algebra_simps)
  qed simp
  from this [OF absorbed_init] show ?thesis
    using pad_absorbs [of _ "concat chunks"] unfolding pg_sha1_final_def sha1_result_def sha1_def by (simp add: pg_sha1_init_def)
qed

lemma length_compress: "length (compress B H) = 5"
  by (simp add: compress_def split: prod.split)

lemma length_blocks: "length H = 5 \<Longrightarrow> length (blocks x H) = 5"
  by (induction x H rule: blocks.induct) (simp add: blocks.simps length_compress)

lemma length_sha1 [simp]: "length (sha1 x) = 20"
proof -
  have "length (concat (map (\<lambda>w. rev (le_enc 4 (unat w))) ws)) = 4 * length ws" for ws :: "u32 list"
    by (induction ws) simp_all
  then show ?thesis using length_blocks [of IV "padded x"] by (simp add: sha1_def IV_def)
qed

text \<open>C9. The incremental SHA-1 of the server is that of the standard: for any message, however it is split
  into updates, the digest is the one obtained by padding the whole message, cutting it into blocks of 64
  bytes and compressing each with its schedule of 80 words.  The circular schedule of 16 words, the partial
  buffer, the byte swaps and the padding over one or two blocks do not change it.\<close>

theorem sha1_incremental:
  "pg_sha1_final (fold (\<lambda>chunk ctx. pg_sha1_update ctx chunk) chunks pg_sha1_init) = sha1 (concat chunks)
   \<and> length (sha1 (concat chunks)) = 20"
  using sha1_chunks by simp

end
