(* ===== verification/Auth.thy ===== *)
theory Auth
  imports Packets DataTypes Sha1
begin

text \<open>
  Logging on: the handshake packet and the client's response (\<open>src/backend/adapter/mysql/userLogonAuth.c\<close>),
  the password scheme \<open>mysql_native_password\<close> (\<open>pwdEncryptDecrypt.c\<close>) over the server's SHA-1, and
  \<open>authenticate\<close> of \<open>adapter.c\<close>, which composes them.  The entries of \<open>pg_hba.conf\<close>, the roles and their
  stored passwords, the encryption layer and the check of the search path are parameters.
\<close>

section \<open>Native passwords\<close>

definition SHA1_DIGEST_LENGTH :: nat where "SHA1_DIGEST_LENGTH = 20"
definition MYS_NATIVE_PASSWORD_PREFIX_LEN :: nat where "MYS_NATIVE_PASSWORD_PREFIX_LEN = 22"
definition MYS_NATIVE_PASSWORD_LEN :: nat where "MYS_NATIVE_PASSWORD_LEN = 40 + MYS_NATIVE_PASSWORD_PREFIX_LEN"

definition mysql_native_password_prefix :: bytes where
  "mysql_native_password_prefix = ''mysql_native_password:''"

text \<open>The salt, which the handshake sends in two parts.\<close>

definition salt :: bytes where
  "salt = [CHR ''v'', CHR 0x11, CHR 0x01, CHR 0x1F, CHR ''w'', CHR ''g'', CHR 0x11, CHR 0x02, CHR ''z'', CHR 0x10,
     CHR ''X'', CHR ''}'', CHR ''V'', CHR ''N'', CHR ''S'', CHR ''C'', CHR ''g'', CHR ''c'', CHR ''|'', CHR 0x11]"

text \<open>\<open>pg_cryptohash_init\<close>, some updates and \<open>pg_cryptohash_final\<close> on a SHA-1 context.\<close>

definition cryptohash :: "bytes list \<Rightarrow> bytes" where
  "cryptohash parts = pg_sha1_final (fold (\<lambda>part ctx. pg_sha1_update ctx part) parts pg_sha1_init)"

definition hex_char :: "nat \<Rightarrow> char" where
  "hex_char n = ''0123456789abcdef'' ! n"

definition mysNativePwdEncrypt :: "bytes \<Rightarrow> bytes" where
  "mysNativePwdEncrypt pwd =
     mysql_native_password_prefix
     @ concat (map (\<lambda>c. [hex_char ((of_char c :: nat) div 16), hex_char ((of_char c :: nat) mod 16)])
         (cryptohash [cryptohash [pwd]]))"

definition hex_nibble :: "char \<Rightarrow> nat" where
  "hex_nibble c =
     (if CHR ''0'' \<le> c \<and> c \<le> CHR ''9'' then of_char c - 48
      else if CHR ''a'' \<le> c \<and> c \<le> CHR ''f'' then of_char c - 97 + 10 else 0)"

definition decode_shadow :: "bytes \<Rightarrow> bytes" where
  "decode_shadow shadow =
     map (\<lambda>i. char_of (16 * hex_nibble (shadow ! (MYS_NATIVE_PASSWORD_PREFIX_LEN + 2 * i))
                       + hex_nibble (shadow ! (MYS_NATIVE_PASSWORD_PREFIX_LEN + 2 * i + 1))))
       [0..<SHA1_DIGEST_LENGTH]"

definition xor_bytes :: "bytes \<Rightarrow> bytes \<Rightarrow> bytes" where
  "xor_bytes = map2 (\<lambda>a b. char_of ((of_char a :: nat) XOR of_char b))"

definition checkMysNativeAuth :: "bytes \<Rightarrow> bytes \<Rightarrow> bool" where
  "checkMysNativeAuth clientPwd shadow =
     (let shadow_pass = decode_shadow shadow;
          sum = cryptohash [salt, shadow_pass] in
      cryptohash [xor_bytes sum (take SHA1_DIGEST_LENGTH clientPwd)] = shadow_pass)"

text \<open>\<open>mysCheckAuth\<close> on the stored password, if there is one, and the buffer of the client's response.  For
  a stored password of another kind it switches on an uninitialised variable.\<close>

definition is_native :: "bytes \<Rightarrow> bool" where
  "is_native shadow \<longleftrightarrow> strneq shadow mysql_native_password_prefix MYS_NATIVE_PASSWORD_PREFIX_LEN
     \<and> length shadow = MYS_NATIVE_PASSWORD_LEN
     \<and> list_all (\<lambda>c. c \<in> set ''0123456789abcdef'') (drop MYS_NATIVE_PASSWORD_PREFIX_LEN shadow)"

definition mysCheckAuth :: "bytes option \<Rightarrow> bytes \<Rightarrow> fault + bool" where
  "mysCheckAuth shadow userPwd =
     (if userPwd ! 0 = NUL then Inr (shadow = None)
      else
        (case shadow of
           None \<Rightarrow> Inr False
         | Some sp \<Rightarrow> if is_native sp then Inr (checkMysNativeAuth userPwd sp) else Inl OutOfBounds))"

section \<open>The handshake\<close>

definition MYS_CLT_CONNECT_WITH_DB :: nat where "MYS_CLT_CONNECT_WITH_DB = 8"
definition MYS_CLT_SSL :: nat where "MYS_CLT_SSL = 2048"
definition MYS_CLT_PLUGIN_AUTH :: nat where "MYS_CLT_PLUGIN_AUTH = 2 ^ 19"
definition MYS_CLT_PLUGIN_AUTH_LENENC_CLIENT_DATA :: nat where "MYS_CLT_PLUGIN_AUTH_LENENC_CLIENT_DATA = 2 ^ 21"

text \<open>\<open>strncmp(s, t, n) < 0\<close>\<close>

fun strnless :: "bytes \<Rightarrow> bytes \<Rightarrow> nat \<Rightarrow> bool" where
  "strnless s t 0 = False"
| "strnless [] t (Suc n) = (t \<noteq> [] \<and> hd t \<noteq> NUL)"
| "strnless (a # s) [] (Suc n) = False"
| "strnless (a # s) (b # t) (Suc n) = (a < b \<or> a = b \<and> a \<noteq> NUL \<and> strnless s t n)"

text \<open>\<open>pallocO\<close>: cleared memory with a mark, five bytes long, at the offsets 30, 35, and so on up to 50, or to
  the size if it is smaller.\<close>

definition pallocO :: "nat \<Rightarrow> bytes" where
  "pallocO n = (let len = (if n < 50 then n - n mod 5 else 50) in
     fold (\<lambda>i d. overwrite d i ''gzkn_'') (filter (\<lambda>i. i \<le> len) [30, 35, 40, 45, 50]) (replicate n NUL))"

text \<open>The assembly of a payload in a buffer: some fields are stored, others are skipped.\<close>

datatype segment = Store bytes | Skip nat

fun put_segments :: "segment list \<Rightarrow> bytes \<Rightarrow> nat \<Rightarrow> (bytes \<times> nat) option" where
  "put_segments [] d i = Some (d, i)"
| "put_segments (Skip n # ss) d i = put_segments ss d (i + n)"
| "put_segments (Store bs # ss) d i =
     (case mem_write d i bs of None \<Rightarrow> None | Some d1 \<Rightarrow> put_segments ss d1 (i + length bs))"

definition handshake_segments :: "bytes \<Rightarrow> bool \<Rightarrow> segment list" where
  "handshake_segments version enableSSL =
     (let capability_flags_1 = (if enableSSL then 0xF6DF OR MYS_CLT_SSL else 0xF6DF);
          character_set = (if strnless version ''5.7'' 3 \<or> strnless version ''8.0'' 3 then 45 else 255) in
      [Store (le_enc 1 10), Store version, Skip 1, Store (le_enc 4 1), Store (take 8 salt), Store (le_enc 1 0),
       Store (le_enc 2 capability_flags_1), Store (le_enc 1 character_set), Store (le_enc 2 2), Store (le_enc 2 0x81EF),
       Store (le_enc 1 21), Skip 10, Store (drop 8 salt @ [NUL]), Store ''mysql_native_password'', Skip 1])"

definition assembleHandshakePacketPayload :: "bytes \<Rightarrow> bool \<Rightarrow> bytes \<Rightarrow> bytes option" where
  "assembleHandshakePacketPayload version enableSSL payloadBuf =
     (case put_segments (handshake_segments version enableSSL) payloadBuf 0 of
        None \<Rightarrow> None
      | Some (d, payloadLen) \<Rightarrow> if payloadLen \<le> length d then Some (take payloadLen d) else None)"

definition assembleAuthSwitchRequestPacketPayload :: bytes where
  "assembleAuthSwitchRequestPacketPayload = [CHR 0xFE] @ ''mysql_native_password'' @ [NUL] @ salt @ [NUL]"

text \<open>The results of parsing a response: the flags, and the caller's buffers for the user name (256 bytes),
  the authentication response (512) and the database (256).\<close>

record handshake =
  hs_clientFlag :: nat
  hs_maxPacketSize :: nat
  hs_user :: bytes
  hs_auth :: bytes
  hs_db :: bytes

text \<open>\<open>strlen\<close> of the text at an index of a buffer, and the copy of a text into a cleared buffer.\<close>

definition strlen_at :: "bytes \<Rightarrow> nat \<Rightarrow> nat option" where
  "strlen_at d i = (if NUL \<in> set (drop i d) then Some (strlen (drop i d)) else None)"

definition cleared_with :: "nat \<Rightarrow> bytes \<Rightarrow> bytes" where
  "cleared_with n bs = take n (bs @ replicate n NUL)"

section \<open>The response\<close>

datatype UserAuth =
    uaReject | uaImplicitReject | uaTrust | uaIdent | uaPassword | uaMD5 | uaSCRAM | uaGSS | uaSSPI | uaPAM | uaBSD
  | uaLDAP | uaCert | uaRADIUS | uaPeer

text \<open>The parameters: the settings, the encryption layer, the method \<open>pg_hba.conf\<close> gives to a user and a
  database, the roles and their stored passwords, the check of a search path, and the initial contents of the
  uninitialised buffer for the response.\<close>

record auth_env =
  ae_version :: bytes
  ae_enableSSL :: bool
  ae_max_allowed :: nat
  ae_open_ssl :: "net \<Rightarrow> net option"
  ae_hba :: "bytes \<Rightarrow> bytes \<Rightarrow> UserAuth"
  ae_role_exists :: "bytes \<Rightarrow> bool"
  ae_role_password :: "bytes \<Rightarrow> bytes option"
  ae_search_path_ok :: "bytes \<Rightarrow> bool"
  ae_stack :: bytes

text \<open>The end of the parser for protocol 4.1: the authentication response, the database, the plugin name.  A
  return value of 0 leaves the rest as it is.\<close>

definition authSwitch :: "auth_env \<Rightarrow> handshake \<Rightarrow> session \<Rightarrow> (int \<times> handshake) sio" where
  "authSwitch a h s =
     andThen (on_net (writePacketHeaderPayloadFlush assembleAuthSwitchRequestPacketPayload) s) (\<lambda>_ s1.
     andThen (on_net (readPayloadForLogon (ae_max_allowed a) initStringInfo) s1) (\<lambda>inBuf s2.
       let n = si_len inBuf;
           copied = cleared_with n (cstr (take n (drop (si_offset inBuf) (si_data inBuf)))) in
       if n < length (hs_auth h) then (Inr (1, h \<lparr> hs_auth := cleared_with (length (hs_auth h)) copied \<rparr>), s2)
       else (Inl OutOfBounds, s2)))"

definition parsePlugin :: "auth_env \<Rightarrow> bytes \<Rightarrow> nat \<Rightarrow> handshake \<Rightarrow> session \<Rightarrow> (int \<times> handshake) sio" where
  "parsePlugin a d i h s =
     (if hs_clientFlag h AND MYS_CLT_PLUGIN_AUTH \<noteq> 0 then
        (case strlen_at d i of
           None \<Rightarrow> (Inl OutOfBounds, s)
         | Some n \<Rightarrow>
             if 99 < n then (Inr (0, h), s)
             else if cstr (drop i d) \<noteq> ''mysql_native_password'' then authSwitch a h s
             else (Inr (1, h), s))
      else (Inr (1, h), s))"

definition parseDb :: "auth_env \<Rightarrow> bytes \<Rightarrow> nat \<Rightarrow> handshake \<Rightarrow> session \<Rightarrow> (int \<times> handshake) sio" where
  "parseDb a d i h s =
     (if hs_clientFlag h AND MYS_CLT_CONNECT_WITH_DB \<noteq> 0 then
        (let h1 = h \<lparr> hs_db := replicate (length (hs_db h)) NUL \<rparr> in
         case strlen_at d i of
           None \<Rightarrow> (Inl OutOfBounds, s)
         | Some n \<Rightarrow>
             if length (hs_db h) - 1 < n then (Inr (0, h1), s)
             else parsePlugin a d (i + n + 1) (h1 \<lparr> hs_db := cleared_with (length (hs_db h)) (cstr (drop i d)) \<rparr>) s)
      else parsePlugin a d i h s)"

text \<open>The length of the response: one byte, or, if the client says so, a length-encoded integer.  It is a
  signed \<open>long\<close>, and the byte behind the response is read before the length is checked.\<close>

definition authLenPrefix :: "nat \<Rightarrow> char \<Rightarrow> nat \<times> nat" where
  "authLenPrefix flags c =
     (if flags AND MYS_CLT_PLUGIN_AUTH_LENENC_CLIENT_DATA \<noteq> 0 then
        (if c = CHR 0xFC then (1, 2) else if c = CHR 0xFD then (1, 3) else if c = CHR 0xFE then (1, 8) else (0, 1))
      else (0, 1))"

definition parseAuthResp :: "auth_env \<Rightarrow> bytes \<Rightarrow> nat \<Rightarrow> handshake \<Rightarrow> session \<Rightarrow> (int \<times> handshake) sio" where
  "parseAuthResp a d i h s =
     (case mem_read d i of
        None \<Rightarrow> (Inl OutOfBounds, s)
      | Some c \<Rightarrow>
          (case authLenPrefix (hs_clientFlag h) c of (skip, width) \<Rightarrow>
             let start = i + skip + width;
                 auth_resp_len = wrap_signed 64 (int (le_dec (bslice (i + skip) width d)));
                 end_index = int start + auth_resp_len in
             if length d < start \<or> end_index < 0 \<or> int (length d) \<le> end_index then (Inl OutOfBounds, s)
             else if auth_resp_len < 0 \<or> int (length (hs_auth h)) - 1 < auth_resp_len then (Inr (0, h), s)
             else
               parseDb a d (nat end_index)
                 (h \<lparr> hs_auth := cleared_with (length (hs_auth h)) (bslice start (nat auth_resp_len) d) \<rparr>) s))"

definition parseUser :: "auth_env \<Rightarrow> bytes \<Rightarrow> handshake \<Rightarrow> session \<Rightarrow> (int \<times> handshake) sio" where
  "parseUser a d h s =
     (case strlen_at d 32 of
        None \<Rightarrow> (Inl OutOfBounds, s)
      | Some n \<Rightarrow>
          if length (hs_user h) - 1 < n then (Inr (0, h \<lparr> hs_user := replicate (length (hs_user h)) NUL \<rparr>), s)
          else parseAuthResp a d (32 + n + 1) (h \<lparr> hs_user := cleared_with (length (hs_user h)) (cstr (drop 32 d)) \<rparr>) s)"

text \<open>The flags are an \<open>int\<close> that becomes an \<open>unsigned long\<close>; a client that asks for encryption sends the
  packet again behind it.\<close>

definition parseHandshakeResp41PacketPayload :: "auth_env \<Rightarrow> bytes \<Rightarrow> handshake \<Rightarrow> session \<Rightarrow> (int \<times> handshake) sio" where
  "parseHandshakeResp41PacketPayload a d h s =
     (let flags = le_dec (bslice 0 4 d) in
      if flags AND MYS_CLT_SSL \<noteq> 0 then
        (case ae_open_ssl a (s_net s) of
           None \<Rightarrow> (Inl (PgError ''0, failed to create SSL connect ''), s)
         | Some n \<Rightarrow>
             andThen (on_net (readPayloadForLogon (ae_max_allowed a) initStringInfo) (s \<lparr> s_net := n \<rparr>)) (\<lambda>inBuf s1.
               let d1 = drop (si_offset inBuf) (si_data inBuf) in
               parseUser a d1 (h \<lparr> hs_clientFlag := le_dec (bslice 0 4 d1), hs_maxPacketSize := le_dec (bslice 4 4 d1) \<rparr>) s1))
      else
        parseUser a d (h \<lparr> hs_clientFlag := (if flags < 2 ^ 31 then flags else flags + (2 ^ 64 - 2 ^ 32)),
                          hs_maxPacketSize := le_dec (bslice 4 4 d) \<rparr>) s)"

text \<open>The old protocol: the response begins at the terminator of the user name.\<close>

definition parseHandshakeResp320PacketPayload :: "bytes \<Rightarrow> nat \<Rightarrow> handshake \<Rightarrow> session \<Rightarrow> (int \<times> handshake) sio" where
  "parseHandshakeResp320PacketPayload d payloadLen h s =
     (case strlen_at d 5 of
        None \<Rightarrow> (Inl OutOfBounds, s)
      | Some userName_len \<Rightarrow>
          let auth_resp_start = 5 + userName_len;
              old = hs_clientFlag h;
              h1 = h \<lparr> hs_clientFlag := old - old mod 65536 + le_dec (bslice 0 2 d), hs_maxPacketSize := le_dec (bslice 2 3 d) \<rparr>;
              zeros = (\<lambda>buf. replicate (length buf) NUL) in
          if length (hs_user h) - 1 < userName_len then (Inr (0, h1 \<lparr> hs_user := zeros (hs_user h) \<rparr>), s)
          else
            let h2 = h1 \<lparr> hs_user := cleared_with (length (hs_user h)) (cstr (drop 5 d)), hs_auth := zeros (hs_auth h) \<rparr> in
            if hs_clientFlag h2 AND MYS_CLT_CONNECT_WITH_DB \<noteq> 0 then (Inr (1, h2 \<lparr> hs_db := zeros (hs_db h) \<rparr>), s)
            else if payloadLen < auth_resp_start \<or> length (hs_auth h) - 1 < payloadLen - auth_resp_start then (Inr (0, h2), s)
            else if length d < payloadLen then (Inl OutOfBounds, s)
            else (Inr (1, h2 \<lparr> hs_auth := cleared_with (length (hs_auth h)) (bslice auth_resp_start (payloadLen - auth_resp_start) d) \<rparr>), s))"

definition parseHandshakeRespPacketPayload :: "auth_env \<Rightarrow> bytes \<Rightarrow> nat \<Rightarrow> handshake \<Rightarrow> session \<Rightarrow> (int \<times> handshake) sio" where
  "parseHandshakeRespPacketPayload a d payloadLen h s =
     (if le_dec (bslice 0 2 d) AND MYS_CLT_PROTOCOL_41 \<noteq> 0 then parseHandshakeResp41PacketPayload a d h s
      else parseHandshakeResp320PacketPayload d payloadLen h s)"

section \<open>Authentication\<close>

text \<open>What the log-on leaves outside the session record: the names in \<open>MyProcPort\<close>, the setting
  \<open>search_path\<close>, and the list of tracked variables.\<close>

record logon =
  lg_user :: bytes
  lg_db :: bytes
  lg_search_path :: bytes
  sessionTrackSystemVariables :: bytes

definition initSessionTrackSystemVariables :: bytes where
  "initSessionTrackSystemVariables = ''time_zone,autocommit,character_set_client,character_set_results,character_set_connection''"

definition quoted :: "bytes \<Rightarrow> bytes" where "quoted x = CHR 0x22 # x @ [CHR 0x22]"

text \<open>The decision on the method of \<open>pg_hba.conf\<close>.\<close>

definition checkMethod :: "auth_env \<Rightarrow> bytes \<Rightarrow> bytes \<Rightarrow> bytes \<Rightarrow> session \<Rightarrow> unit sio" where
  "checkMethod a user db resp s =
     (case ae_hba a user db of
        uaReject \<Rightarrow> andThen (sendErrorPacket 1105 ''pg_hba.conf reject'' s) (\<lambda>_ s1. (Inr (), s1))
      | uaImplicitReject \<Rightarrow> andThen (sendErrorPacket 1105 ''no pg_hba.conf entry'' s) (\<lambda>_ s1. (Inl ProcExit, s1))
      | uaMD5 \<Rightarrow>
          (case mysCheckAuth (ae_role_password a user) resp of
             Inl f \<Rightarrow> (Inl f, s)
           | Inr True \<Rightarrow> (Inr (), s)
           | Inr False \<Rightarrow>
               andThen (sendErrorPacket 1105 (CHR 0x0A # ''auth failed: error password'') s) (\<lambda>_ s1. (Inl ProcExit, s1)))
      | _ \<Rightarrow> (Inr (), s))"

definition searchPath :: "bytes \<Rightarrow> bytes" where
  "searchPath db =
     (if db \<noteq> [] then take 1023 (db @ '', mysql, pg_catalog, '' @ quoted ''$user'' @ '', public'') else [])"

definition finishLogon :: "auth_env \<Rightarrow> bytes \<Rightarrow> bytes \<Rightarrow> session \<Rightarrow> logon sio" where
  "finishLogon a user db s =
     (if ae_search_path_ok a (searchPath db)
      then (Inr \<lparr> lg_user = user, lg_db = db, lg_search_path = searchPath db,
              sessionTrackSystemVariables = initSessionTrackSystemVariables \<rparr>,
            (initHaloMySqlDataTypesHashTable s) \<lparr> preStmtInfoes := initPreStmtInfoes \<rparr>)
      else (Inl (PgError (''invalid value for parameter '' @ quoted ''search_path'' @ '': '' @ quoted (searchPath db))), s))"

text \<open>The part of \<open>authenticate\<close> behind the parser: the name of the database in lower case, the role, the
  method, the search path.\<close>

definition authorize :: "auth_env \<Rightarrow> handshake \<Rightarrow> session \<Rightarrow> logon sio" where
  "authorize a h s =
     (let user = cstr (hs_user h);
          db = map c_tolower (cstr (hs_db h));
          s1 = s \<lparr> frontEndCaps := hs_clientFlag h \<rparr> in
      if \<not> ae_role_exists a user then (Inl (PgError (''role '' @ quoted user @ '' does not exist'')), s1)
      else andThen (checkMethod a user db (hs_auth h) s1) (\<lambda>_. finishLogon a user db))"

text \<open>The return value of the parser is ignored.\<close>

definition authenticate :: "auth_env \<Rightarrow> session \<Rightarrow> logon sio" where
  "authenticate a s =
     (let s0 = s \<lparr> haloMysqlErrorCodes := Some initErrorCodeHashTable \<rparr> in
      case assembleHandshakePacketPayload (ae_version a) (ae_enableSSL a) (pallocO 1024) of
        None \<Rightarrow> (Inl OutOfBounds, s0)
      | Some payload \<Rightarrow>
          andThen (on_net (writePacketHeaderPayloadFlush payload) s0) (\<lambda>_ s1.
          andThen (on_net (readPayloadForLogon (ae_max_allowed a) initStringInfo) s1) (\<lambda>inBuf s2.
          andThen (parseHandshakeRespPacketPayload a (si_data inBuf) (si_len inBuf)
                     \<lparr> hs_clientFlag = frontEndCaps s2, hs_maxPacketSize = 0, hs_user = replicate 256 NUL, hs_auth = ae_stack a,
                       hs_db = replicate 256 NUL \<rparr> s2)
            (\<lambda>(_, h). authorize a h))))"

section \<open>The scramble\<close>

text \<open>What a client sends that knows the password: the digest of the password, masked by the digest of the
  salt and the stored second digest.\<close>

definition auth_mask :: "bytes \<Rightarrow> bytes" where "auth_mask pwd = sha1 (salt @ sha1 (sha1 pwd))"
definition scramble :: "bytes \<Rightarrow> bytes" where "scramble pwd = xor_bytes (sha1 pwd) (auth_mask pwd)"

lemma cryptohash_sha1: "cryptohash parts = sha1 (concat parts)"
  unfolding cryptohash_def by (rule sha1_chunks)

lemma length_xor_bytes [simp]: "length (xor_bytes x y) = min (length x) (length y)"
  by (simp add: xor_bytes_def)

lemma length_scramble [simp]: "length (scramble pwd) = 20" "length (auth_mask pwd) = 20"
  by (simp_all add: scramble_def auth_mask_def)

lemma xor_byte_cancel: "char_of (of_char b XOR (of_char a XOR of_char b :: nat) mod 256) = a"
proof -
  have t: "take_bit 8 (of_char c :: nat) = of_char c" for c by (simp add: take_bit_nat_eq_self)
  have "take_bit 8 (of_char a XOR of_char b :: nat) = of_char a XOR of_char b" by (simp only: take_bit_xor t)
  then have "(of_char a XOR of_char b :: nat) < 256" using take_bit_nat_less_exp [of 8 "of_char a XOR of_char b"] by simp
  then show ?thesis by (simp add: xor.left_commute)
qed

lemma xor_bytes_cancel: "length x = length y \<Longrightarrow> xor_bytes y (xor_bytes x y) = x"
  by (induction x y rule: list_induct2) (simp_all add: xor_bytes_def xor_byte_cancel)

lemma xor_bytes_commute: "xor_bytes x y = xor_bytes y x"
  unfolding xor_bytes_def by (rule nth_equalityI) (simp_all add: xor.commute)

lemma hex_nibble_char: "n < 16 \<Longrightarrow> hex_nibble (hex_char n) = n \<and> hex_char n \<in> set ''0123456789abcdef''"
proof -
  have "list_all (\<lambda>n. hex_nibble (hex_char n) = n \<and> hex_char n \<in> set ''0123456789abcdef'') [0..<16]" by code_simp
  moreover assume "n < 16"
  ultimately show ?thesis by (auto simp only: list_all_iff set_upt atLeastLessThan_iff)
qed

lemma hex_bytes:
  assumes "i < length bs"
  shows "concat (map (\<lambda>c. [f c, g c]) bs) ! (2 * i) = f (bs ! i) \<and> concat (map (\<lambda>c. [f c, g c]) bs) ! (2 * i + 1) = g (bs ! i)"
  using assms by (induction bs arbitrary: i) (auto simp: nth_Cons split: nat.split)

lemma length_hex_bytes: "length (concat (map (\<lambda>c. [f c, g c]) bs)) = 2 * length bs"
  by (induction bs) simp_all

lemma nibble_bounds: "(of_char c :: nat) div 16 < 16" "(of_char c :: nat) mod 16 < 16"
  using of_char_less_256 [of c] by (simp_all only: div_less_iff_less_mult)

lemma length_prefix: "length mysql_native_password_prefix = 22"
  by (simp add: mysql_native_password_prefix_def)

lemma decode_encrypt: "decode_shadow (mysNativePwdEncrypt pwd) = sha1 (sha1 pwd)"
proof (rule nth_equalityI)
  fix i assume "i < length (decode_shadow (mysNativePwdEncrypt pwd))"
  then have i: "i < 20" by (simp add: decode_shadow_def SHA1_DIGEST_LENGTH_def)
  let ?d = "sha1 (sha1 pwd)" and ?h = "\<lambda>c. hex_char ((of_char c :: nat) div 16)" and ?l = "\<lambda>c. hex_char ((of_char c :: nat) mod 16)"
  have "mysNativePwdEncrypt pwd ! (22 + n) = concat (map (\<lambda>c. [?h c, ?l c]) ?d) ! n" for n
    using length_prefix by (simp add: mysNativePwdEncrypt_def cryptohash_sha1 nth_append)
  from this [of "2 * i"] this [of "2 * i + 1"]
  have "mysNativePwdEncrypt pwd ! (22 + 2 * i) = ?h (?d ! i)" "mysNativePwdEncrypt pwd ! (22 + 2 * i + 1) = ?l (?d ! i)"
    using hex_bytes [of i ?d ?h ?l] i by (simp_all add: add.assoc)
  then show "decode_shadow (mysNativePwdEncrypt pwd) ! i = ?d ! i"
    using i nibble_bounds [of "?d ! i"]
    by (simp add: decode_shadow_def SHA1_DIGEST_LENGTH_def MYS_NATIVE_PASSWORD_PREFIX_LEN_def hex_nibble_char)
qed (simp add: decode_shadow_def SHA1_DIGEST_LENGTH_def)

lemma strneq_prefix: "strneq (t @ s) t (length t)"
  by (induction t) simp_all

lemma hex_bytes_set:
  "set (concat (map (\<lambda>c. [hex_char ((of_char c :: nat) div 16), hex_char ((of_char c :: nat) mod 16)]) bs))
     \<subseteq> set ''0123456789abcdef''"
proof -
  have "{hex_char ((of_char c :: nat) div 16), hex_char ((of_char c :: nat) mod 16)} \<subseteq> set ''0123456789abcdef''" for c
    using hex_nibble_char nibble_bounds [of c] by blast
  then show ?thesis by (simp only: set_concat set_map UN_subset_iff) simp
qed

lemma encrypt_native: "is_native (mysNativePwdEncrypt pwd)"
proof -
  let ?h = "concat (map (\<lambda>c. [hex_char ((of_char c :: nat) div 16), hex_char ((of_char c :: nat) mod 16)]) (sha1 (sha1 pwd)))"
  have e: "mysNativePwdEncrypt pwd = mysql_native_password_prefix @ ?h"
    by (simp add: mysNativePwdEncrypt_def cryptohash_sha1)
  have "strneq (mysql_native_password_prefix @ ?h) mysql_native_password_prefix 22"
    using strneq_prefix [of mysql_native_password_prefix ?h] unfolding length_prefix .
  moreover have "length (mysql_native_password_prefix @ ?h) = 62" by (simp add: length_prefix length_hex_bytes)
  moreover have "drop 22 (mysql_native_password_prefix @ ?h) = ?h" using length_prefix by simp
  moreover have "\<forall>c \<in> set ?h. c \<in> set ''0123456789abcdef''" using hex_bytes_set by blast
  ultimately show ?thesis
    unfolding is_native_def e MYS_NATIVE_PASSWORD_LEN_def MYS_NATIVE_PASSWORD_PREFIX_LEN_def list_all_iff
    by (simp only: numeral_plus_numeral semiring_norm)
qed

lemma check_native:
  "checkMysNativeAuth resp (mysNativePwdEncrypt pwd) \<longleftrightarrow> sha1 (xor_bytes (auth_mask pwd) (take 20 resp)) = sha1 (sha1 pwd)"
  by (simp add: checkMysNativeAuth_def Let_def decode_encrypt cryptohash_sha1 auth_mask_def SHA1_DIGEST_LENGTH_def)

text \<open>C38. The check of a response against a stored native password: a response of at least 20 bytes is accepted exactly
  if its first byte is not zero and its first 20 bytes are a preimage of the stored digest, masked with the
  digest of the salt and the stored digest.  So the scramble of the password itself is accepted, whatever
  follows it, exactly if it does not begin with a zero byte; the salt being fixed, a password whose scramble
  begins with one can never be used to log on.\<close>

theorem native_password_decision:
  assumes "20 \<le> length resp"
  shows "mysCheckAuth (Some (mysNativePwdEncrypt pwd)) resp
      = Inr (resp ! 0 \<noteq> NUL \<and> (\<exists>p. length p = 20 \<and> sha1 p = sha1 (sha1 pwd) \<and> take 20 resp = xor_bytes p (auth_mask pwd)))
    \<and> mysCheckAuth (Some (mysNativePwdEncrypt pwd)) (scramble pwd @ rest) = Inr (scramble pwd ! 0 \<noteq> NUL)"
proof
  have x: "take 20 resp = xor_bytes (xor_bytes (auth_mask pwd) (take 20 resp)) (auth_mask pwd)"
    using xor_bytes_cancel [of "take 20 resp" "auth_mask pwd"] assms by (simp add: xor_bytes_commute)
  have "xor_bytes (auth_mask pwd) (take 20 resp) = p" if "length p = 20" "take 20 resp = xor_bytes p (auth_mask pwd)" for p
    using xor_bytes_cancel [of p "auth_mask pwd"] that by simp
  then have "sha1 (xor_bytes (auth_mask pwd) (take 20 resp)) = sha1 (sha1 pwd)
      \<longleftrightarrow> (\<exists>p. length p = 20 \<and> sha1 p = sha1 (sha1 pwd) \<and> take 20 resp = xor_bytes p (auth_mask pwd))"
    using x assms by (metis length_scramble(2) length_take length_xor_bytes min.idem min_absorb2)
  then show "mysCheckAuth (Some (mysNativePwdEncrypt pwd)) resp
      = Inr (resp ! 0 \<noteq> NUL \<and> (\<exists>p. length p = 20 \<and> sha1 p = sha1 (sha1 pwd) \<and> take 20 resp = xor_bytes p (auth_mask pwd)))"
    by (simp add: mysCheckAuth_def encrypt_native check_native)
  have "xor_bytes (auth_mask pwd) (scramble pwd) = sha1 pwd"
    using xor_bytes_cancel [of "sha1 pwd" "auth_mask pwd"] by (simp add: scramble_def)
  then show "mysCheckAuth (Some (mysNativePwdEncrypt pwd)) (scramble pwd @ rest) = Inr (scramble pwd ! 0 \<noteq> NUL)"
    by (simp add: mysCheckAuth_def encrypt_native check_native nth_append)
qed

text \<open>A response that begins with a zero byte is refused.\<close>

theorem native_password_decision_witness:
  "mysCheckAuth (Some (mysNativePwdEncrypt ''secret'')) (replicate 512 NUL) = Inr False"
  using native_password_decision [of "replicate 512 NUL" "''secret''" "[]"] by simp

end
