(* ===== verification/Logon.thy ===== *)
theory Logon
  imports Auth SessionTrx
begin

text \<open>
  The log-on over the wire: the handshake is sent, the client's response is read in whatever pieces it
  arrives, parsed, and the decision taken on it.
\<close>

section \<open>The handshake is always assembled\<close>

fun seg_len :: "segment \<Rightarrow> nat" where
  "seg_len (Store bs) = length bs"
| "seg_len (Skip n) = n"

lemma put_segments_fit:
  "i + sum_list (map seg_len ss) \<le> length d \<Longrightarrow>
     \<exists>d'. put_segments ss d i = Some (d', i + sum_list (map seg_len ss)) \<and> length d' = length d"
proof (induction ss arbitrary: d i)
  case (Cons x ss)
  show ?case
  proof (cases x)
    case (Store bs)
    with Cons.prems Cons.IH [of "i + length bs" "overwrite d i bs"] show ?thesis by (simp add: mem_write_def add.assoc)
  next
    case (Skip n)
    with Cons.prems Cons.IH [of "i + n" d] show ?thesis by (simp add: add.assoc)
  qed
qed simp

lemma length_salt: "length salt = 20"
  by (simp add: salt_def)

lemma length_pallocO: "length (pallocO 1024) = 1024"
  by (simp add: pallocO_def Let_def)

lemma handshake_assembled:
  assumes "length version \<le> 900"
  shows "\<exists>p. assembleHandshakePacketPayload version ssl (pallocO 1024) = Some p \<and> length p = length version + 68"
proof -
  let ?ss = "handshake_segments version ssl"
  have n: "sum_list (map seg_len ?ss) = length version + 68"
    by (simp add: handshake_segments_def Let_def length_salt)
  then obtain d where "put_segments ?ss (pallocO 1024) 0 = Some (d, length version + 68)" "length d = 1024"
    using put_segments_fit [of 0 ?ss "pallocO 1024"] assms by (auto simp: length_pallocO)
  then show ?thesis using assms by (simp add: assembleHandshakePacketPayload_def)
qed

section \<open>Reading a response\<close>

lemma readPayloadForLogon_short:
  assumes "stream (rd_script s) = frames q p @ rest" "netPacketSeqID s = q" "0 \<le> q" "q \<le> 255" "length p \<le> m" "length p < 1000"
  shows "\<exists>b es. readPayloadForLogon m initStringInfo s = (Inr b, s \<lparr> rd_script := es, netPacketSeqID := q + 1 \<rparr>)
    \<and> stream es = rest \<and> si_offset b = 0 \<and> si_len b = length p \<and> (\<exists>z. si_data b = p @ NUL # z)"
proof -
  let ?b = "resetStringInfo initStringInfo"
  obtain es where h: "readAndProcessPacketHeader s = (Inr (Some (length p)), s \<lparr> rd_script := es, netPacketSeqID := q + 1 \<rparr>)"
      "stream es = p @ rest"
    using readAndProcessPacketHeader_ok [of s "length p" q "p @ rest"] assms
    by (auto simp: frames.simps [of q p] SINGLE_PACKET_MAX_PAYLOAD_LENGTH_def)
  let ?s1 = "s \<lparr> rd_script := es, netPacketSeqID := q + 1 \<rparr>"
  obtain es1 where rd: "readBytes (length p) es = (p, True, es1)"
    using readBytes_ok [of "length p" es] h(2) by (cases "readBytes (length p) es") auto
  have es1: "stream es1 = rest" using readBytes_ok(3) [OF rd] h(2) by simp
  have b: "length (si_data ?b) = 1024" "si_offset ?b = 0" "si_len ?b = 0" "si_maxlen ?b = 1024"
    by (simp_all add: resetStringInfo_def initStringInfo_def)
  let ?b1 = "?b \<lparr> si_data := overwrite (si_data ?b) 0 p, si_len := length p \<rparr>"
  have r: "readPacketPayload ?b (length p) ?s1 = (Inr (True, ?b1), ?s1 \<lparr> rd_script := es1 \<rparr>)"
    using assms(6) rd b by (simp add: readPacketPayload_def mem_write_def)
  let ?d = "overwrite (overwrite (si_data ?b) 0 p) (length p) [NUL]"
  have "readPayloadForLogon m initStringInfo s = (Inr (?b1 \<lparr> si_data := ?d \<rparr>), s \<lparr> rd_script := es1, netPacketSeqID := q + 1 \<rparr>)"
    using h(1) r assms b by (simp add: readPayloadForLogon_def readAndProcessPacket_def SINGLE_PACKET_MAX_PAYLOAD_LENGTH_def mem_write_def)
  moreover have "?d = p @ NUL # drop (length p + 1) (si_data ?b)" by (simp add: overwrite_def)
  ultimately show ?thesis using b es1 by (intro exI [of _ "?b1 \<lparr> si_data := ?d \<rparr>"] exI [of _ es1]) auto
qed

text \<open>Writing a packet before it.\<close>

lemma write_short:
  assumes "tx_ready (s_net s)" "length p < 16777215"
  shows "\<exists>n. on_net (writePacketHeaderPayloadFlush p) s = (Inr True, s \<lparr> s_net := n \<rparr>) \<and> tx_ready n
    \<and> rd_script n = rd_script (s_net s) \<and> netPacketSeqID n = seq_after (netPacketSeqID (s_net s)) (length p)"
proof -
  obtain n where n: "writePacketHeaderPayloadFlush p (s_net s) = (Inr True, n)" "tx_ready n"
      "netPacketSeqID n = seq_after (netPacketSeqID (s_net s)) (length p)"
    using packet_flush_ok [OF assms(1), of p] by auto
  moreover have "rd_script n = rd_script (s_net s)"
    using tx_step_packet_flush [of "s_net s" p] n(1) assms(1) by (auto simp: tx_step_def tx_ready_def)
  ultimately show ?thesis by (intro exI [of _ n]) (simp add: on_net_def)
qed

lemma seq_after_short: "n < 1000 \<Longrightarrow> seq_after q n = next_seq q"
  by (simp add: seq_after.simps SINGLE_PACKET_MAX_PAYLOAD_LENGTH_def)

section \<open>The response of a client\<close>

text \<open>The response of protocol 4.1: flags, maximal packet, character set, filler, user, the authentication
  response with its length, and, if the flags say so, the database and the name of the plugin.\<close>

definition plugin_part :: "nat \<Rightarrow> bytes \<Rightarrow> bytes" where
  "plugin_part flags plugin = (if flags AND MYS_CLT_PLUGIN_AUTH \<noteq> 0 then plugin @ [NUL] else [])"

definition db_part :: "nat \<Rightarrow> bytes \<Rightarrow> bytes" where
  "db_part flags db = (if flags AND MYS_CLT_CONNECT_WITH_DB \<noteq> 0 then db @ [NUL] else [])"

definition response :: "nat \<Rightarrow> nat \<Rightarrow> char \<Rightarrow> bytes \<Rightarrow> bytes \<Rightarrow> bytes \<Rightarrow> bytes \<Rightarrow> bytes" where
  "response flags max_packet charset user auth db plugin =
     le_enc 4 flags @ le_enc 4 max_packet @ [charset] @ replicate 23 NUL @ user @ [NUL] @ [char_of (length auth)] @ auth
     @ db_part flags db @ plugin_part flags plugin"

definition db_name :: "nat \<Rightarrow> bytes \<Rightarrow> bytes" where
  "db_name flags db = (if flags AND MYS_CLT_CONNECT_WITH_DB \<noteq> 0 then map c_tolower db else [])"

text \<open>What a client may send: unencrypted, names that fit, a response whose length is one byte.\<close>

definition sendable :: "nat \<Rightarrow> bytes \<Rightarrow> bytes \<Rightarrow> bytes \<Rightarrow> bytes \<Rightarrow> bool" where
  "sendable flags user auth db plugin \<longleftrightarrow> flags < 2 ^ 31 \<and> flags AND MYS_CLT_PROTOCOL_41 \<noteq> 0 \<and> flags AND MYS_CLT_SSL = 0
     \<and> NUL \<notin> set user \<and> length user < 256 \<and> length auth < 251 \<and> NUL \<notin> set db \<and> length db < 256
     \<and> NUL \<notin> set plugin \<and> length plugin < 100"

lemma strlen_at_append [simp]:
  "NUL \<notin> set t \<Longrightarrow> strlen_at (x @ t @ NUL # z) (length x) = Some (length t)"
  by (simp add: strlen_at_def)

lemma cstr_cleared: "NUL \<notin> set t \<Longrightarrow> length t < n \<Longrightarrow> cstr (cleared_with n t) = t"
proof -
  assume a: "NUL \<notin> set t" "length t < n"
  then obtain k where k: "n - length t = Suc k" by (cases "n - length t") auto
  then have "Suc k \<le> n" by linarith
  with k have "cleared_with n t = t @ NUL # replicate k NUL" using a by (simp add: cleared_with_def min_def)
  then show ?thesis using a by simp
qed

lemma parsePlugin_ok:
  assumes "NUL \<notin> set plugin" "length plugin < 100" "i = length x" "hs_clientFlag h = flags"
  shows "parsePlugin a (x @ plugin_part flags plugin @ z) i h s =
     (if flags AND MYS_CLT_PLUGIN_AUTH \<noteq> 0 \<and> plugin \<noteq> ''mysql_native_password'' then authSwitch a h s else (Inr (1, h), s))"
proof (cases "flags AND MYS_CLT_PLUGIN_AUTH \<noteq> 0")
  case True
  have "plugin_part flags plugin @ z = plugin @ NUL # z" using True by (simp add: plugin_part_def)
  with assms True show ?thesis by (simp add: parsePlugin_def)
qed (use assms in \<open>simp add: parsePlugin_def\<close>)

definition db_buf :: "nat \<Rightarrow> bytes \<Rightarrow> bytes \<Rightarrow> bytes" where
  "db_buf flags db buf = (if flags AND MYS_CLT_CONNECT_WITH_DB \<noteq> 0 then cleared_with (length buf) db else buf)"

lemma parseDb_ok:
  assumes "NUL \<notin> set db" "length db < 256" "i = length x" "hs_clientFlag h = flags" "length (hs_db h) = 256"
  shows "parseDb a (x @ db_part flags db @ z) i h s
    = parsePlugin a (x @ db_part flags db @ z) (length (x @ db_part flags db)) (h \<lparr> hs_db := db_buf flags db (hs_db h) \<rparr>) s"
proof (cases "flags AND MYS_CLT_CONNECT_WITH_DB \<noteq> 0")
  case True
  have "db_part flags db @ z = db @ NUL # z" "length (x @ db_part flags db) = length x + length db + 1"
    using True by (simp_all add: db_part_def)
  with assms True show ?thesis by (simp add: parseDb_def db_buf_def)
qed (use assms in \<open>simp add: parseDb_def db_part_def db_buf_def\<close>)

lemma one_byte_length:
  assumes "n < 251"
  shows "authLenPrefix flags (char_of n) = (0, 1)" "(of_char (char_of n :: char) :: nat) = n"
proof -
  show n: "(of_char (char_of n :: char) :: nat) = n" using assms by simp
  have "of_char (char_of n :: char) \<noteq> (of_char c :: nat)" if "251 \<le> (of_char c :: nat)" for c using n that assms by linarith
  then have "char_of n \<noteq> c" if "251 \<le> (of_char c :: nat)" for c using that by metis
  from this [of "CHR 0xFC"] this [of "CHR 0xFD"] this [of "CHR 0xFE"]
  have "char_of n \<noteq> CHR 0xFC" "char_of n \<noteq> CHR 0xFD" "char_of n \<noteq> CHR 0xFE" by simp_all
  then show "authLenPrefix flags (char_of n) = (0, 1)" by (simp add: authLenPrefix_def)
qed

lemma parseAuthResp_ok:
  assumes "length auth < 251" "i = length x" "z \<noteq> []" "length (hs_auth h) = 512"
  shows "parseAuthResp a (x @ char_of (length auth) # auth @ z) i h s
    = parseDb a (x @ char_of (length auth) # auth @ z) (length (x @ char_of (length auth) # auth))
        (h \<lparr> hs_auth := cleared_with 512 auth \<rparr>) s"
proof -
  let ?d = "x @ char_of (length auth) # auth @ z"
  have "mem_read ?d i = Some (char_of (length auth))" using assms(2) by (simp add: mem_read_def)
  moreover have "le_dec (bslice i 1 ?d) = length auth"
    using assms(1,2) one_byte_length(2) [of "length auth"] by (simp add: bslice_def)
  moreover have "wrap_signed 64 (int (length auth)) = int (length auth)" using assms(1) by (intro wrap_signed_id) simp_all
  moreover have "bslice (i + 1) (length auth) ?d = auth" using assms(2) by (simp add: bslice_def)
  moreover have "int (length x + 1) + int (length auth) < int (length ?d)" using assms(3) by (cases z) simp_all
  ultimately show ?thesis
    using assms(1,2,4) one_byte_length(1) [OF assms(1), of "hs_clientFlag h"]
    by (simp add: parseAuthResp_def Let_def nat_add_distrib del: char_of_eq_iff)
qed

lemma parseUser_ok:
  assumes "NUL \<notin> set user" "length user < 256" "length x = 32" "length (hs_user h) = 256"
  shows "parseUser a (x @ user @ NUL # z) h s
    = parseAuthResp a (x @ user @ NUL # z) (length (x @ user @ [NUL])) (h \<lparr> hs_user := cleared_with 256 user \<rparr>) s"
proof -
  have "strlen_at (x @ user @ NUL # z) 32 = Some (length user)" using strlen_at_append [OF assms(1), of x z] assms(3) by simp
  moreover have "cstr (drop 32 (x @ user @ NUL # z)) = user" using assms(1,3) by simp
  ultimately show ?thesis using assms by (simp add: parseUser_def)
qed

text \<open>The buffers after a response was parsed.\<close>

definition parsed :: "nat \<Rightarrow> nat \<Rightarrow> bytes \<Rightarrow> bytes \<Rightarrow> bytes \<Rightarrow> handshake \<Rightarrow> handshake" where
  "parsed flags max_packet user auth db h =
     h \<lparr> hs_clientFlag := flags, hs_maxPacketSize := max_packet mod 2 ^ 32, hs_user := cleared_with 256 user,
         hs_auth := cleared_with 512 auth, hs_db := db_buf flags db (hs_db h) \<rparr>"

lemma parse_response:
  assumes "sendable flags user auth db plugin" "length (hs_user h) = 256" "length (hs_auth h) = 512" "length (hs_db h) = 256"
  shows "parseHandshakeRespPacketPayload a (response flags max_packet charset user auth db plugin @ NUL # z) n h s
    = (let h1 = parsed flags max_packet user auth db h in
       if flags AND MYS_CLT_PLUGIN_AUTH \<noteq> 0 \<and> plugin \<noteq> ''mysql_native_password'' then authSwitch a h1 s else (Inr (1, h1), s))"
proof -
  note p = assms(1) [unfolded sendable_def]
  let ?x = "le_enc 4 flags @ le_enc 4 max_packet @ [charset] @ replicate 23 NUL"
  let ?d = "response flags max_packet charset user auth db plugin @ NUL # z"
  have d: "?d = ?x @ user @ NUL # char_of (length auth) # auth @ db_part flags db @ plugin_part flags plugin @ NUL # z"
    by (simp add: response_def)
  have x: "length ?x = 32" by simp
  have f4: "bslice 0 4 ?d = le_enc 4 flags" and m4: "bslice 4 4 ?d = le_enc 4 max_packet"
    unfolding d by (simp_all add: bslice_def)
  have "min 2 4 = (2 :: nat)" by simp
  then have "bslice 0 2 ?d = take 2 (bslice 0 4 ?d)" by (simp only: bslice_def take_take)
  then have f2: "le_dec (bslice 0 2 ?d) = take_bit 16 flags"
    unfolding f4 by (simp add: le_enc_widths take_bit_eq_mod) (simp add: mod_mult2_eq [of flags 256 256, simplified])
  have "mask 16 AND MYS_CLT_PROTOCOL_41 = MYS_CLT_PROTOCOL_41" by (simp add: MYS_CLT_PROTOCOL_41_def mask_eq_exp_minus_1)
  then have "take_bit 16 flags AND MYS_CLT_PROTOCOL_41 = flags AND MYS_CLT_PROTOCOL_41" by (simp add: take_bit_eq_mask and.assoc)
  then have v41: "le_dec (bslice 0 2 ?d) AND MYS_CLT_PROTOCOL_41 \<noteq> 0" using p f2 by simp
  have flags: "le_dec (le_enc 4 flags) = flags" "le_dec (le_enc 4 max_packet) = max_packet mod 2 ^ 32"
    using p by (simp_all add: le_dec_le_enc)
  define h0 where "h0 = h \<lparr> hs_clientFlag := flags, hs_maxPacketSize := max_packet mod 2 ^ 32 \<rparr>"
  let ?h2 = "h0 \<lparr> hs_user := cleared_with 256 user, hs_auth := cleared_with 512 auth \<rparr>"
  have h0: "hs_clientFlag h0 = flags" "length (hs_user h0) = 256" "length (hs_auth h0) = 512" "length (hs_db h0) = 256"
    using assms by (simp_all add: h0_def)
  have "parseHandshakeRespPacketPayload a ?d n h s = parseUser a ?d h0 s"
    unfolding parseHandshakeRespPacketPayload_def parseHandshakeResp41PacketPayload_def f4 m4 flags Let_def h0_def if_P [OF v41] using p by simp
  also have "\<dots> = parseAuthResp a ?d (length (?x @ user @ [NUL])) (h0 \<lparr> hs_user := cleared_with 256 user \<rparr>) s"
    unfolding d using parseUser_ok [OF _ _ x] p h0 by blast
  also have "\<dots> = parseDb a ?d (length (?x @ user @ [NUL, char_of (length auth)] @ auth)) ?h2 s"
    using parseAuthResp_ok [of auth _ "?x @ user @ [NUL]" "db_part flags db @ plugin_part flags plugin @ NUL # z"] p h0 unfolding d by simp
  also have "\<dots> = parsePlugin a ?d (length ((?x @ user @ [NUL, char_of (length auth)] @ auth) @ db_part flags db))
      (?h2 \<lparr> hs_db := db_buf flags db (hs_db h) \<rparr>) s"
    using parseDb_ok [of db _ "?x @ user @ [NUL, char_of (length auth)] @ auth" ?h2 flags a "plugin_part flags plugin @ NUL # z"] p h0
    unfolding d by (simp add: h0_def)
  also have "?h2 \<lparr> hs_db := db_buf flags db (hs_db h) \<rparr> = parsed flags max_packet user auth db h"
    by (simp add: parsed_def h0_def)
  finally show ?thesis
    using parsePlugin_ok [of plugin _ "(?x @ user @ [NUL, char_of (length auth)] @ auth) @ db_part flags db" _ flags a "NUL # z"] p
    unfolding d by (simp add: Let_def parsed_def)
qed

section \<open>The decision\<close>

lemma length_response: "sendable flags user auth db plugin \<Longrightarrow> length (response flags max_packet charset user auth db plugin) < 1000"
  by (simp add: sendable_def response_def db_part_def plugin_part_def)

text \<open>Everything up to the parsed response, for a client that sends one.\<close>

definition blank :: "auth_env \<Rightarrow> session \<Rightarrow> handshake" where
  "blank a s = \<lparr> hs_clientFlag = frontEndCaps s, hs_maxPacketSize = 0, hs_user = replicate 256 NUL, hs_auth = ae_stack a,
     hs_db = replicate 256 NUL \<rparr>"

lemma authenticate_reads:
  assumes "tx_ready (s_net s)" "netPacketSeqID (s_net s) = 0" "length (ae_version a) \<le> 900" "1000 \<le> ae_max_allowed a"
    and "stream (rd_script (s_net s)) = frames 1 p @ rest" "length p < 1000"
  shows "\<exists>s' z. authenticate a s = andThen (parseHandshakeRespPacketPayload a (p @ NUL # z) (length p) (blank a s) s') (\<lambda>(_, h). authorize a h)
    \<and> tx_ready (s_net s') \<and> netPacketSeqID (s_net s') = 2 \<and> stream (rd_script (s_net s')) = rest"
proof -
  let ?s0 = "s \<lparr> haloMysqlErrorCodes := Some initErrorCodeHashTable \<rparr>"
  obtain hs where hs: "assembleHandshakePacketPayload (ae_version a) (ae_enableSSL a) (pallocO 1024) = Some hs" "length hs < 1000"
    using handshake_assembled [OF assms(3), of "ae_enableSSL a"] assms(3) by auto
  obtain n where n: "on_net (writePacketHeaderPayloadFlush hs) ?s0 = (Inr True, ?s0 \<lparr> s_net := n \<rparr>)" "tx_ready n"
      "rd_script n = rd_script (s_net s)" "netPacketSeqID n = 1"
    using write_short [of ?s0 hs] assms(1,2) hs(2) by (auto simp: seq_after_short next_seq_def)
  obtain b es z where b: "readPayloadForLogon (ae_max_allowed a) initStringInfo n = (Inr b, n \<lparr> rd_script := es, netPacketSeqID := 2 \<rparr>)"
      "stream es = rest" "si_len b = length p" "si_data b = p @ NUL # z"
    using readPayloadForLogon_short [of n 1 p rest "ae_max_allowed a"] n(3,4) assms(4-6) by auto
  let ?s2 = "?s0 \<lparr> s_net := n \<lparr> rd_script := es, netPacketSeqID := 2 \<rparr> \<rparr>"
  have "authenticate a s = andThen (parseHandshakeRespPacketPayload a (p @ NUL # z) (length p) (blank a s) ?s2) (\<lambda>(_, h). authorize a h)"
    unfolding authenticate_def Let_def hs(1) option.case n(1) andThen_Inr
    by (simp add: on_net_def b blank_def)
  moreover have "tx_ready (n \<lparr> rd_script := es, netPacketSeqID := 2 \<rparr>)"
    using n(2) by (simp add: tx_ready_def net_wf_def wr_ok_def)
  ultimately show ?thesis using b(2) by (intro exI [of _ ?s2] exI [of _ z]) simp
qed

lemma checkMethod_accepts:
  assumes "tx_ready (s_net s)"
  shows "(\<exists>s'. checkMethod a user db resp s = (Inr (), s')) \<longleftrightarrow>
     ae_hba a user db \<noteq> uaImplicitReject \<and> (ae_hba a user db = uaMD5 \<longrightarrow> mysCheckAuth (ae_role_password a user) resp = Inr True)"
proof -
  have e: "\<exists>s'. sendErrorPacket 1105 m s = (Inr True, s')" for m
    using sendErr_succeeds [of s] assms by (simp add: sendErrorPacket_def sess_ready_def)
  show ?thesis
    using e [of "''pg_hba.conf reject''"] e [of "''no pg_hba.conf entry''"] e [of "CHR 0x0A # ''auth failed: error password''"]
    by (auto simp: checkMethod_def split: UserAuth.splits sum.splits bool.splits)
qed

text \<open>Who is let in.\<close>

definition admitted :: "auth_env \<Rightarrow> bytes \<Rightarrow> bytes \<Rightarrow> bytes \<Rightarrow> bool" where
  "admitted a user db auth \<longleftrightarrow> ae_role_exists a user \<and> ae_search_path_ok a (searchPath db) \<and> ae_hba a user db \<noteq> uaImplicitReject
     \<and> (ae_hba a user db = uaMD5 \<longrightarrow> mysCheckAuth (ae_role_password a user) auth = Inr True)"

lemma authorize_admits:
  assumes "tx_ready (s_net s)" "cstr (hs_user h) = user" "map c_tolower (cstr (hs_db h)) = db"
  shows "isl (fst (authorize a h s)) \<longleftrightarrow> \<not> admitted a user db (hs_auth h)"
    and "fst (authorize a h s) = Inr lg \<Longrightarrow> lg_user lg = user \<and> lg_db lg = db"
proof -
  let ?s1 = "s \<lparr> frontEndCaps := hs_clientFlag h \<rparr>"
  obtain r s2 where c: "checkMethod a user db (hs_auth h) ?s1 = (r, s2)" by (cases "checkMethod a user db (hs_auth h) ?s1")
  have acc: "(\<exists>s'. (r, s2) = (Inr (), s')) \<longleftrightarrow> ae_hba a user db \<noteq> uaImplicitReject
      \<and> (ae_hba a user db = uaMD5 \<longrightarrow> mysCheckAuth (ae_role_password a user) (hs_auth h) = Inr True)"
    using checkMethod_accepts [of ?s1 a user db "hs_auth h"] assms(1) unfolding c by simp
  have "authorize a h s = (if \<not> ae_role_exists a user then (Inl (PgError (''role '' @ quoted user @ '' does not exist'')), ?s1)
      else andThen (r, s2) (\<lambda>_. finishLogon a user db))"
    unfolding authorize_def assms(2,3) Let_def c ..
  then show "isl (fst (authorize a h s)) \<longleftrightarrow> \<not> admitted a user db (hs_auth h)"
    and "fst (authorize a h s) = Inr lg \<Longrightarrow> lg_user lg = user \<and> lg_db lg = db"
    using acc by (cases r; auto simp: admitted_def finishLogon_def split: if_splits)+
qed

lemma parsed_names:
  assumes "sendable flags user auth db plugin" "hs_db h = replicate 256 NUL"
  shows "cstr (hs_user (parsed flags mp user auth db h)) = user"
    "map c_tolower (cstr (hs_db (parsed flags mp user auth db h))) = db_name flags db"
    "hs_auth (parsed flags mp user auth db h) = cleared_with 512 auth"
proof -
  have "cstr (replicate 256 NUL) = []" by (simp add: cstr_def takeWhile_eq_Nil_iff)
  then show "cstr (hs_user (parsed flags mp user auth db h)) = user"
    "map c_tolower (cstr (hs_db (parsed flags mp user auth db h))) = db_name flags db"
    "hs_auth (parsed flags mp user auth db h) = cleared_with 512 auth"
    using assms by (simp_all add: parsed_def sendable_def cstr_cleared db_buf_def db_name_def)
qed

text \<open>A client that is about to log on: the socket takes what is written, and brings the response as the
  packet behind the handshake.\<close>

definition logging_on :: "auth_env \<Rightarrow> session \<Rightarrow> bytes \<Rightarrow> bytes \<Rightarrow> bool" where
  "logging_on a s p rest \<longleftrightarrow> tx_ready (s_net s) \<and> netPacketSeqID (s_net s) = 0 \<and> length (ae_version a) \<le> 900 \<and> 1000 \<le> ae_max_allowed a
     \<and> length (ae_stack a) = 512 \<and> stream (rd_script (s_net s)) = frames 1 p @ rest"

text \<open>C8. The decision on a log-on, over the wire: for every client of protocol 4.1 that names
  \<open>mysql_native_password\<close>, in whatever pieces its response arrives, the log-on succeeds exactly if the role
  exists, the search path made of the database is valid, \<open>pg_hba.conf\<close> has an entry, and, for the method
  \<open>md5\<close> only, the response passes the password check; the names are those the client sent, the database in
  lower case.  In particular the method \<open>reject\<close> lets the client in, and so do the methods that ask for
  a password, a certificate or a directory server, without any of them.\<close>

theorem logon_decision:
  assumes "sendable flags user auth db ''mysql_native_password''"
    and "logging_on a s (response flags max_packet charset user auth db ''mysql_native_password'') rest"
  shows "(isl (fst (authenticate a s)) \<longleftrightarrow> \<not> admitted a user (db_name flags db) (cleared_with 512 auth))
    \<and> (\<forall>lg. fst (authenticate a s) = Inr lg \<longrightarrow> lg_user lg = user \<and> lg_db lg = db_name flags db)"
proof -
  let ?p = "response flags max_packet charset user auth db ''mysql_native_password''"
  let ?h = "parsed flags max_packet user auth db (blank a s)"
  obtain s' z where s': "authenticate a s = andThen (parseHandshakeRespPacketPayload a (?p @ NUL # z) (length ?p) (blank a s) s') (\<lambda>(_, h). authorize a h)"
      "tx_ready (s_net s')"
    using authenticate_reads [of s a ?p rest] length_response [OF assms(1)] assms(2) unfolding logging_on_def by blast
  have "parseHandshakeRespPacketPayload a (?p @ NUL # z) (length ?p) (blank a s) s' = (Inr (1, ?h), s')"
    using parse_response [OF assms(1), of "blank a s"] assms(2) by (simp add: blank_def logging_on_def)
  then have "authenticate a s = authorize a ?h s'" using s'(1) by simp
  moreover have b: "hs_db (blank a s) = replicate 256 NUL" by (simp add: blank_def)
  ultimately show ?thesis
    using authorize_admits [OF s'(2) parsed_names(1,2) [OF assms(1) b], of a] parsed_names(3) [OF assms(1) b] by simp
qed

section \<open>A change of plugin\<close>

lemma length_auth_switch: "length assembleAuthSwitchRequestPacketPayload < 1000"
  by (simp add: assembleAuthSwitchRequestPacketPayload_def length_salt)

lemma cstr_take: "length (cstr (take n x)) \<le> n"
  using length_takeWhile_le [of _ "take n x"] by (simp add: cstr_def)

lemma cleared_twice: "length t \<le> k \<Longrightarrow> k \<le> n \<Longrightarrow> cleared_with n (cleared_with k t) = cleared_with n t"
  by (rule nth_equalityI) (auto simp: cleared_with_def nth_append)

lemma authSwitch_reads:
  assumes "tx_ready (s_net s)" "netPacketSeqID (s_net s) = 2" "1000 \<le> ae_max_allowed a" "length (hs_auth h) = 512"
    and "stream (rd_script (s_net s)) = frames 3 x @ rest" "length x < 1000"
  shows "\<exists>s'. authSwitch a h s =
    (if length x < 512 then (Inr (1, h \<lparr> hs_auth := cleared_with 512 (cstr x) \<rparr>), s') else (Inl OutOfBounds, s')) \<and> tx_ready (s_net s')"
proof -
  let ?q = assembleAuthSwitchRequestPacketPayload
  obtain n where n: "on_net (writePacketHeaderPayloadFlush ?q) s = (Inr True, s \<lparr> s_net := n \<rparr>)" "tx_ready n"
      "rd_script n = rd_script (s_net s)" "netPacketSeqID n = 3"
    using write_short [of s ?q] assms(1,2) length_auth_switch by (auto simp: seq_after_short next_seq_def)
  obtain b es z where b: "readPayloadForLogon (ae_max_allowed a) initStringInfo n = (Inr b, n \<lparr> rd_script := es, netPacketSeqID := 4 \<rparr>)"
      "si_offset b = 0" "si_len b = length x" "si_data b = x @ NUL # z"
    using readPayloadForLogon_short [of n 3 x rest "ae_max_allowed a"] n(3,4) assms(3,5,6) by auto
  let ?s2 = "s \<lparr> s_net := n \<lparr> rd_script := es, netPacketSeqID := 4 \<rparr> \<rparr>"
  have "cleared_with 512 (cleared_with (length x) (cstr x)) = cleared_with 512 (cstr x)" if "length x < 512"
    using cleared_twice [of "cstr x" "length x" 512] cstr_take [of "length x" x] that by simp
  then have "authSwitch a h s = (if length x < 512 then (Inr (1, h \<lparr> hs_auth := cleared_with 512 (cstr x) \<rparr>), ?s2) else (Inl OutOfBounds, ?s2))"
    unfolding authSwitch_def n(1) andThen_Inr using assms(4) by (simp add: on_net_def b Let_def)
  moreover have "tx_ready (s_net ?s2)" using n(2) by (simp add: tx_ready_def net_wf_def wr_ok_def)
  ultimately show ?thesis by blast
qed

text \<open>C39. A client that names another plugin is asked to change to \<open>mysql_native_password\<close>, and what it then
  sends takes the place of its response, but only up to the first zero byte, so that a scramble that
  contains one is checked without its tail.  A packet of 512 bytes or more is stored over the end of the
  buffer for the response on the stack, before any check of the client.\<close>

theorem auth_switch_response:
  assumes "sendable flags user auth db plugin" "flags AND MYS_CLT_PLUGIN_AUTH \<noteq> 0" "plugin \<noteq> ''mysql_native_password''"
    and "logging_on a s (response flags max_packet charset user auth db plugin) (frames 3 x @ rest)" "length x < 1000"
  shows "if length x < 512 then isl (fst (authenticate a s)) \<longleftrightarrow> \<not> admitted a user (db_name flags db) (cleared_with 512 (cstr x))
    else fst (authenticate a s) = Inl OutOfBounds"
proof -
  let ?p = "response flags max_packet charset user auth db plugin"
  let ?h = "parsed flags max_packet user auth db (blank a s)" and ?h2 = "\<lambda>h. h \<lparr> hs_auth := cleared_with 512 (cstr x) \<rparr>"
  obtain s' z where s': "authenticate a s = andThen (parseHandshakeRespPacketPayload a (?p @ NUL # z) (length ?p) (blank a s) s') (\<lambda>(_, h). authorize a h)"
      "tx_ready (s_net s')" "netPacketSeqID (s_net s') = 2" "stream (rd_script (s_net s')) = frames 3 x @ rest"
    using authenticate_reads [of s a ?p "frames 3 x @ rest"] length_response [OF assms(1)] assms(4) unfolding logging_on_def by blast
  have "parseHandshakeRespPacketPayload a (?p @ NUL # z) (length ?p) (blank a s) s' = authSwitch a ?h s'"
    using parse_response [OF assms(1), of "blank a s"] assms(2-4) by (simp add: blank_def logging_on_def)
  moreover have "length (hs_auth ?h) = 512" by (simp add: parsed_def cleared_with_def)
  then obtain s2 where s2: "authSwitch a ?h s' = (if length x < 512 then (Inr (1, ?h2 ?h), s2) else (Inl OutOfBounds, s2))"
      "tx_ready (s_net s2)"
    using authSwitch_reads [OF s'(2,3) _ _ s'(4) assms(5)] assms(4) unfolding logging_on_def by blast
  ultimately have "authenticate a s = (if length x < 512 then authorize a (?h2 ?h) s2 else (Inl OutOfBounds, s2))"
    using s'(1) by simp
  moreover have "hs_db (blank a s) = replicate 256 NUL" by (simp add: blank_def)
  ultimately show ?thesis
    using authorize_admits(1) [OF s2(2), of "?h2 ?h" user "db_name flags db" a] parsed_names(1,2) [OF assms(1)] by simp
qed

section \<open>Witnesses\<close>

text \<open>A server on which every role exists, with the method given.\<close>

definition sample_env :: "UserAuth \<Rightarrow> auth_env" where
  "sample_env m = \<lparr> ae_version = ''5.7.32-log'', ae_enableSSL = False, ae_max_allowed = 1048576, ae_open_ssl = (\<lambda>_. None),
     ae_hba = (\<lambda>_ _. m), ae_role_exists = (\<lambda>_. True), ae_role_password = (\<lambda>_. None), ae_search_path_ok = (\<lambda>_. True),
     ae_stack = replicate 512 NUL \<rparr>"

definition sample_session :: "bytes \<Rightarrow> session" where
  "sample_session bs = init_session 0 (initNetTransceiver [Data bs] [])"

lemma sample_logging_on: "logging_on (sample_env m) (sample_session (frames 1 p @ rest)) p rest"
  by (simp add: logging_on_def sample_env_def sample_session_def init_session_def tx_ready_def net_wf_init wr_ok_def)
    (simp add: initNetTransceiver_def WBUFF_INITIAL_SIZE_def)

text \<open>A client is let in although \<open>pg_hba.conf\<close> rejects it.\<close>

theorem logon_decision_witness:
  "\<not> isl (fst (authenticate (sample_env uaReject)
     (sample_session (frames 1 (response 0x80208 0 NUL ''bob'' [] ''Shop'' ''mysql_native_password'')))))"
proof -
  have "sendable 0x80208 ''bob'' [] ''Shop'' ''mysql_native_password''"
    by (simp add: sendable_def MYS_CLT_PROTOCOL_41_def MYS_CLT_SSL_def)
  from logon_decision [OF this, of "sample_env uaReject" _ 0 NUL "[]"] sample_logging_on [where rest = "[]"] show ?thesis
    by (simp add: admitted_def sample_env_def)
qed

theorem auth_switch_response_witness:
  "fst (authenticate (sample_env uaMD5)
     (sample_session (frames 1 (response 0x80208 0 NUL ''bob'' [] ''shop'' ''caching_sha2_password'') @ frames 3 (replicate 512 (CHR ''x'')) @ [])))
   = Inl OutOfBounds"
proof -
  have "sendable 0x80208 ''bob'' [] ''shop'' ''caching_sha2_password''"
    by (simp add: sendable_def MYS_CLT_PROTOCOL_41_def MYS_CLT_SSL_def)
  from auth_switch_response [OF this _ _ sample_logging_on, where m1 = uaMD5 and x = "replicate 512 (CHR ''x'')" and rest = "[]" and max_packet = 0 and charset = NUL] show ?thesis
    by (simp add: MYS_CLT_PLUGIN_AUTH_def)
qed

end
