(* ===== verification/SystemVar.thy ===== *)
theory SystemVar
  imports Session
begin

text \<open>
  The system variables of \<open>src/backend/adapter/mysql/systemVar.c\<close>: the descriptions read from the table
  \<open>base_variables\<close>, the table shared by all sessions with its spin lock, the table of the session, and the
  reading and setting of a variable with their effects on the session.  The rows of \<open>base_variables\<close>, the
  time zone of the machine, the setting of the server's time zone and the contents of array cells that
  were never written are parameters.  A string is the list of its characters, a null pointer is \<open>None\<close>.
\<close>

section \<open>State\<close>

definition SYSTEM_VAR_NAME_MAX_LEN :: nat where "SYSTEM_VAR_NAME_MAX_LEN = 128"
definition SYSTEM_VAR_VALUE_MAX_LEN :: nat where "SYSTEM_VAR_VALUE_MAX_LEN = 512"
definition SYSTEM_VAR_MAX_NUM :: nat where "SYSTEM_VAR_MAX_NUM = 1024"
definition SYSTEM_VAR_RESULT_RULE_NUM :: nat where "SYSTEM_VAR_RESULT_RULE_NUM = 16"
definition SYSTEM_VAR_RESULT_RULE_LEN :: nat where "SYSTEM_VAR_RESULT_RULE_LEN = 64"

definition MYS_MODE_NO_ZERO_IN_DATE :: nat where "MYS_MODE_NO_ZERO_IN_DATE = 2 ^ 23"
definition MYS_MODE_NO_ZERO_DATE :: nat where "MYS_MODE_NO_ZERO_DATE = 2 ^ 24"
definition MYS_MODE_INVALID_DATES :: nat where "MYS_MODE_INVALID_DATES = 2 ^ 25"

text \<open>An array of rules with its number is the list of the rules that were stored.\<close>

record SystemVar =
  varName :: bytes
  varDefValue :: bytes
  varConfValue :: bytes
  sessionGlobalType :: nat
  sessionDefValueFromGlobal :: bool
  isReadWrite :: bool
  sv_result :: "bytes list"
  selectResult :: "bytes list"
  showResult :: "bytes list"

record sysvars =
  baseSystemVars :: "SystemVar list"
  globalSystemVars :: "bytes \<rightharpoonup> SystemVar"
  globalLocked :: bool
  sessionSystemVars :: "(bytes \<rightharpoonup> SystemVar) option"
  mys_sqlMode :: nat
  default_week_format :: int
  isStrictTransTablesOn :: bool
  sv_timezone :: bytes
  sv_session :: session

record sv_env =
  base_variables :: "bytes option list list"
  os_timezone :: bytes
  timezone_error :: "bytes \<Rightarrow> bytes option"
  unwritten :: bytes

type_synonym 'a svio = "(fault + 'a) \<times> sysvars"

definition svThen :: "'a svio \<Rightarrow> ('a \<Rightarrow> sysvars \<Rightarrow> 'b svio) \<Rightarrow> 'b svio" where
  "svThen m f = (case m of (Inl e, st) \<Rightarrow> (Inl e, st) | (Inr x, st) \<Rightarrow> f x st)"

lemma svThen_Inr [simp]: "svThen (Inr x, st) f = f x st"
  and svThen_Inl [simp]: "svThen (Inl e, st) f = (Inl e, st)"
  by (simp_all add: svThen_def)

definition sv_error :: "bytes list \<Rightarrow> sysvars \<Rightarrow> 'a svio" where
  "sv_error parts st = (Inl (PgError (concat parts)), st)"

text \<open>The keys of the hash tables are names cut to their length.\<close>

definition sv_key :: "bytes \<Rightarrow> bytes" where
  "sv_key name = take (SYSTEM_VAR_NAME_MAX_LEN - 1) name"

text \<open>A pointer to a description: one of the base list, of the shared table or of the session's table.\<close>

datatype svref = BaseRef nat | GlobalRef bytes | SessionRef bytes

definition session_table :: "sysvars \<Rightarrow> bytes \<rightharpoonup> SystemVar" where
  "session_table st = (case sessionSystemVars st of None \<Rightarrow> Map.empty | Some m \<Rightarrow> m)"

fun deref :: "sysvars \<Rightarrow> svref \<Rightarrow> SystemVar" where
  "deref st (BaseRef i) = baseSystemVars st ! i"
| "deref st (GlobalRef k) = the (globalSystemVars st k)"
| "deref st (SessionRef k) = the (session_table st k)"

fun put_ref :: "svref \<Rightarrow> SystemVar \<Rightarrow> sysvars \<Rightarrow> sysvars" where
  "put_ref (BaseRef i) v st = st \<lparr> baseSystemVars := (baseSystemVars st)[i := v] \<rparr>"
| "put_ref (GlobalRef k) v st = st \<lparr> globalSystemVars := (globalSystemVars st)(k \<mapsto> v) \<rparr>"
| "put_ref (SessionRef k) v st = st \<lparr> sessionSystemVars := Some ((session_table st)(k \<mapsto> v)) \<rparr>"

section \<open>The lock\<close>

text \<open>A spin lock that is already held is waited for without end; the server then gives up as a whole.\<close>

definition lockGlobalSystemVars :: "sysvars \<Rightarrow> unit svio" where
  "lockGlobalSystemVars st = (if globalLocked st then (Inl Hang, st) else (Inr (), st \<lparr> globalLocked := True \<rparr>))"

definition unlockGlobalSystemVars :: "sysvars \<Rightarrow> sysvars" where
  "unlockGlobalSystemVars st = st \<lparr> globalLocked := False \<rparr>"

section \<open>Descriptions\<close>

definition lowerSystemVarName :: "bytes \<Rightarrow> bytes" where
  "lowerSystemVarName = map c_tolower"

text \<open>\<open>snprintf\<close> of a text into the array of a value.\<close>

definition setSystemVarValue :: "bytes option \<Rightarrow> bytes" where
  "setSystemVarValue v = (case v of None \<Rightarrow> [] | Some x \<Rightarrow> take (SYSTEM_VAR_VALUE_MAX_LEN - 1) x)"

text \<open>\<open>splitStr\<close>: the items between separators are stored one after the other in a flat array of rows.\<close>

fun split_items :: "char \<Rightarrow> bytes \<Rightarrow> bytes \<Rightarrow> bytes list" where
  "split_items sep [] cur = (if cur = [] then [] else [cur])"
| "split_items sep (c # cs) cur =
     (if c = sep then (if cur = [] then [] else [cur]) @ split_items sep cs [] else split_items sep cs (cur @ [c]))"

fun put_items :: "nat \<Rightarrow> nat \<Rightarrow> bytes list \<Rightarrow> bytes \<Rightarrow> bytes option" where
  "put_items k itemSize [] buf = Some buf"
| "put_items k itemSize (x # xs) buf =
     (case mem_write buf (k * itemSize) (x @ [NUL]) of None \<Rightarrow> None | Some buf1 \<Rightarrow> put_items (Suc k) itemSize xs buf1)"

definition splitStr :: "bytes \<Rightarrow> char \<Rightarrow> nat \<Rightarrow> bytes \<Rightarrow> (bytes \<times> nat) option" where
  "splitStr str separator itemSize items =
     (let xs = split_items separator str [] in
      map_option (\<lambda>buf. (buf, length xs)) (put_items 0 itemSize xs items))"

definition asignSystemVarResult :: "bytes \<Rightarrow> fault + bytes list option" where
  "asignSystemVarResult srcResult =
     (case splitStr srcResult (CHR ''|'') SYSTEM_VAR_RESULT_RULE_LEN
             (replicate (SYSTEM_VAR_RESULT_RULE_NUM * SYSTEM_VAR_RESULT_RULE_LEN) NUL) of
        None \<Rightarrow> Inl OutOfBounds
      | Some (items, itemsNum) \<Rightarrow>
          let texts = map (\<lambda>i. cstr (drop (i * SYSTEM_VAR_RESULT_RULE_LEN) items)) [0..<itemsNum] in
          Inr (if list_all (\<lambda>x. length x < SYSTEM_VAR_RESULT_RULE_LEN - 1) texts then Some texts else None))"

definition asign_rules :: "bytes option \<Rightarrow> fault + bytes list option" where
  "asign_rules src = (case src of None \<Rightarrow> Inr (Some []) | Some x \<Rightarrow> asignSystemVarResult x)"

definition rules_valid :: "bytes list \<Rightarrow> bytes list \<Rightarrow> bytes list \<Rightarrow> bool" where
  "rules_valid r sel sh \<longleftrightarrow>
     \<not> (length r = 0 \<and> (0 < length sel \<or> 0 < length sh))
     \<and> \<not> (0 < length r \<and> (length sel \<noteq> length r \<and> length sh \<noteq> length r
            \<or> 0 < length sel \<and> 0 < length sh \<and> length sel \<noteq> length sh))"

definition asignSystemVar ::
  "bytes option \<Rightarrow> bytes option \<Rightarrow> nat \<Rightarrow> bool \<Rightarrow> bool \<Rightarrow> bytes option \<Rightarrow> bytes option \<Rightarrow> bytes option \<Rightarrow> bytes
   \<Rightarrow> fault + SystemVar option" where
  "asignSystemVar defval conf kind fromGlobal rw result sel sh name =
     (case asign_rules result of Inl f \<Rightarrow> Inl f | Inr None \<Rightarrow> Inr None
      | Inr (Some r) \<Rightarrow>
     (case asign_rules sel of Inl f \<Rightarrow> Inl f | Inr None \<Rightarrow> Inr None
      | Inr (Some rsel) \<Rightarrow>
     (case asign_rules sh of Inl f \<Rightarrow> Inl f | Inr None \<Rightarrow> Inr None
      | Inr (Some rsh) \<Rightarrow>
          if rules_valid r rsel rsh
          then Inr (Some \<lparr> varName = name, varDefValue = setSystemVarValue defval, varConfValue = setSystemVarValue conf,
                           sessionGlobalType = kind, sessionDefValueFromGlobal = fromGlobal, isReadWrite = rw,
                           sv_result = r, selectResult = rsel, showResult = rsh \<rparr>)
          else Inr None)))"

text \<open>A row of \<open>base_variables\<close>: name, default, value, kind, origin of the default, writable, rules.\<close>

definition column :: "bytes option list \<Rightarrow> nat \<Rightarrow> bytes option" where
  "column row i = (if i < length row then row ! i else None)"

definition first_is :: "char \<Rightarrow> bytes \<Rightarrow> bool" where
  "first_is c x = (x \<noteq> [] \<and> hd x = c)"

definition row_type :: "bytes option \<Rightarrow> nat option" where
  "row_type v =
     (case v of None \<Rightarrow> Some 0
      | Some x \<Rightarrow> if first_is (CHR ''0'') x then Some 0 else if first_is (CHR ''1'') x then Some 1
                  else if first_is (CHR ''2'') x then Some 2 else if first_is (CHR ''3'') x then Some 3 else None)"

definition row_flag :: "bytes option \<Rightarrow> bool" where
  "row_flag v = (case v of None \<Rightarrow> True | Some x \<Rightarrow> first_is (CHR ''1'') x)"

definition initBaseSystemVar :: "bytes option list \<Rightarrow> fault + SystemVar option" where
  "initBaseSystemVar row =
     (case row_type (column row 3) of
        None \<Rightarrow> Inr None
      | Some kind \<Rightarrow>
          let name = (case column row 0 of None \<Rightarrow> ''(null)'' | Some x \<Rightarrow> lowerSystemVarName x);
              shows = filter (\<lambda>x. x \<noteq> None) (drop 8 row) in
          asignSystemVar (column row 1) (column row 2) kind (row_flag (column row 4)) (row_flag (column row 5))
            (column row 6) (column row 7) (if shows = [] then None else last shows)
            (take (SYSTEM_VAR_NAME_MAX_LEN - 1) name))"

definition add2BaseSystemVars :: "SystemVar \<Rightarrow> sysvars \<Rightarrow> bool \<times> sysvars" where
  "add2BaseSystemVars v st =
     (if length (baseSystemVars st) < SYSTEM_VAR_MAX_NUM
      then (True, st \<lparr> baseSystemVars := baseSystemVars st @ [v] \<rparr>) else (False, st))"

definition copySystemVar :: "SystemVar \<Rightarrow> bytes \<Rightarrow> SystemVar" where
  "copySystemVar src key =
     src \<lparr> varName := key, varDefValue := setSystemVarValue (Some (varDefValue src)),
           varConfValue := setSystemVarValue (Some (varConfValue src)) \<rparr>"

section \<open>Effects of a value\<close>

text \<open>\<open>strtol\<close> in base ten: the value, whether it was out of the range of a \<open>long\<close>, and what is left.\<close>

definition is_space :: "char \<Rightarrow> bool" where
  "is_space c \<longleftrightarrow> c \<in> {CHR '' '', CHR 0x09, CHR 0x0A, CHR 0x0B, CHR 0x0C, CHR 0x0D}"

definition strtol :: "bytes \<Rightarrow> int \<times> bool \<times> bytes" where
  "strtol x =
     (let y = dropWhile is_space x;
          neg = first_is (CHR ''-'') y;
          z = (if neg \<or> first_is (CHR ''+'') y then tl y else y);
          ds = takeWhile is_digit z;
          v = (if neg then - int (digits_val 0 ds) else int (digits_val 0 ds)) in
      if ds = [] then (0, False, x)
      else if 2 ^ 63 - 1 < v then (2 ^ 63 - 1, True, drop (length ds) z)
      else if v < - (2 ^ 63) then (- (2 ^ 63), True, drop (length ds) z)
      else (v, False, drop (length ds) z))"

definition atoi :: "bytes \<Rightarrow> int" where
  "atoi x = wrap_signed 32 (fst (strtol x))"

text \<open>\<open>mys_SplitIdentifierString\<close>, for an encoding of single bytes: names quoted by back quotes, in which a
  doubled quote stands for one, or plain names, which are put in lower case; cut to 63 bytes.\<close>

definition scanner_isspace :: "char \<Rightarrow> bool" where
  "scanner_isspace c \<longleftrightarrow> c \<in> {CHR '' '', CHR 0x09, CHR 0x0A, CHR 0x0D, CHR 0x0C}"

fun quoted_name :: "bytes \<Rightarrow> (bytes \<times> bytes) option" where
  "quoted_name [] = None"
| "quoted_name (c # cs) =
     (if c = CHR ''`'' then
        (case cs of
           [] \<Rightarrow> Some ([], [])
         | d # ds \<Rightarrow> if d = CHR ''`'' then map_option (\<lambda>(n, r). (c # n, r)) (quoted_name ds) else Some ([], cs))
      else map_option (\<lambda>(n, r). (c # n, r)) (quoted_name cs))"

definition name_at :: "char \<Rightarrow> bytes \<Rightarrow> (bytes \<times> bytes) option" where
  "name_at separator x =
     (if first_is (CHR ''`'') x then map_option (\<lambda>(n, r). (take 63 n, r)) (quoted_name (tl x))
      else
        let n = takeWhile (\<lambda>c. c \<noteq> separator \<and> \<not> scanner_isspace c) x in
        if n = [] then None else Some (take 63 (map c_tolower n), drop (length n) x))"

lemma quoted_name_length: "quoted_name x = Some (n, r) \<Longrightarrow> length r \<le> length x"
proof (induction x arbitrary: n r rule: quoted_name.induct)
  case (2 c cs)
  then show ?case by (cases cs) (fastforce split: if_splits)+
qed simp

lemma name_at_length: "name_at separator x = Some (n, r) \<Longrightarrow> length r \<le> length x"
  using quoted_name_length by (cases x) (fastforce simp: name_at_def Let_def split: if_splits)+

function split_names :: "char \<Rightarrow> bytes \<Rightarrow> bytes list option" where
  "split_names separator x =
     (case name_at separator x of
        None \<Rightarrow> None
      | Some (n, r) \<Rightarrow>
          (case dropWhile scanner_isspace r of
             [] \<Rightarrow> Some [n]
           | c # r1 \<Rightarrow>
               if c = separator then map_option (Cons n) (split_names separator (dropWhile scanner_isspace r1)) else None))"
  by pat_completeness auto
termination
proof (relation "measure (\<lambda>(_, x). length x)")
  fix separator :: char and x p n r c r1
  assume "name_at separator x = Some p" "(n, r) = p" "dropWhile scanner_isspace r = c # r1" "c = separator"
  then have "length r \<le> length x" "length (c # r1) \<le> length r"
    using name_at_length length_dropWhile_le [of scanner_isspace r] by metis+
  then have "length (dropWhile scanner_isspace r1) < length x"
    using length_dropWhile_le [of scanner_isspace r1] by simp
  then show "((separator, dropWhile scanner_isspace r1), separator, x) \<in> measure (\<lambda>(_, x). length x)" by simp
qed simp

declare split_names.simps [simp del]

definition SplitIdentifierString :: "bytes \<Rightarrow> char \<Rightarrow> bytes list option" where
  "SplitIdentifierString x separator =
     (let y = dropWhile scanner_isspace x in if y = [] then Some [] else split_names separator y)"

definition sql_mode_bit :: "bytes \<Rightarrow> nat" where
  "sql_mode_bit v =
     (if strncaseeq v ''STRICT_TRANS_TABLES'' 19 then 0
      else if strncaseeq v ''NO_ZERO_IN_DATE'' 15 then MYS_MODE_NO_ZERO_IN_DATE
      else if strncaseeq v ''NO_ZERO_DATE'' 12 then MYS_MODE_NO_ZERO_DATE
      else if strncaseeq v ''ALLOW_INVALID_DATES'' 12 then MYS_MODE_INVALID_DATES else 0)"

definition applyTimeZone :: "sv_env \<Rightarrow> bytes \<Rightarrow> sysvars \<Rightarrow> unit svio" where
  "applyTimeZone e v st =
     (let z = (if strncaseeq v ''system'' 6 then os_timezone e else takeWhile (\<lambda>c. c \<noteq> CHR '':'') v) in
      case timezone_error e z of
        Some m \<Rightarrow> (Inl (PgError m), st)
      | None \<Rightarrow> (Inr (), st \<lparr> sv_timezone := z \<rparr>))"

definition applySqlMode :: "bytes \<Rightarrow> sysvars \<Rightarrow> unit svio" where
  "applySqlMode v st =
     (let st1 = st \<lparr> isStrictTransTablesOn := False \<rparr> in
      case SplitIdentifierString v (CHR '','') of
        None \<Rightarrow> sv_error [''List syntax is invalid.''] st1
      | Some names \<Rightarrow> (Inr (), st1 \<lparr> mys_sqlMode := fold (\<lambda>n acc. acc OR sql_mode_bit n) names 0 \<rparr>))"

definition applyWeekFormat :: "bytes \<Rightarrow> sysvars \<Rightarrow> unit svio" where
  "applyWeekFormat v st =
     (case strtol v of (x, erange, endPtr) \<Rightarrow>
        let n = wrap_signed 32 x in
        if erange \<or> endPtr \<noteq> [] \<or> 7 < n \<or> n < 0 then sv_error [''incorrect default_week_format value: '', v] st
        else (Inr (), st \<lparr> default_week_format := n \<rparr>))"

text \<open>A null pointer as the value of one of these variables is followed.\<close>

definition applySystemVarValue :: "sv_env \<Rightarrow> bytes \<Rightarrow> bytes option \<Rightarrow> sysvars \<Rightarrow> unit svio" where
  "applySystemVarValue e name v st =
     (if strncaseeq name ''autocommit'' 10 then
        (case v of None \<Rightarrow> (Inl OutOfBounds, st) | Some x \<Rightarrow> (Inr (), st \<lparr> sv_session := applyAutocommit x (sv_session st) \<rparr>))
      else if strncaseeq name ''time_zone'' 9 then
        (case v of None \<Rightarrow> (Inl OutOfBounds, st) | Some x \<Rightarrow> applyTimeZone e x st)
      else if strncaseeq name ''sql_mode'' 8 then
        (case v of None \<Rightarrow> (Inl OutOfBounds, st) | Some x \<Rightarrow> applySqlMode x st)
      else if strncaseeq name ''default_week_format'' 19 then
        (case v of None \<Rightarrow> (Inl OutOfBounds, st) | Some x \<Rightarrow> applyWeekFormat x st)
      else (Inr (), st))"

section \<open>The tables\<close>

definition add2GlobalSystemVars :: "SystemVar \<Rightarrow> sysvars \<Rightarrow> sysvars" where
  "add2GlobalSystemVars v st =
     (let k = sv_key (varName v) in
      case globalSystemVars st k of
        Some _ \<Rightarrow> st
      | None \<Rightarrow> st \<lparr> globalSystemVars := (globalSystemVars st)(k \<mapsto> copySystemVar v k) \<rparr>)"

definition init_flag :: SystemVar where
  "init_flag = \<lparr> varName = ''global_system_vars_init_flag'', varDefValue = ''1'', varConfValue = ''1'', sessionGlobalType = 0,
     sessionDefValueFromGlobal = False, isReadWrite = False, sv_result = [], selectResult = [], showResult = [] \<rparr>"

definition initGlobalSystemVars :: "sysvars \<Rightarrow> sysvars" where
  "initGlobalSystemVars st =
     (case globalSystemVars st (varName init_flag) of
        Some _ \<Rightarrow> st
      | None \<Rightarrow> fold add2GlobalSystemVars (baseSystemVars st)
                  (st \<lparr> globalSystemVars := (globalSystemVars st)(varName init_flag \<mapsto> init_flag) \<rparr>))"

definition add2SessionSystemVars :: "sv_env \<Rightarrow> SystemVar \<Rightarrow> sysvars \<Rightarrow> unit svio" where
  "add2SessionSystemVars e v st =
     (let k = sv_key (varName v);
          entry = (case session_table st k of Some w \<Rightarrow> w | None \<Rightarrow> copySystemVar v k);
          st1 = st \<lparr> sessionSystemVars := Some ((session_table st)(k \<mapsto> entry)) \<rparr> in
      applySystemVarValue e (varName entry) (Some (varConfValue entry)) st1)"

fun addAllSession :: "sv_env \<Rightarrow> SystemVar list \<Rightarrow> sysvars \<Rightarrow> unit svio" where
  "addAllSession e [] st = (Inr (), st)"
| "addAllSession e (v # vs) st = svThen (add2SessionSystemVars e v st) (\<lambda>_. addAllSession e vs)"

definition initSessionSystemVars :: "sv_env \<Rightarrow> sysvars \<Rightarrow> unit svio" where
  "initSessionSystemVars e st = addAllSession e (baseSystemVars st) (st \<lparr> sessionSystemVars := Some Map.empty \<rparr>)"

fun initBase :: "bytes option list list \<Rightarrow> sysvars \<Rightarrow> unit svio" where
  "initBase [] st = (Inr (), st)"
| "initBase (row # rows) st =
     (case initBaseSystemVar row of
        Inl f \<Rightarrow> (Inl f, st)
      | Inr None \<Rightarrow>
          (case column row 0 of
             None \<Rightarrow> (Inl OutOfBounds, st)
           | Some x \<Rightarrow>
               sv_error [''Invalid data '', [CHR 0x27],
                 lowerSystemVarName x, [CHR 0x27],
                 '' in mys_informa_schema.base_variables table. Connection will be disconnect.''] st)
      | Inr (Some v) \<Rightarrow>
          (case add2BaseSystemVars v st of
             (False, st1) \<Rightarrow> sv_error [''There are too many MySQL system variables. Connection will be disconnect.''] st1
           | (True, st1) \<Rightarrow> initBase rows st1))"

definition initBaseSystemVars :: "sv_env \<Rightarrow> sysvars \<Rightarrow> unit svio" where
  "initBaseSystemVars e st = initBase (base_variables e) (st \<lparr> baseSystemVars := [] \<rparr>)"

definition initSystemVariables :: "sv_env \<Rightarrow> sysvars \<Rightarrow> unit svio" where
  "initSystemVariables e st =
     svThen (initBaseSystemVars e st) (\<lambda>_ st1.
     svThen (lockGlobalSystemVars st1) (\<lambda>_ st2.
     svThen (initSessionSystemVars e (initGlobalSystemVars st2)) (\<lambda>_ st3. (Inr (), unlockGlobalSystemVars st3))))"

text \<open>\<open>dynAddSystemVar\<close>: a variable that came into \<open>base_variables\<close> later.  It returns the new description of
  the base list, not the entries of the two tables.\<close>

fun find_row :: "bytes \<Rightarrow> bytes option list list \<Rightarrow> fault + bytes option list option" where
  "find_row name [] = Inr None"
| "find_row name (row # rows) =
     (case column row 0 of
        None \<Rightarrow> Inl OutOfBounds
      | Some x \<Rightarrow> if length name = length x \<and> strncaseeq name x (length name) then Inr (Some row) else find_row name rows)"

definition dynAddSystemVar :: "sv_env \<Rightarrow> bytes \<Rightarrow> sysvars \<Rightarrow> svref option svio" where
  "dynAddSystemVar e name st =
     (case find_row name (base_variables e) of
        Inl f \<Rightarrow> (Inl f, st)
      | Inr None \<Rightarrow> (Inr None, st)
      | Inr (Some row) \<Rightarrow>
          (case initBaseSystemVar row of
             Inl f \<Rightarrow> (Inl f, st)
           | Inr None \<Rightarrow> (Inr None, st)
           | Inr (Some v) \<Rightarrow>
               (case add2BaseSystemVars v st of
                  (False, st1) \<Rightarrow> (Inr None, st1)
                | (True, st1) \<Rightarrow>
                    svThen (add2SessionSystemVars e v (add2GlobalSystemVars v st1))
                      (\<lambda>_ st2. (Inr (Some (BaseRef (length (baseSystemVars st)))), st2)))))"

definition findSession :: "sv_env \<Rightarrow> bytes \<Rightarrow> sysvars \<Rightarrow> svref option svio" where
  "findSession e name st =
     (case session_table st (sv_key name) of
        Some _ \<Rightarrow> (Inr (Some (SessionRef (sv_key name))), st) | None \<Rightarrow> dynAddSystemVar e name st)"

definition findGlobal :: "sv_env \<Rightarrow> bytes \<Rightarrow> sysvars \<Rightarrow> svref option svio" where
  "findGlobal e name st =
     (case globalSystemVars st (sv_key name) of
        Some _ \<Rightarrow> (Inr (Some (GlobalRef (sv_key name))), st) | None \<Rightarrow> dynAddSystemVar e name st)"

section \<open>Setting a variable\<close>

text \<open>\<open>setSystemVarValueForOptimizerSwitch\<close>: each \<open>name=setting\<close> of the value replaces, in the stored text, from the
  first place where the name occurs up to the next comma.  The stored text is changed item by item, also
  if a later item is wrong; the new text is built in an array of 512 bytes.\<close>

definition until_comma :: "bytes \<Rightarrow> nat \<Rightarrow> nat" where
  "until_comma x i = i + length (takeWhile (\<lambda>c. c \<noteq> CHR '','') (drop i x))"

definition occurrence :: "bytes \<Rightarrow> bytes \<Rightarrow> nat option" where
  "occurrence name x = find (\<lambda>k. strncaseeq (drop k x) name (length name)) [0..<length x]"

definition replace_item :: "bytes \<Rightarrow> nat \<Rightarrow> nat \<Rightarrow> nat \<Rightarrow> bytes \<Rightarrow> (fault + unit) \<times> bytes" where
  "replace_item v start i j x =
     (case (case occurrence (bslice start (i - start) v) x of None \<Rightarrow> (0, 0) | Some k \<Rightarrow> (k, until_comma x k)) of
        (index, next_index) \<Rightarrow>
          if index = 0 \<and> next_index = 0
          then (Inl (PgError (''Invalid value '' @ [CHR 0x27] @ v @ [CHR 0x27] @ '' for '' @ [CHR 0x27] @ ''optimizer_switch'' @ [CHR 0x27])), x)
          else
            let new = take index x @ bslice start (j - start) v @ drop next_index x in
            if SYSTEM_VAR_VALUE_MAX_LEN < length new + 1 then (Inl OutOfBounds, x)
            else (Inr (), take (SYSTEM_VAR_VALUE_MAX_LEN - 1) new))"

function optLoop :: "bytes \<Rightarrow> nat \<Rightarrow> nat \<Rightarrow> bytes \<Rightarrow> (fault + unit) \<times> bytes" where
  "optLoop v i start x =
     (if length v \<le> i then (Inr (), x)
      else if v ! i \<noteq> CHR ''='' then optLoop v (i + 1) start x
      else if i = start
      then (Inl (PgError (''Invalid value '' @ [CHR 0x27] @ v @ [CHR 0x27] @ '' for '' @ [CHR 0x27] @ ''optimizer_switch'' @ [CHR 0x27])), x)
      else
        let j = until_comma v (i + 1) in
        (case replace_item v start i j x of
           (Inl f, x1) \<Rightarrow> (Inl f, x1)
         | (Inr _, x1) \<Rightarrow> optLoop v (j + 1) (j + 1) x1))"
  by pat_completeness auto
termination
  by (relation "measure (\<lambda>(v, i, _, _). length v - i)") (auto simp: until_comma_def)

declare optLoop.simps [simp del]

definition setSystemVarValueForOptimizerSwitch :: "bytes option \<Rightarrow> bytes \<Rightarrow> (fault + unit) \<times> bytes" where
  "setSystemVarValueForOptimizerSwitch v x = (case v of None \<Rightarrow> (Inl OutOfBounds, x) | Some y \<Rightarrow> optLoop y 0 0 x)"

definition setSystemVarValueByVarName :: "bytes \<Rightarrow> bytes option \<Rightarrow> bytes \<Rightarrow> (fault + unit) \<times> bytes" where
  "setSystemVarValueByVarName name v x =
     (if strncaseeq name ''optimizer_switch'' 16 then setSystemVarValueForOptimizerSwitch v x else (Inr (), setSystemVarValue v))"

definition store_value :: "bytes \<Rightarrow> bytes option \<Rightarrow> svref \<Rightarrow> sysvars \<Rightarrow> unit svio" where
  "store_value name v r st =
     (case setSystemVarValueByVarName name v (varConfValue (deref st r)) of
        (res, x) \<Rightarrow> (res, put_ref r ((deref st r) \<lparr> varConfValue := x \<rparr>) st))"

definition getDefaultValue :: "bytes \<Rightarrow> bool \<Rightarrow> sysvars \<Rightarrow> bytes svio" where
  "getDefaultValue name isSession st =
     (let fromGlobal = (\<lambda>st. svThen (lockGlobalSystemVars st) (\<lambda>_ st1.
            case globalSystemVars st1 (sv_key name) of
              Some w \<Rightarrow> (Inr (varConfValue w), unlockGlobalSystemVars st1)
            | None \<Rightarrow> sv_error [''Can not find system variable '', [CHR 0x22], name, [CHR 0x22], '' from global.''] (unlockGlobalSystemVars st1)));
          fromBase = (\<lambda>st. case find (\<lambda>w. length name = length (varName w) \<and> strncaseeq name (varName w) (length name)) (baseSystemVars st) of
              Some w \<Rightarrow> (Inr (varDefValue w), st)
            | None \<Rightarrow> sv_error [''Can not find system variable '', [CHR 0x22], name, [CHR 0x22], '' from base.''] st) in
      if strncaseeq name ''last_insert_id'' 14
      then sv_error [''Variable '', [CHR 0x27], name, [CHR 0x27], '' doesn'', [CHR 0x27], ''t have a default value''] st
      else if isSession then
        (case session_table st (sv_key name) of
           None \<Rightarrow> sv_error [''Can not find system variable '', [CHR 0x22], name, [CHR 0x22], '' from global.''] st
         | Some w \<Rightarrow> if sessionDefValueFromGlobal w then fromGlobal st else fromBase st)
      else fromBase st)"

definition cell :: "sv_env \<Rightarrow> bytes list \<Rightarrow> nat \<Rightarrow> bytes" where
  "cell e xs i = (if i < length xs then xs ! i else unwritten e)"

definition same_text :: "bytes \<Rightarrow> bytes \<Rightarrow> bool" where
  "same_text x y \<longleftrightarrow> length x = length y \<and> strncaseeq x y (length x)"

definition rule_value :: "sv_env \<Rightarrow> SystemVar \<Rightarrow> bytes \<Rightarrow> nat \<Rightarrow> bytes option" where
  "rule_value e w v i =
     (if same_text v (sv_result w ! i) then Some v
      else if same_text v (cell e (showResult w) i) then Some (sv_result w ! i) else None)"

definition rectifySystemVarValue :: "sv_env \<Rightarrow> bytes \<Rightarrow> bytes option \<Rightarrow> bool \<Rightarrow> sysvars \<Rightarrow> bytes option svio" where
  "rectifySystemVarValue e name v isSession st =
     (case v of
        None \<Rightarrow> (Inr None, st)
      | Some x \<Rightarrow>
          if strneq x ''halo_mysql_system_var_default'' 29
          then svThen (getDefaultValue name isSession st) (\<lambda>d st1. (Inr (Some d), st1))
          else if strncaseeq name ''query_cache_size'' 16 then
            (let n = atoi x in
             if n < 0 then sv_error [''Invalid value '', [CHR 0x27], show_int n, [CHR 0x27], '' for query_cache_size''] st
             else (Inr (Some (show_int (n div 1048576 * 1048576))), st))
          else
            (case session_table st (sv_key name) of
               None \<Rightarrow> sv_error [''Unknown system variable '', [CHR 0x27], name, [CHR 0x27]] st
             | Some w \<Rightarrow>
                 if sv_result w = [] then (Inr (Some x), st)
                 else
                   (case find (\<lambda>i. rule_value e w x i \<noteq> None) [0..<length (sv_result w)] of
                      Some i \<Rightarrow> (Inr (rule_value e w x i), st)
                    | None \<Rightarrow> sv_error [''Variable '', [CHR 0x27], name, [CHR 0x27], '' can'', [CHR 0x27], ''t be set to the value of '', [CHR 0x27], x, [CHR 0x27]] st)))"

definition var_error :: "bytes \<Rightarrow> bytes \<Rightarrow> sysvars \<Rightarrow> 'a svio" where
  "var_error name m st = sv_error [''Variable '', [CHR 0x27], name, [CHR 0x27], m] st"

definition unknown_error :: "bytes \<Rightarrow> sysvars \<Rightarrow> 'a svio" where
  "unknown_error name st = sv_error [''Unknown system variable '', [CHR 0x27], name, [CHR 0x27]] st"

definition setSessionFound :: "sv_env \<Rightarrow> bytes \<Rightarrow> bytes option \<Rightarrow> svref \<Rightarrow> sysvars \<Rightarrow> unit svio" where
  "setSessionFound e name v r st =
     (if sessionGlobalType (deref st r) \<in> {0, 2, 3} then
        if isReadWrite (deref st r) then svThen (store_value name v r st) (\<lambda>_. applySystemVarValue e name v)
        else var_error name '' is a read only variable'' st
      else var_error name '' is a GLOBAL variable and should be set with SET GLOBAL'' st)"

definition setSessionVar :: "sv_env \<Rightarrow> bytes \<Rightarrow> bytes option \<Rightarrow> sysvars \<Rightarrow> unit svio" where
  "setSessionVar e name v st =
     svThen (findSession e name st) (\<lambda>found st1.
       case found of None \<Rightarrow> unknown_error name st1 | Some r \<Rightarrow> setSessionFound e name v r st1)"

text \<open>An error inside \<open>store_value\<close>, or inside the search, leaves the lock held.  A global variable that is also
  the session's default is stored in the session's table as well.\<close>

definition shareWithSession :: "bytes \<Rightarrow> bytes option \<Rightarrow> svref \<Rightarrow> sysvars \<Rightarrow> unit svio" where
  "shareWithSession name v r st =
     (if sessionGlobalType (deref st r) = 1 \<and> sessionDefValueFromGlobal (deref st r) then
        (case session_table st (sv_key name) of
           Some _ \<Rightarrow> store_value name v (SessionRef (sv_key name)) st
         | None \<Rightarrow> sv_error [''System session variable '', [CHR 0x27], name, [CHR 0x27], '' does not exists(set)''] st)
      else (Inr (), st))"

definition setGlobalFound :: "bytes \<Rightarrow> bytes option \<Rightarrow> svref \<Rightarrow> sysvars \<Rightarrow> unit svio" where
  "setGlobalFound name v r st =
     (if sessionGlobalType (deref st r) \<in> {0, 1} then
        if isReadWrite (deref st r)
        then svThen (store_value name v r st) (\<lambda>_ st1. shareWithSession name v r (unlockGlobalSystemVars st1))
        else var_error name '' is a read only variable'' (unlockGlobalSystemVars st)
      else var_error name ('' is a SESSION variable and can'' @ [CHR 0x27] @ ''t be used with SET GLOBAL'') (unlockGlobalSystemVars st))"

definition setGlobalVar :: "sv_env \<Rightarrow> bytes \<Rightarrow> bytes option \<Rightarrow> sysvars \<Rightarrow> unit svio" where
  "setGlobalVar e name v st =
     svThen (lockGlobalSystemVars st) (\<lambda>_ st1.
     svThen (findGlobal e name st1) (\<lambda>found st2.
       case found of None \<Rightarrow> unknown_error name (unlockGlobalSystemVars st2) | Some r \<Rightarrow> setGlobalFound name v r st2))"

definition initialised :: "sv_env \<Rightarrow> sysvars \<Rightarrow> unit svio" where
  "initialised e st = (if sessionSystemVars st = None then initSystemVariables e st else (Inr (), st))"

definition setSystemVariableValue :: "sv_env \<Rightarrow> bytes option \<Rightarrow> bytes option \<Rightarrow> bool \<Rightarrow> sysvars \<Rightarrow> unit svio" where
  "setSystemVariableValue e name v isSession st =
     svThen (initialised e st) (\<lambda>_ st1.
       case name of
         None \<Rightarrow> sv_error [''Invalid system variable name(NULL)''] st1
       | Some nm \<Rightarrow>
           let n = lowerSystemVarName nm in
           svThen (rectifySystemVarValue e n v isSession st1) (\<lambda>v1.
             if isSession then setSessionVar e n v1 else setGlobalVar e n v1))"

section \<open>Reading a variable\<close>

definition ruled :: "sv_env \<Rightarrow> SystemVar \<Rightarrow> bytes list \<Rightarrow> bytes option" where
  "ruled e w texts =
     (if texts = [] then Some (varConfValue w)
      else map_option (\<lambda>i. texts ! i)
        (find (\<lambda>i. same_text (varConfValue w) (cell e (sv_result w) i)) [0..<length texts]))"

definition getConfValue :: "sv_env \<Rightarrow> SystemVar \<Rightarrow> bool \<Rightarrow> bytes option" where
  "getConfValue e w forSelect = ruled e w (if forSelect then selectResult w else showResult w)"

text \<open>The result is 0, 1 or 2 and, for 0, the value.\<close>

definition getGlobalFound :: "sv_env \<Rightarrow> bool \<Rightarrow> svref option \<Rightarrow> sysvars \<Rightarrow> nat \<times> bytes option" where
  "getGlobalFound e forSelect found st =
     (case found of
        Some r \<Rightarrow> if sessionGlobalType (deref st r) \<in> {0, 1, 3} then (0, getConfValue e (deref st r) forSelect) else (2, None)
      | None \<Rightarrow> (1, None))"

definition getSystemVariableValueImpl :: "sv_env \<Rightarrow> bytes option \<Rightarrow> bool \<Rightarrow> bool \<Rightarrow> sysvars \<Rightarrow> (nat \<times> bytes option) svio" where
  "getSystemVariableValueImpl e name isSession forSelect st =
     svThen (initialised e st) (\<lambda>_ st1.
       case name of
         None \<Rightarrow> (Inr (1, None), st1)
       | Some nm \<Rightarrow>
           let n = lowerSystemVarName nm in
           if isSession then
             svThen (findSession e n st1) (\<lambda>found st2.
               (Inr (case found of Some r \<Rightarrow> (0, getConfValue e (deref st2 r) forSelect) | None \<Rightarrow> (1, None)), st2))
           else
             svThen (lockGlobalSystemVars st1) (\<lambda>_ st2.
             svThen (findGlobal e n st2) (\<lambda>found st3. (Inr (getGlobalFound e forSelect found st3), unlockGlobalSystemVars st3))))"

text \<open>\<open>getSystemVariableValueForSelect\<close> and \<open>getSystemVariableValueForShow\<close>.\<close>

definition getSystemVariableValue :: "sv_env \<Rightarrow> bool \<Rightarrow> bytes option \<Rightarrow> bool \<Rightarrow> sysvars \<Rightarrow> bytes option svio" where
  "getSystemVariableValue e forSelect name isSession st =
     svThen (getSystemVariableValueImpl e name isSession forSelect st) (\<lambda>(ret, v) st1.
       let n = (case name of None \<Rightarrow> ''(null)'' | Some x \<Rightarrow> lowerSystemVarName x) in
       if ret = 0 then (Inr v, st1)
       else if ret = 1 then unknown_error n st1
       else var_error n '' is a SESSION variable'' st1)"

definition isSystemVariable :: "sv_env \<Rightarrow> bytes \<Rightarrow> sysvars \<Rightarrow> bool svio" where
  "isSystemVariable e name st =
     svThen (initialised e st) (\<lambda>_ st1. (Inr (session_table st1 (sv_key (lowerSystemVarName name)) \<noteq> None), st1))"

text \<open>The SQL functions of \<open>src/backend/utils/ddsm/mysm/systemVar.c\<close>.\<close>

definition setSystemVariable :: "sv_env \<Rightarrow> bytes option \<Rightarrow> bytes option \<Rightarrow> bool option \<Rightarrow> sysvars \<Rightarrow> bool svio" where
  "setSystemVariable e name v isSession st =
     (if name = None \<or> isSession = None then (Inr False, st)
      else svThen (setSystemVariableValue e name v (the isSession) st) (\<lambda>_ st1. (Inr True, st1)))"

definition getSystemVariable :: "sv_env \<Rightarrow> bytes \<Rightarrow> bool \<Rightarrow> sysvars \<Rightarrow> bytes option svio" where
  "getSystemVariable e name isSession = getSystemVariableValue e True (Some name) isSession"

section \<open>Well-formed descriptions\<close>

text \<open>Values fit in their arrays, rules in theirs; a variable that has rules has a text for each rule in one
  of the two columns, and in the other one for each rule or none.\<close>

definition rules_wf :: "bytes list \<Rightarrow> bool" where
  "rules_wf xs \<longleftrightarrow> length xs \<le> 16 \<and> list_all (\<lambda>x. length x < 63 \<and> NUL \<notin> set x) xs"

definition sv_wf :: "SystemVar \<Rightarrow> bool" where
  "sv_wf w \<longleftrightarrow> length (varName w) \<le> 127 \<and> length (varDefValue w) \<le> 511 \<and> length (varConfValue w) \<le> 511
     \<and> sessionGlobalType w \<le> 3 \<and> rules_wf (sv_result w) \<and> rules_wf (selectResult w) \<and> rules_wf (showResult w)
     \<and> length (selectResult w) \<in> {0, length (sv_result w)} \<and> length (showResult w) \<in> {0, length (sv_result w)}
     \<and> (sv_result w \<noteq> [] \<longrightarrow> selectResult w \<noteq> [] \<or> showResult w \<noteq> [])"

definition table_wf :: "(bytes \<rightharpoonup> SystemVar) \<Rightarrow> bool" where
  "table_wf m \<longleftrightarrow> (\<forall>k w. m k = Some w \<longrightarrow> sv_wf w \<and> varName w = k)"

definition sysvars_wf :: "sysvars \<Rightarrow> bool" where
  "sysvars_wf st \<longleftrightarrow> list_all sv_wf (baseSystemVars st) \<and> length (baseSystemVars st) \<le> SYSTEM_VAR_MAX_NUM
     \<and> table_wf (globalSystemVars st) \<and> table_wf (session_table st)"

lemma session_table_simps [simp]:
  "session_table (st \<lparr> sessionSystemVars := Some m \<rparr>) = m"
  "session_table (st \<lparr> baseSystemVars := b \<rparr>) = session_table st"
  "session_table (st \<lparr> globalSystemVars := g \<rparr>) = session_table st"
  "session_table (st \<lparr> globalLocked := l \<rparr>) = session_table st"
  "session_table (st \<lparr> mys_sqlMode := q \<rparr>) = session_table st"
  "session_table (st \<lparr> default_week_format := d \<rparr>) = session_table st"
  "session_table (st \<lparr> isStrictTransTablesOn := i \<rparr>) = session_table st"
  "session_table (st \<lparr> sv_timezone := z \<rparr>) = session_table st"
  "session_table (st \<lparr> sv_session := s \<rparr>) = session_table st"
  by (simp_all add: session_table_def)

lemma table_wf_upd: "table_wf m \<Longrightarrow> sv_wf w \<Longrightarrow> varName w = k \<Longrightarrow> table_wf (m(k \<mapsto> w))"
  by (simp add: table_wf_def)

lemma length_setSystemVarValue: "length (setSystemVarValue v) \<le> 511"
  by (simp add: setSystemVarValue_def SYSTEM_VAR_VALUE_MAX_LEN_def split: option.split)

lemma put_items_fit: "put_items k n xs buf = Some buf' \<Longrightarrow> length buf' = length buf \<and> (xs \<noteq> [] \<longrightarrow> (k + length xs - 1) * n < length buf)"
proof (induction xs arbitrary: k buf)
  case (Cons x xs)
  then obtain b1 where b1: "mem_write buf (k * n) (x @ [NUL]) = Some b1" "put_items (Suc k) n xs b1 = Some buf'"
    by (auto split: option.splits)
  then have "length b1 = length buf" "k * n < length buf" by (auto simp: mem_write_def split: if_splits)
  with Cons.IH [OF b1(2)] show ?case by (cases xs) auto
qed simp

lemma asign_rules_wf:
  assumes "asign_rules src = Inr (Some xs)"
  shows "rules_wf xs"
proof (cases src)
  case (Some x)
  with assms have "asignSystemVarResult x = Inr (Some xs)" by (simp add: asign_rules_def)
  then obtain items n where sp: "splitStr x (CHR ''|'') 64 (replicate 1024 NUL) = Some (items, n)"
      and xs: "xs = map (\<lambda>i. cstr (drop (i * 64) items)) [0..<n]" "list_all (\<lambda>x. length x < 63) xs"
    by (auto simp: asignSystemVarResult_def SYSTEM_VAR_RESULT_RULE_LEN_def SYSTEM_VAR_RESULT_RULE_NUM_def Let_def
        split: option.splits if_splits)
  from sp obtain ys where ys: "put_items 0 64 ys (replicate 1024 NUL) = Some items" "n = length ys"
    by (auto simp: splitStr_def Let_def)
  then have "n \<le> 16" using put_items_fit [OF ys(1)] by (cases ys) auto
  then show ?thesis using xs cstr_no_NUL by (auto simp: rules_wf_def list_all_iff)
qed (use assms in \<open>auto simp: asign_rules_def rules_wf_def\<close>)

lemma rules_valid_lengths:
  "rules_valid r sel sh \<Longrightarrow> length sel \<in> {0, length r} \<and> length sh \<in> {0, length r} \<and> (r \<noteq> [] \<longrightarrow> sel \<noteq> [] \<or> sh \<noteq> [])"
  unfolding rules_valid_def by (cases "r = []"; cases "sel = []"; cases "sh = []") auto

lemma asignSystemVar_wf:
  assumes "asignSystemVar dv conf kind g rw r sel sh name = Inr (Some w)" "kind \<le> 3" "length name \<le> 127"
  shows "sv_wf w"
proof -
  obtain a b c where r: "asign_rules r = Inr (Some a)" "asign_rules sel = Inr (Some b)" "asign_rules sh = Inr (Some c)" "rules_valid a b c"
      and w: "w = \<lparr> varName = name, varDefValue = setSystemVarValue dv, varConfValue = setSystemVarValue conf, sessionGlobalType = kind,
        sessionDefValueFromGlobal = g, isReadWrite = rw, sv_result = a, selectResult = b, showResult = c \<rparr>"
    using assms(1) by (auto simp: asignSystemVar_def split: sum.splits option.splits if_splits)
  show ?thesis
    unfolding sv_wf_def w using asign_rules_wf [OF r(1)] asign_rules_wf [OF r(2)] asign_rules_wf [OF r(3)] rules_valid_lengths [OF r(4)]
      length_setSystemVarValue assms(2,3) by simp
qed

lemma initBaseSystemVar_wf: "initBaseSystemVar row = Inr (Some w) \<Longrightarrow> sv_wf w"
proof -
  assume a: "initBaseSystemVar row = Inr (Some w)"
  then obtain kind where "row_type (column row 3) = Some kind" by (auto simp: initBaseSystemVar_def split: option.splits)
  moreover from this have "kind \<le> 3" by (auto simp: row_type_def split: option.splits if_splits)
  ultimately show ?thesis
    using a asignSystemVar_wf by (fastforce simp: initBaseSystemVar_def Let_def SYSTEM_VAR_NAME_MAX_LEN_def)
qed

lemma copySystemVar_wf: "sv_wf v \<Longrightarrow> sv_wf (copySystemVar v (sv_key n)) \<and> varName (copySystemVar v (sv_key n)) = sv_key n"
  using length_setSystemVarValue by (simp add: sv_wf_def copySystemVar_def sv_key_def SYSTEM_VAR_NAME_MAX_LEN_def)

section \<open>Every operation keeps the descriptions well-formed\<close>

text \<open>Operations that keep the invariant, whether they fail or not.\<close>

definition keeps_wf :: "'a svio \<Rightarrow> bool" where "keeps_wf m \<longleftrightarrow> sysvars_wf (snd m)"

lemma keeps_wf_Pair [simp]: "keeps_wf (r, st) \<longleftrightarrow> sysvars_wf st"
  by (simp add: keeps_wf_def)

lemma keeps_wf_svThen: "keeps_wf m \<Longrightarrow> (\<And>x st. m = (Inr x, st) \<Longrightarrow> sysvars_wf st \<Longrightarrow> keeps_wf (f x st)) \<Longrightarrow> keeps_wf (svThen m f)"
  by (cases m; cases "fst m") (auto simp: keeps_wf_def svThen_def)

lemma wf_upd [simp]:
  "sysvars_wf (st \<lparr> globalLocked := l \<rparr>) = sysvars_wf st" "sysvars_wf (st \<lparr> mys_sqlMode := q \<rparr>) = sysvars_wf st"
  "sysvars_wf (st \<lparr> default_week_format := d \<rparr>) = sysvars_wf st" "sysvars_wf (st \<lparr> isStrictTransTablesOn := i \<rparr>) = sysvars_wf st"
  "sysvars_wf (st \<lparr> sv_timezone := z \<rparr>) = sysvars_wf st" "sysvars_wf (st \<lparr> sv_session := s \<rparr>) = sysvars_wf st"
  "sysvars_wf (unlockGlobalSystemVars st) = sysvars_wf st" "keeps_wf (sv_error parts st) = sysvars_wf st"
  "keeps_wf (unknown_error n st) = sysvars_wf st" "keeps_wf (var_error n m st) = sysvars_wf st"
  by (simp_all add: sysvars_wf_def unlockGlobalSystemVars_def sv_error_def unknown_error_def var_error_def)

lemma lock_wf [simp]: "keeps_wf (lockGlobalSystemVars st) = sysvars_wf st"
  by (simp add: lockGlobalSystemVars_def)

lemma apply_wf: "sysvars_wf st \<Longrightarrow> keeps_wf (applySystemVarValue e n v st)"
  by (auto simp: applySystemVarValue_def applyTimeZone_def applySqlMode_def applyWeekFormat_def Let_def split: option.splits prod.splits)

lemma apply_tables:
  assumes "applySystemVarValue e n v st = (r, st')"
  shows "baseSystemVars st' = baseSystemVars st" "globalSystemVars st' = globalSystemVars st"
    "sessionSystemVars st' = sessionSystemVars st" "globalLocked st' = globalLocked st"
  using assms
  by (auto simp: applySystemVarValue_def applyTimeZone_def applySqlMode_def applyWeekFormat_def sv_error_def Let_def
      split: option.splits prod.splits if_splits)

lemma add2Global_wf: "sv_wf v \<Longrightarrow> sysvars_wf st \<Longrightarrow> sysvars_wf (add2GlobalSystemVars v st)"
  using copySystemVar_wf by (auto simp: add2GlobalSystemVars_def sysvars_wf_def Let_def intro: table_wf_upd split: option.splits)

lemma add2Global_base [simp]: "baseSystemVars (add2GlobalSystemVars v st) = baseSystemVars st"
  by (simp add: add2GlobalSystemVars_def Let_def split: option.splits)

lemma add2Session_wf:
  assumes "sv_wf v" "sysvars_wf st"
  shows "keeps_wf (add2SessionSystemVars e v st)"
proof -
  have "table_wf ((session_table st)(sv_key (varName v) \<mapsto> (case session_table st (sv_key (varName v)) of
      Some w \<Rightarrow> w | None \<Rightarrow> copySystemVar v (sv_key (varName v)))))"
    using assms copySystemVar_wf by (auto simp: sysvars_wf_def table_wf_def split: option.splits)
  then show ?thesis
    unfolding add2SessionSystemVars_def Let_def using assms(2) by (intro apply_wf) (simp add: sysvars_wf_def)
qed

lemma add2Session_base: "add2SessionSystemVars e v st = (r, st') \<Longrightarrow> baseSystemVars st' = baseSystemVars st"
  unfolding add2SessionSystemVars_def Let_def by (drule apply_tables(1)) simp

lemma add2Base_wf: "sv_wf v \<Longrightarrow> sysvars_wf st \<Longrightarrow> sysvars_wf (snd (add2BaseSystemVars v st))"
  by (simp add: add2BaseSystemVars_def sysvars_wf_def)

lemma initBase_wf: "sysvars_wf st \<Longrightarrow> keeps_wf (initBase rows st)"
proof (induction rows arbitrary: st)
  case (Cons row rows)
  then show ?case
    using initBaseSystemVar_wf [of row] add2Base_wf
    by (auto split: sum.splits option.splits prod.splits bool.splits) (metis snd_conv)+
qed simp

lemma fold_add2Global_wf: "list_all sv_wf vs \<Longrightarrow> sysvars_wf st \<Longrightarrow> sysvars_wf (fold add2GlobalSystemVars vs st)"
  by (induction vs arbitrary: st) (simp_all add: add2Global_wf)

lemma fold_add2Global_base [simp]: "baseSystemVars (fold add2GlobalSystemVars vs st) = baseSystemVars st"
  by (induction vs arbitrary: st) simp_all

lemma initGlobal_wf: "sysvars_wf st \<Longrightarrow> sysvars_wf (initGlobalSystemVars st)"
proof -
  assume a: "sysvars_wf st"
  have "sv_wf init_flag" by (simp add: sv_wf_def init_flag_def rules_wf_def)
  with a have "sysvars_wf (st \<lparr> globalSystemVars := (globalSystemVars st)(varName init_flag \<mapsto> init_flag) \<rparr>)"
    by (simp add: sysvars_wf_def table_wf_upd)
  with a show ?thesis
    by (auto simp: initGlobalSystemVars_def intro!: fold_add2Global_wf split: option.splits) (simp add: sysvars_wf_def)
qed

lemma addAllSession_wf: "list_all sv_wf vs \<Longrightarrow> sysvars_wf st \<Longrightarrow> keeps_wf (addAllSession e vs st)"
  by (induction vs arbitrary: st) (auto intro!: keeps_wf_svThen add2Session_wf)

lemma initSession_wf: "sysvars_wf st \<Longrightarrow> keeps_wf (initSessionSystemVars e st)"
  unfolding initSessionSystemVars_def by (rule addAllSession_wf) (simp_all add: sysvars_wf_def table_wf_def)

lemma initialised_wf: "sysvars_wf st \<Longrightarrow> keeps_wf (initialised e st)"
proof -
  assume "sysvars_wf st"
  then have "keeps_wf (initBaseSystemVars e st)"
    unfolding initBaseSystemVars_def by (intro initBase_wf) (simp add: sysvars_wf_def)
  then have "keeps_wf (initSystemVariables e st)"
    unfolding initSystemVariables_def by (intro keeps_wf_svThen initSession_wf initGlobal_wf) simp_all
  with \<open>sysvars_wf st\<close> show ?thesis by (simp add: initialised_def)
qed

text \<open>Pointers that may be followed.\<close>

fun valid_ref :: "sysvars \<Rightarrow> svref \<Rightarrow> bool" where
  "valid_ref st (BaseRef i) = (i < length (baseSystemVars st))"
| "valid_ref st (GlobalRef k) = (globalSystemVars st k \<noteq> None)"
| "valid_ref st (SessionRef k) = (session_table st k \<noteq> None)"

lemma deref_wf: "sysvars_wf st \<Longrightarrow> valid_ref st r \<Longrightarrow> sv_wf (deref st r)"
  by (cases r) (auto simp: sysvars_wf_def table_wf_def list_all_length)

lemma put_ref_wf: "sysvars_wf st \<Longrightarrow> valid_ref st r \<Longrightarrow> sv_wf w \<Longrightarrow> varName w = varName (deref st r) \<Longrightarrow> sysvars_wf (put_ref r w st)"
proof (cases r)
  case (BaseRef i)
  moreover assume "sysvars_wf st" "sv_wf w"
  ultimately show ?thesis using set_update_subset_insert [of "baseSystemVars st" i w] by (auto simp: sysvars_wf_def list_all_iff)
qed (auto simp: sysvars_wf_def table_wf_def)

lemma optLoop_length: "length x \<le> 511 \<Longrightarrow> length (snd (optLoop v i start x)) \<le> 511"
proof (induction v i start x rule: optLoop.induct)
  case (1 v i start x)
  show ?case
  proof (cases "replace_item v start i (until_comma v (i + 1)) x")
    case (Pair res x1)
    then have "length x1 \<le> 511"
      using "1.prems" by (auto simp: replace_item_def Let_def SYSTEM_VAR_VALUE_MAX_LEN_def split: option.splits if_splits)
    then show ?thesis
      using 1 Pair by (subst optLoop.simps) (auto simp: Let_def split: sum.splits)
  qed
qed

lemma stored_length: "length x \<le> 511 \<Longrightarrow> length (snd (setSystemVarValueByVarName n v x)) \<le> 511"
  using optLoop_length length_setSystemVarValue
  by (auto simp: setSystemVarValueByVarName_def setSystemVarValueForOptimizerSwitch_def split: option.splits)

lemma store_value_wf: "sysvars_wf st \<Longrightarrow> valid_ref st r \<Longrightarrow> keeps_wf (store_value n v r st)"
  using deref_wf [of st r] stored_length [of "varConfValue (deref st r)" n v]
  by (cases "setSystemVarValueByVarName n v (varConfValue (deref st r))")
    (auto simp: store_value_def sv_wf_def intro!: put_ref_wf)

lemma dynAdd_wf:
  assumes "sysvars_wf st"
  shows "keeps_wf (dynAddSystemVar e n st)"
    and "dynAddSystemVar e n st = (Inr (Some r), st') \<Longrightarrow> valid_ref st' r"
proof -
  have k: "keeps_wf (dynAddSystemVar e n st) \<and> (dynAddSystemVar e n st = (Inr (Some r), st') \<longrightarrow> valid_ref st' r)"
  proof (cases "\<exists>row v. find_row n (base_variables e) = Inr (Some row) \<and> initBaseSystemVar row = Inr (Some v)
      \<and> length (baseSystemVars st) < SYSTEM_VAR_MAX_NUM")
    case True
    then obtain row v where v: "find_row n (base_variables e) = Inr (Some row)" "initBaseSystemVar row = Inr (Some v)"
        "length (baseSystemVars st) < SYSTEM_VAR_MAX_NUM" by blast
    let ?st1 = "st \<lparr> baseSystemVars := baseSystemVars st @ [v] \<rparr>"
    have d: "dynAddSystemVar e n st = svThen (add2SessionSystemVars e v (add2GlobalSystemVars v ?st1))
        (\<lambda>_ st2. (Inr (Some (BaseRef (length (baseSystemVars st)))), st2))"
      using v by (simp add: dynAddSystemVar_def add2BaseSystemVars_def)
    have "sysvars_wf ?st1" using add2Base_wf [OF initBaseSystemVar_wf [OF v(2)] assms] v(3) by (simp add: add2BaseSystemVars_def)
    then have a: "keeps_wf (add2SessionSystemVars e v (add2GlobalSystemVars v ?st1))"
      using initBaseSystemVar_wf [OF v(2)] by (intro add2Session_wf add2Global_wf)
    moreover obtain x st2 where a2: "add2SessionSystemVars e v (add2GlobalSystemVars v ?st1) = (x, st2)" by fastforce
    moreover have "length (baseSystemVars st2) = Suc (length (baseSystemVars st))" using add2Session_base [OF a2] by simp
    ultimately show ?thesis unfolding d by (cases x) auto
  qed (use assms in \<open>auto simp: dynAddSystemVar_def add2BaseSystemVars_def split: sum.splits option.splits prod.splits bool.splits if_splits\<close>)
  then show "keeps_wf (dynAddSystemVar e n st)"
    and "dynAddSystemVar e n st = (Inr (Some r), st') \<Longrightarrow> valid_ref st' r" by blast+
qed

lemma find_wf:
  assumes "sysvars_wf st"
  shows "keeps_wf (findSession e n st)" "keeps_wf (findGlobal e n st)"
    and "findSession e n st = (Inr (Some r), st') \<Longrightarrow> valid_ref st' r"
    and "findGlobal e n st = (Inr (Some r), st') \<Longrightarrow> valid_ref st' r"
  using dynAdd_wf [OF assms] assms by (auto simp: findSession_def findGlobal_def split: option.splits)

lemma put_ref_valid: "valid_ref st r \<Longrightarrow> valid_ref (put_ref q w st) r"
  by (cases r; cases q) auto

lemma getDefault_wf: "sysvars_wf st \<Longrightarrow> keeps_wf (getDefaultValue n b st)"
  by (auto simp: getDefaultValue_def Let_def intro!: keeps_wf_svThen split: option.splits)

lemma rectify_wf: "sysvars_wf st \<Longrightarrow> keeps_wf (rectifySystemVarValue e n v b st)"
  by (auto simp: rectifySystemVarValue_def Let_def intro!: keeps_wf_svThen getDefault_wf split: option.splits)

lemma setSessionVar_wf:
  assumes "sysvars_wf st"
  shows "keeps_wf (setSessionVar e n v st)"
proof -
  have "keeps_wf (setSessionFound e n v r st1)" if "valid_ref st1 r" "sysvars_wf st1" for r st1
    using keeps_wf_svThen [OF store_value_wf [OF that(2,1), of n v], of "\<lambda>_. applySystemVarValue e n v"] that(2)
    by (auto simp: setSessionFound_def apply_wf)
  then show ?thesis
    unfolding setSessionVar_def using find_wf(1,3) [OF assms]
    by (auto intro!: keeps_wf_svThen split: option.splits)
qed

lemma shareWithSession_wf: "sysvars_wf st \<Longrightarrow> keeps_wf (shareWithSession n v r st)"
  by (auto simp: shareWithSession_def intro!: store_value_wf split: option.splits)

lemma setGlobalVar_wf:
  assumes "sysvars_wf st"
  shows "keeps_wf (setGlobalVar e n v st)"
proof -
  have "keeps_wf (setGlobalFound n v r st1)" if "valid_ref st1 r" "sysvars_wf st1" for r st1
    using keeps_wf_svThen [OF store_value_wf [OF that(2,1), of n v], of "\<lambda>_ st1. shareWithSession n v r (unlockGlobalSystemVars st1)"] that(2)
    by (auto simp: setGlobalFound_def shareWithSession_wf)
  then show ?thesis
    unfolding setGlobalVar_def using assms find_wf(2,4)
    by (auto intro!: keeps_wf_svThen split: option.splits)
qed

lemma set_wf: "sysvars_wf st \<Longrightarrow> keeps_wf (setSystemVariableValue e name v b st)"
  unfolding setSystemVariableValue_def
  by (auto simp: Let_def intro!: keeps_wf_svThen initialised_wf rectify_wf setSessionVar_wf setGlobalVar_wf split: option.splits)

lemma get_wf: "sysvars_wf st \<Longrightarrow> keeps_wf (getSystemVariableValue e b name c st)"
  unfolding getSystemVariableValue_def getSystemVariableValueImpl_def
  by (auto simp: Let_def intro!: keeps_wf_svThen initialised_wf find_wf split: option.splits)

text \<open>The server starts with empty tables.  Then variables are read and set, while \<open>base_variables\<close> may change,
  and a new connection has no table of its own but finds the shared one as it was left.\<close>

definition fresh_sysvars :: "session \<Rightarrow> sysvars \<Rightarrow> bool" where
  "fresh_sysvars s st \<longleftrightarrow> baseSystemVars st = [] \<and> sessionSystemVars st = None \<and> globalSystemVars st = Map.empty
     \<and> \<not> globalLocked st \<and> sv_session st = s"

inductive sv_reachable :: "session \<Rightarrow> sysvars \<Rightarrow> bool" where
  sv_start: "fresh_sysvars s st \<Longrightarrow> sv_reachable s st"
| sv_set: "sv_reachable s st \<Longrightarrow> setSystemVariableValue e name v b st = (r, st') \<Longrightarrow> sv_reachable s st'"
| sv_get: "sv_reachable s st \<Longrightarrow> getSystemVariableValue e c name b st = (q, st') \<Longrightarrow> sv_reachable s st'"
| sv_is: "sv_reachable s st \<Longrightarrow> isSystemVariable e n st = (p, st') \<Longrightarrow> sv_reachable s st'"
| sv_reconnect: "sv_reachable s st \<Longrightarrow> sv_reachable s (st \<lparr> baseSystemVars := [], sessionSystemVars := None \<rparr>)"

lemma reachable_wf: "sv_reachable s st \<Longrightarrow> sysvars_wf st"
proof (induction rule: sv_reachable.induct)
  case (sv_set s st e name v b r st')
  then show ?case using set_wf [of st e name v b] by (simp add: keeps_wf_def)
next
  case (sv_get s st e c name b q st')
  then show ?case using get_wf [of st e c name b] by (simp add: keeps_wf_def)
next
  case (sv_is s st e n p st')
  then have "keeps_wf (isSystemVariable e n st)"
    unfolding isSystemVariable_def by (intro keeps_wf_svThen initialised_wf) simp_all
  with sv_is show ?case by (simp add: keeps_wf_def)
qed (auto simp: fresh_sysvars_def sysvars_wf_def table_wf_def session_table_def)

lemma ruled_length:
  assumes "sv_wf w" "rules_wf texts" "ruled e w texts = Some x"
  shows "length x \<le> 511"
proof (cases "texts = []")
  case False
  with assms(3) obtain i where "i < length texts" "x = texts ! i"
    by (auto simp: ruled_def find_Some_iff)
  with assms(2) have "length x < 63" by (simp add: rules_wf_def list_all_length)
  then show ?thesis by simp
qed (use assms in \<open>simp add: ruled_def sv_wf_def\<close>)

lemma getConfValue_length: "sv_wf w \<Longrightarrow> getConfValue e w c = Some x \<Longrightarrow> length x \<le> 511"
  using ruled_length [of w "if c then selectResult w else showResult w" e x] by (simp add: getConfValue_def sv_wf_def)

lemma svThen_Inr_iff: "svThen m f = (Inr y, st') \<longleftrightarrow> (\<exists>x st1. m = (Inr x, st1) \<and> f x st1 = (Inr y, st'))"
  by (cases m; cases "fst m") (auto simp: svThen_def)

lemma get_length:
  assumes "sysvars_wf st" "getSystemVariableValue e c name b st = (Inr (Some x), st')"
  shows "length x \<le> 511"
proof -
  obtain st1 nm where i: "initialised e st = (Inr (), st1)" "name = Some nm"
      and g: "getSystemVariableValueImpl e name b c st = (Inr (0, Some x), st')"
    using assms(2) by (auto simp: getSystemVariableValue_def svThen_Inr_iff getSystemVariableValueImpl_def unknown_error_def var_error_def
        sv_error_def Let_def split: if_splits option.splits)
  have w1: "sysvars_wf st1" using initialised_wf [OF assms(1), of e] i(1) by simp
  let ?n = "lowerSystemVarName nm"
  show ?thesis
  proof (cases b)
    case True
    then obtain r st2 where "findSession e ?n st1 = (Inr (Some r), st2)" "getConfValue e (deref st2 r) c = Some x"
      using g i by (auto simp: getSystemVariableValueImpl_def svThen_Inr_iff Let_def split: option.splits)
    then show ?thesis using find_wf(1,3) [OF w1, of e ?n] deref_wf getConfValue_length by (metis keeps_wf_Pair)
  next
    case False
    then obtain st2 found st3 where f: "lockGlobalSystemVars st1 = (Inr (), st2)" "findGlobal e ?n st2 = (Inr found, st3)"
        "getGlobalFound e c found st3 = (0, Some x)"
      using g i by (auto simp: getSystemVariableValueImpl_def svThen_Inr_iff Let_def split: option.splits)
    then have w2: "sysvars_wf st2" using lock_wf [of st1] w1 by simp
    obtain r where "found = Some r" "getConfValue e (deref st3 r) c = Some x"
      using f(3) by (auto simp: getGlobalFound_def split: option.splits if_splits)
    then show ?thesis using find_wf(2,4) [OF w2, of e ?n] f(2) deref_wf getConfValue_length by (metis keeps_wf_Pair)
  qed
qed

text \<open>C10. The descriptions of variables are well-formed in every reachable state, whatever the table
  \<open>base_variables\<close> holds, whatever is set and whichever operations fail: values are shorter than their
  arrays, there are at most 16 rules of less than 63 bytes, a variable with rules has a text for each rule
  in one column and in the other for each rule or none, entries of the tables carry the name they are
  found under, and there are at most 1024 descriptions.  So every value that is read fits in its array.\<close>

theorem system_variables_typed:
  assumes "sv_reachable s st"
  shows "sysvars_wf st \<and> (\<forall>e c name b x st'. getSystemVariableValue e c name b st = (Inr (Some x), st') \<longrightarrow> length x \<le> 511)"
  using reachable_wf [OF assms] get_length by blast

section \<open>The lock of the shared table\<close>

lemma unlocked_id: "\<not> globalLocked st \<Longrightarrow> st \<lparr> globalLocked := False \<rparr> = st"
  by simp

lemma initialised_id: "sessionSystemVars st \<noteq> None \<Longrightarrow> initialised e st = (Inr (), st)"
  by (auto simp: initialised_def)

lemma getDefault_state: "\<not> globalLocked st \<Longrightarrow> snd (getDefaultValue n b st) = st"
  unfolding getDefaultValue_def Let_def
  by (simp add: lockGlobalSystemVars_def unlockGlobalSystemVars_def sv_error_def split: option.split)

lemma rectify_state:
  assumes "\<not> globalLocked st"
  shows "snd (rectifySystemVarValue e n v b st) = st"
proof (cases v)
  case (Some x)
  obtain d where d: "getDefaultValue n b st = (d, st)"
    using getDefault_state [OF assms, of n b] by (cases "getDefaultValue n b st") simp
  have "snd (svThen (d, st) (\<lambda>d st1. (Inr (Some d), st1))) = st" by (cases d) simp_all
  then show ?thesis
    unfolding rectifySystemVarValue_def Some option.case d Let_def by (simp add: sv_error_def split: option.split)
qed (simp add: rectifySystemVarValue_def)

lemma store_session_unlocked: "globalLocked (snd (store_value n v r st)) = globalLocked st"
  by (cases r) (auto simp: store_value_def split: prod.splits)

lemma share_unlocked: "globalLocked (snd (shareWithSession n v r st)) = globalLocked st"
  by (simp add: shareWithSession_def store_session_unlocked sv_error_def split: option.split)

definition store_fails :: "sv_env \<Rightarrow> bytes \<Rightarrow> bytes option \<Rightarrow> SystemVar \<Rightarrow> sysvars \<Rightarrow> bool" where
  "store_fails e n v w st \<longleftrightarrow> sessionGlobalType w \<in> {0, 1} \<and> isReadWrite w
     \<and> (case fst (rectifySystemVarValue e n v False st) of Inl _ \<Rightarrow> False
        | Inr v1 \<Rightarrow> isl (fst (setSystemVarValueByVarName n v1 (varConfValue w))))"

lemma setGlobalFound_lock:
  assumes "globalLocked st" "deref st r = w"
  shows "globalLocked (snd (setGlobalFound n v r st)) \<longleftrightarrow>
    sessionGlobalType w \<in> {0, 1} \<and> isReadWrite w \<and> isl (fst (setSystemVarValueByVarName n v (varConfValue w)))"
proof -
  obtain res x where x: "setSystemVarValueByVarName n v (varConfValue w) = (res, x)" by fastforce
  have "globalLocked (put_ref r w' st)" for w' using assms(1) by (cases r) simp_all
  then show ?thesis
    using assms x share_unlocked by (cases res) (auto simp: setGlobalFound_def store_value_def var_error_def sv_error_def unlockGlobalSystemVars_def)
qed

lemma set_global_lock:
  assumes "sessionSystemVars st \<noteq> None" "\<not> globalLocked st" "globalSystemVars st (sv_key n) = Some w" "lowerSystemVarName name = n"
  shows "globalLocked (snd (setSystemVariableValue e (Some name) v False st)) \<longleftrightarrow> store_fails e n v w st"
proof (cases "rectifySystemVarValue e n v False st")
  case (Pair r st1)
  then have st1: "st1 = st" using rectify_state [OF assms(2), of e n v False] by simp
  have "setSystemVariableValue e (Some name) v False st = svThen (r, st) (\<lambda>v1. setGlobalVar e n v1)"
    using initialised_id [OF assms(1)] assms(4) Pair st1 by (simp add: setSystemVariableValue_def Let_def)
  moreover have "setGlobalVar e n v1 st = setGlobalFound n v1 (GlobalRef (sv_key n)) (st \<lparr> globalLocked := True \<rparr>)" for v1
    using assms(2,3) by (simp add: setGlobalVar_def lockGlobalSystemVars_def findGlobal_def)
  ultimately show ?thesis
    using Pair assms(2,3) setGlobalFound_lock [of "st \<lparr> globalLocked := True \<rparr>" "GlobalRef (sv_key n)" w n]
    by (cases r) (simp_all add: store_fails_def)
qed

lemma set_global_session:
  assumes "sessionSystemVars st \<noteq> None" "\<not> globalLocked st" "globalSystemVars st (sv_key n) = Some w" "lowerSystemVarName name = n"
    "store_fails e n v w st"
  shows "\<exists>f st'. setSystemVariableValue e (Some name) v False st = (Inl f, st') \<and> sessionSystemVars st' \<noteq> None"
proof -
  obtain v1 where v1: "rectifySystemVarValue e n v False st = (Inr v1, st)"
    using assms(5) rectify_state [OF assms(2), of e n v False]
    by (cases "rectifySystemVarValue e n v False st") (auto simp: store_fails_def split: sum.splits)
  obtain f x where f: "setSystemVarValueByVarName n v1 (varConfValue w) = (Inl f, x)" "sessionGlobalType w \<in> {0, 1}" "isReadWrite w"
    using assms(5) v1 by (cases "setSystemVarValueByVarName n v1 (varConfValue w)") (auto simp: store_fails_def isl_def)
  then show ?thesis
    using assms(1-4) v1 initialised_id [OF assms(1)] by (auto simp: setSystemVariableValue_def Let_def setGlobalVar_def lockGlobalSystemVars_def
        findGlobal_def setGlobalFound_def store_value_def)
qed


section \<open>Setting and reading\<close>

lemma strncaseeq_lower: "NUL \<notin> set x \<Longrightarrow> length x = length y \<Longrightarrow> strncaseeq x y (length x) \<longleftrightarrow> map c_tolower x = map c_tolower y"
proof (induction x arbitrary: y)
  case (Cons a x)
  then obtain b z where "y = b # z" by (cases y) auto
  with Cons show ?case by auto
qed simp

lemma same_text_lower: "NUL \<notin> set x \<Longrightarrow> same_text x y \<longleftrightarrow> map c_tolower x = map c_tolower y"
  using strncaseeq_lower [of x y] map_eq_imp_length_eq [of c_tolower x c_tolower y] unfolding same_text_def by blast

text \<open>The value that is stored, and the text that is shown for it.\<close>

definition accepted_rule :: "sv_env \<Rightarrow> SystemVar \<Rightarrow> bytes \<Rightarrow> nat option" where
  "accepted_rule e w x = find (\<lambda>i. rule_value e w x i \<noteq> None) [0..<length (sv_result w)]"

definition rectified :: "sv_env \<Rightarrow> SystemVar \<Rightarrow> bytes \<Rightarrow> bytes option" where
  "rectified e w x = (if sv_result w = [] then Some x else Option.bind (accepted_rule e w x) (rule_value e w x))"

definition shown :: "sv_env \<Rightarrow> SystemVar \<Rightarrow> bytes \<Rightarrow> bool \<Rightarrow> bytes option" where
  "shown e w x forSelect =
     (let texts = (if forSelect then selectResult w else showResult w) in
      if texts = [] then map_option (take 511) (rectified e w x)
      else map_option (\<lambda>i. texts ! i) (accepted_rule e w x))"

definition ordinary :: "bytes \<Rightarrow> bytes \<Rightarrow> bool" where
  "ordinary n x \<longleftrightarrow> \<not> strncaseeq n ''optimizer_switch'' 16 \<and> \<not> strncaseeq n ''query_cache_size'' 16
     \<and> \<not> strneq x ''halo_mysql_system_var_default'' 29 \<and> NUL \<notin> set x"

lemma rectify_known:
  assumes "ordinary n x" "session_table st (sv_key n) = Some w" "rectified e w x = Some v"
  shows "rectifySystemVarValue e n (Some x) b st = (Inr (Some v), st)"
  using assms by (auto simp: rectifySystemVarValue_def ordinary_def rectified_def accepted_rule_def bind_eq_Some_conv split: option.splits if_splits)

lemma apply_fst: "fst (applySystemVarValue e n v st) = fst (applySystemVarValue e n v st2)"
  by (auto simp: applySystemVarValue_def applyTimeZone_def applySqlMode_def applyWeekFormat_def sv_error_def Let_def
      split: option.splits prod.splits)

lemma set_session_known:
  assumes "sessionSystemVars st \<noteq> None" "session_table st (sv_key n) = Some w" "lowerSystemVarName name = n"
    and "sessionGlobalType w \<in> {0, 2, 3}" "isReadWrite w" "ordinary n x" "rectified e w x = Some v"
    and "setSystemVariableValue e (Some name) (Some x) True st = (r, st')"
  shows "r = fst (applySystemVarValue e n (Some v) st)" "sessionSystemVars st' \<noteq> None" "globalSystemVars st' = globalSystemVars st"
    "session_table st' = (session_table st)(sv_key n \<mapsto> w \<lparr> varConfValue := take 511 v \<rparr>)"
proof -
  let ?w = "w \<lparr> varConfValue := take 511 v \<rparr>" and ?k = "sv_key n"
  let ?st1 = "put_ref (SessionRef ?k) ?w st"
  have "store_value n (Some v) (SessionRef ?k) st = (Inr (), ?st1)"
    using assms(2,6) by (simp add: store_value_def setSystemVarValueByVarName_def setSystemVarValue_def ordinary_def SYSTEM_VAR_VALUE_MAX_LEN_def)
  then have a: "applySystemVarValue e n (Some v) ?st1 = (r, st')"
    using assms(2,3,4,5,8) initialised_id [OF assms(1)] rectify_known [OF assms(6,2,7)]
    by (simp add: setSystemVariableValue_def Let_def setSessionVar_def findSession_def setSessionFound_def)
  show "r = fst (applySystemVarValue e n (Some v) st)" using apply_fst [of e n "Some v" ?st1 st] a by simp
  show "sessionSystemVars st' \<noteq> None" "globalSystemVars st' = globalSystemVars st"
    using apply_tables(2,3) [OF a] by simp_all
  show "session_table st' = (session_table st)(?k \<mapsto> ?w)"
    using apply_tables(3) [OF a] by (simp add: session_table_def split: option.split)
qed

lemma get_session_known:
  assumes "sessionSystemVars st \<noteq> None" "session_table st (sv_key n) = Some w" "lowerSystemVarName name = n"
  shows "getSystemVariableValue e c (Some name) True st = (Inr (getConfValue e w c), st)"
  using assms initialised_id [OF assms(1)]
  by (simp add: getSystemVariableValue_def getSystemVariableValueImpl_def Let_def findSession_def)

lemma rule_value_lower:
  "NUL \<notin> set x \<Longrightarrow> rule_value e w x i = Some v \<Longrightarrow> map c_tolower v = map c_tolower (sv_result w ! i)"
  by (auto simp: rule_value_def same_text_lower split: if_splits)

lemma find_unique:
  assumes "i < n" "P i" "\<And>j. j < n \<Longrightarrow> P j \<Longrightarrow> j = i"
  shows "find P [0..<n] = Some i"
proof -
  have "\<not> P j" if "j < i" for j using assms(1) assms(3) [of j] that by (cases "P j") simp_all
  then show ?thesis unfolding find_Some_iff using assms(1,2) by (intro exI [of _ i]) simp
qed

lemma shown_conf:
  assumes "sv_wf w" "distinct (map (map c_tolower) (sv_result w))" "NUL \<notin> set x" "rectified e w x = Some v"
  shows "getConfValue e' (w \<lparr> varConfValue := take 511 v \<rparr>) c = shown e w x c"
proof -
  define texts where "texts = (if c then selectResult w else showResult w)"
  have texts: "length texts \<in> {0, length (sv_result w)}" using assms(1) by (simp add: sv_wf_def texts_def)
  show ?thesis
  proof (cases "texts = []")
    case True
    then show ?thesis using assms(4) by (cases c) (simp_all add: getConfValue_def ruled_def shown_def texts_def)
  next
    case False
    with texts have len: "length texts = length (sv_result w)" "sv_result w \<noteq> []" by auto
    then obtain i where i: "accepted_rule e w x = Some i" "rule_value e w x i = Some v"
      using assms(4) by (auto simp: rectified_def bind_eq_Some_conv)
    have il: "i < length (sv_result w)" using i(1) unfolding accepted_rule_def find_Some_iff by auto
    then have r: "length (sv_result w ! i) < 63" "NUL \<notin> set (sv_result w ! i)"
      using assms(1) unfolding sv_wf_def rules_wf_def list_all_length by blast+
    have low: "map c_tolower v = map c_tolower (sv_result w ! i)" using rule_value_lower [OF assms(3) i(2)] .
    then have v: "take 511 v = v" using r(1) map_eq_imp_length_eq [OF low] by simp
    have nul: "NUL \<notin> set v" using i(2) assms(3) r(2) by (auto simp: rule_value_def split: if_splits)
    have "find (\<lambda>j. same_text v (cell e' (sv_result w) j)) [0..<length (sv_result w)] = Some i"
    proof (rule find_unique [OF il])
      show "same_text v (cell e' (sv_result w) i)" using low il nul by (simp add: same_text_lower cell_def)
      show "j = i" if "j < length (sv_result w)" "same_text v (cell e' (sv_result w) j)" for j
        using that low il nul nth_eq_iff_index_eq [OF assms(2), of j i] by (simp add: same_text_lower cell_def)
    qed
    then show ?thesis using False i(1) len(1) v by (cases c) (simp_all add: getConfValue_def ruled_def shown_def texts_def)
  qed
qed


section \<open>Witnesses\<close>

text \<open>A table with two variables.\<close>

definition sample_rows :: "bytes option list list" where
  "sample_rows =
     [[Some ''Default_Week_Format'', Some ''0'', Some ''0'', Some ''0'', Some ''1'', Some ''1'', None, None, None],
      [Some ''optimizer_switch'', Some ''mrr=on,bka=off'', Some ''mrr=on,bka=off'', Some ''0'', Some ''1'', Some ''1'', None, None, None]]"

definition sample_sv_env :: sv_env where
  "sample_sv_env = \<lparr> base_variables = sample_rows, os_timezone = ''0'', timezone_error = (\<lambda>_. None), unwritten = [] \<rparr>"

definition sample_start :: sysvars where
  "sample_start = \<lparr> baseSystemVars = [], globalSystemVars = Map.empty, globalLocked = False, sessionSystemVars = None, mys_sqlMode = 0,
     default_week_format = 0, isStrictTransTablesOn = False, sv_timezone = [], sv_session = init_session 0 (initNetTransceiver [] []) \<rparr>"

definition week_var :: SystemVar where
  "week_var = \<lparr> varName = ''default_week_format'', varDefValue = ''0'', varConfValue = ''0'', sessionGlobalType = 0,
     sessionDefValueFromGlobal = True, isReadWrite = True, sv_result = [], selectResult = [], showResult = [] \<rparr>"

definition switch_var :: SystemVar where
  "switch_var = \<lparr> varName = ''optimizer_switch'', varDefValue = ''mrr=on,bka=off'', varConfValue = ''mrr=on,bka=off'', sessionGlobalType = 0,
     sessionDefValueFromGlobal = True, isReadWrite = True, sv_result = [], selectResult = [], showResult = [] \<rparr>"

lemma sample_base: "initBaseSystemVar (sample_rows ! 0) = Inr (Some week_var)" "initBaseSystemVar (sample_rows ! 1) = Inr (Some switch_var)"
  by code_simp+

lemma sample_names:
  "\<not> strncaseeq ''default_week_format'' ''autocommit'' 10" "\<not> strncaseeq ''default_week_format'' ''time_zone'' 9"
  "\<not> strncaseeq ''default_week_format'' ''sql_mode'' 8" "strncaseeq ''default_week_format'' ''default_week_format'' 19"
  "\<not> strncaseeq ''optimizer_switch'' ''autocommit'' 10" "\<not> strncaseeq ''optimizer_switch'' ''time_zone'' 9"
  "\<not> strncaseeq ''optimizer_switch'' ''sql_mode'' 8" "\<not> strncaseeq ''optimizer_switch'' ''default_week_format'' 19"
  "sv_key ''default_week_format'' = ''default_week_format''" "sv_key ''optimizer_switch'' = ''optimizer_switch''"
  by code_simp+

lemma sample_apply:
  "applySystemVarValue e ''optimizer_switch'' v st = (Inr (), st)"
  "applySystemVarValue e ''default_week_format'' (Some ''0'') st = (Inr (), st \<lparr> default_week_format := 0 \<rparr>)"
  "fst (applySystemVarValue e ''default_week_format'' (Some ''9'') st) = Inl (PgError ''incorrect default_week_format value: 9'')"
proof -
  have "strtol ''0'' = (0, False, [])" "strtol ''9'' = (9, False, [])" by code_simp+
  moreover have "wrap_signed 32 0 = 0" "wrap_signed 32 9 = 9" by (simp_all add: wrap_signed_def)
  ultimately show "applySystemVarValue e ''default_week_format'' (Some ''0'') st = (Inr (), st \<lparr> default_week_format := 0 \<rparr>)"
    "fst (applySystemVarValue e ''default_week_format'' (Some ''9'') st) = Inl (PgError ''incorrect default_week_format value: 9'')"
    by (simp_all add: applySystemVarValue_def sample_names applyWeekFormat_def sv_error_def)
qed (simp add: applySystemVarValue_def sample_names)

lemma sample_copy: "copySystemVar week_var ''default_week_format'' = week_var" "copySystemVar switch_var ''optimizer_switch'' = switch_var"
  by code_simp+

definition sample_tables :: "bytes \<rightharpoonup> SystemVar" where
  "sample_tables = [''default_week_format'' \<mapsto> week_var, ''optimizer_switch'' \<mapsto> switch_var]"

definition sample_ready :: sysvars where
  "sample_ready = sample_start \<lparr> baseSystemVars := [week_var, switch_var],
     globalSystemVars := [''global_system_vars_init_flag'' \<mapsto> init_flag, ''default_week_format'' \<mapsto> week_var, ''optimizer_switch'' \<mapsto> switch_var],
     sessionSystemVars := Some sample_tables \<rparr>"

lemma sample_initialised: "initialised sample_sv_env sample_start = (Inr (), sample_ready)"
proof -
  let ?b = "sample_start \<lparr> baseSystemVars := [week_var, switch_var] \<rparr>"
  have rows: "sample_rows = [sample_rows ! 0, sample_rows ! 1]" by (simp add: sample_rows_def)
  have "initBase [sample_rows ! 0, sample_rows ! 1] sample_start = (Inr (), ?b)"
    by (simp only: initBase.simps sample_base sum.case option.case add2BaseSystemVars_def)
      (simp add: sample_start_def SYSTEM_VAR_MAX_NUM_def)
  then have 1: "initBaseSystemVars sample_sv_env sample_start = (Inr (), ?b)"
    using arg_cong [OF rows, of "\<lambda>x. initBase x sample_start"]
    by (simp only: initBaseSystemVars_def sample_sv_env_def sv_env.simps) (simp add: sample_start_def)
  have names: "varName week_var = ''default_week_format''" "varName switch_var = ''optimizer_switch''"
      "varConfValue week_var = ''0''" "varConfValue switch_var = ''mrr=on,bka=off''" "varName init_flag = ''global_system_vars_init_flag''"
    by (simp_all add: week_var_def switch_var_def init_flag_def)
  let ?g = "?b \<lparr> globalLocked := True, globalSystemVars := globalSystemVars sample_ready \<rparr>"
  have 2: "initGlobalSystemVars (?b \<lparr> globalLocked := True \<rparr>) = ?g"
    by (simp add: initGlobalSystemVars_def add2GlobalSystemVars_def Let_def names sample_names sample_copy sample_ready_def sample_start_def)
  have 3: "initSessionSystemVars sample_sv_env ?g = (Inr (), ?g \<lparr> sessionSystemVars := Some sample_tables, default_week_format := 0 \<rparr>)"
    by (simp add: initSessionSystemVars_def add2SessionSystemVars_def Let_def names sample_names sample_copy sample_apply sample_tables_def)
  show ?thesis
    using 1 2 3 by (simp add: initialised_def initSystemVariables_def lockGlobalSystemVars_def unlockGlobalSystemVars_def)
      (simp add: sample_start_def sample_ready_def)
qed

lemma sample_reachable: "sv_reachable (sv_session sample_start) sample_ready"
proof -
  have "fresh_sysvars (sv_session sample_start) sample_start" by (simp add: fresh_sysvars_def sample_start_def)
  then show ?thesis
    using sv_is [OF sv_start, of _ _ sample_sv_env "''x''"] by (auto simp: isSystemVariable_def sample_initialised)
qed

lemma sample_ready_facts:
  "sessionSystemVars sample_ready \<noteq> None" "\<not> globalLocked sample_ready" "session_table sample_ready = sample_tables"
  "globalSystemVars sample_ready ''optimizer_switch'' = Some switch_var"
  by (simp_all add: sample_ready_def) (simp add: sample_start_def)

theorem system_variables_typed_witness:
  "sysvars_wf sample_ready \<and> sessionSystemVars sample_ready \<noteq> None"
  using system_variables_typed [OF sample_reachable] sample_ready_facts by simp



end
