(* ===== verification/Spec2Isabelle.thy ===== *)
theory Spec2Isabelle
  imports NetTransceiver LenEnc ErrorConvertor AdapterState Packets DataTypes PreStmt Rectify TableMaint Encode UserVar
    Session SessionTrx SessionLive MainLoop Sha1 Auth Logon SystemVar
begin

text \<open>
  A model of the MySQL adapter of openHalo.  The program is a PostgreSQL server that also speaks the
  MySQL protocol: the adapter (\<open>src/backend/adapter/mysql\<close>) reads MySQL packets, turns each command into
  SQL text for the server or answers it itself, and writes the server's results as MySQL packets.  Paths
  below are relative to the directory \<open>src\<close> of the repository.

  \<^bold>\<open>Conventions.\<close>  Bytes and C strings are \<open>char list\<close>; the contents of a fixed buffer are a list of
  its size, and every store or load goes through \<open>mem_write\<close> and \<open>mem_read\<close>, so that an access outside
  the buffer is the fault \<open>OutOfBounds\<close>.  A C function that changes state is a function on an explicit
  state, a record, with a result of type \<open>(fault + 'a) \<times> state\<close>.  \<open>fault\<close> has a constructor for
  every \<open>elog(ERROR)\<close> and \<open>proc_exit\<close> of the code and for what C leaves undefined; \<open>andThen\<close> is the
  sequence of two such functions.  Values are \<open>nat\<close> or \<open>int\<close>, with the width of the C type written out
  where the code depends on it (lengths of 1, 2, 3 and 8 bytes, the sequence number, the error number).

  \<^bold>\<open>Theories.\<close>
  \<^item> \<open>MysPrelude\<close>: buffers, little-endian numbers, C strings and their comparisons, decimal texts.
  \<^item> \<open>NetTransceiver\<close>: \<open>netTransceiver.c\<close> and the \<open>StringInfo\<close> it uses (\<open>common/stringinfo.c\<close>).  A
    socket is a script of what each \<open>read\<close> and \<open>write\<close> does (data, partial writes, interruptions, end,
    errors), so that every theorem holds for all chunkings.  The locale \<open>packet_sink\<close> is the contract of
    the three ways to write a packet, interpreted on each.  Lemmas: framing and reading are inverse,
    packets reach the wire in order, nothing is stored outside the buffers, and the exceptions to that.
  \<^item> \<open>LenEnc\<close>: the length-encoded integers and strings and the binary dates of \<open>adapter.c\<close>, with round
    trips.  \<open>ErrorConvertor\<close>: \<open>errorConvertor.c\<close>.
  \<^item> \<open>AdapterState\<close>: the globals of \<open>adapter.c\<close> as the record \<open>session\<close>.  \<open>Packets\<close>: OK, EOF, error and
    column packets and the canned result sets; a client's decoder recovers what the session holds.
  \<^item> \<open>DataTypes\<close>: types of columns and their cache.  \<open>PreStmt\<close>: prepared statements, whose packets are
    rewritten in place; the rewriting is refined to a pure decoder where it is right, and shown wrong
    where it is not.  \<open>Rectify\<close>: the cleaning of a statement.  \<open>TableMaint\<close>: CHECKSUM TABLE and friends.
  \<^item> \<open>Encode\<close>: the encodings of \<open>utils/adt/encode.c\<close> behind one contract, the locale \<open>codec\<close>, interpreted
    on hex, base64 and escape.  \<open>UserVar\<close>: user variables (\<open>commands/mysql/mys_uservar.c\<close> and
    \<open>utils/ddsm/mysm/user_var.c\<close>), a store that satisfies the contract \<open>variable_store\<close> when every
    conversion succeeds, and what happens when one does not.
  \<^item> \<open>Session\<close>: \<open>readCommand\<close>, \<open>processCommand\<close>, \<open>addAdditionalSQL\<close> and \<open>endCommand\<close> of \<open>adapter.c\<close> and
    the loop of \<open>PostgresMain\<close>, which compose all of the above.  \<open>SessionTrx\<close>: the transaction state over
    every history of commands, completions and errors.  \<open>SessionLive\<close>: commands the adapter answers are
    answered.  \<open>MainLoop\<close>: the loop over the bytes of a connection, from framing to answers.
  \<^item> \<open>Sha1\<close>: \<open>common/sha1.c\<close>, equal to the definition of the standard for every split of a message.
    \<open>Auth\<close>: the handshake, the client's response and \<open>authenticate\<close> (\<open>userLogonAuth.c\<close>,
    \<open>pwdEncryptDecrypt.c\<close>, \<open>adapter.c\<close>); which responses pass the check of a native password.
    \<open>Logon\<close>: the log-on over the wire, who is let in, and the change of plugin.
  \<^item> \<open>SystemVar\<close>: \<open>systemVar.c\<close>, the descriptions of system variables, the shared table with its lock and
    the table of the session.  Descriptions stay well-formed, a value that was set is read back, and the
    one way the lock is left held.

  \<^bold>\<open>Loops and fuel.\<close>  Loops over buffers, scripts and texts are total functions with a measure.  A
  script is finite; after its last event a read reports the end of the connection and a write succeeds.
  \<open>mainLoop\<close> takes the number of iterations: the theorems give the number after which it ends, or show
  that no number is enough.  Arrays keep the sizes of the source (1024 bytes for a command, 5000 prepared
  statements, 256 parameters); no bound is made smaller for the proofs.

  \<^bold>\<open>Parameters.\<close>  What the server does with a forwarded statement (\<open>server\<close>: the completions it reports
  and its error), the texts and base types of values (\<open>catalog\<close>), the version, database name and limits
  (\<open>env\<close>), the printing of floating-point numbers (\<open>show_double\<close>); for the log-on the entries of
  \<open>pg_hba.conf\<close>, the roles, the encryption layer and the check of the search path (\<open>auth_env\<close>); for system
  variables the rows of \<open>base_variables\<close> and the time zones (\<open>sv_env\<close>).

  \<^bold>\<open>Not modelled.\<close>  The PostgreSQL server itself (parser, planner, executor, storage, replication,
  tools), which the adapter only calls; the MySQL grammar and the SQL functions of the MySQL dialect
  other than user and system variables; listening sockets and TLS, which are system calls around the
  transceiver; the printing of result rows, which walks server tuples; the scan of \<open>base_variables\<close> and
  the conversion of datums to text.  A spin lock that is held is waited for without end, where the server
  panics after a while.  Memory contexts and the release of memory are left out, except where a pointer is
  used after it was freed.
\<close>

end
